(* ===== verification/SV_Prelude.thy ===== *)
theory SV_Prelude
  imports "HOL-Library.Word"
begin

text \<open>
  Shared vocabulary of the development: the Go types the components use, byte readers and
  random sources, the SQL statements over tables kept as row lists, and the generic lemmas
  on lists and options that the component theories rely on.

  A Go \<^verbatim>\<open>string\<close> is a HOL \<open>string\<close> (a list of bytes, as in Go), a \<^verbatim>\<open>[]byte\<close> is a
  list of 8-bit words, an \<^verbatim>\<open>int64\<close> is a 64-bit word read with \<open>sint\<close>, and a time stamp
  or duration is an \<open>int\<close> number of nanoseconds.
\<close>

section \<open>Types\<close>

type_synonym byte = "8 word"
type_synonym bytes = "byte list"
type_synonym int64 = "64 word"
type_synonym time = int

named_theorems table_simps \<open>how the SQL statements act on a table\<close>

abbreviation second :: time where
  "second \<equiv> 1000000000"

abbreviation minute :: time where
  "minute \<equiv> 60 * second"

abbreviation hour :: time where
  "hour \<equiv> 60 * minute"

definition bytes_of_string :: "string \<Rightarrow> bytes" where
  "bytes_of_string s = map of_char s"

lemma length_bytes_of_string [simp]: "length (bytes_of_string s) = length s"
  by (simp add: bytes_of_string_def)

lemma unat_of_char_byte: "unat (of_char c :: byte) = of_char c"
proof -
  have "(of_char c :: byte) = of_nat (of_char c)"
    by (simp only: of_nat_of_char)
  then have "unat (of_char c :: byte) = of_char c mod (256 :: nat)"
    by (simp only: unat_of_nat) simp
  also have "\<dots> = of_char c"
    by (simp add: of_char_mod_256)
  finally show ?thesis .
qed

lemma of_char_byte_inj: "(of_char c :: byte) = of_char d \<Longrightarrow> c = d"
  by (metis unat_of_char_byte of_char_eq_iff)

lemma bytes_of_string_inject [simp]: "bytes_of_string s = bytes_of_string t \<longleftrightarrow> s = t"
proof
  assume "bytes_of_string s = bytes_of_string t"
  then show "s = t"
    unfolding bytes_of_string_def
    by (rule map_injective) (auto intro!: injI dest: of_char_byte_inj)
qed simp

section \<open>Readers and random sources\<close>

text \<open>
  An \<^verbatim>\<open>io.Reader\<close> delivers its data and then either ends (\<open>None\<close>) or fails. The failure
  of \<^verbatim>\<open>http.MaxBytesReader\<close> is told apart because the upload handler inspects it, and
  \<^verbatim>\<open>io.ErrUnexpectedEOF\<close>, which a body that stops early fails with, because \<^verbatim>\<open>Upload\<close> does.
\<close>

datatype read_error = MaxBytesError | UnexpectedEOF | OtherReadError

record reader =
  rd_data :: bytes
  rd_err :: "read_error option"

text \<open>
  \<^verbatim>\<open>io.ReadAll(io.LimitReader(r, n))\<close>: a limit that is not positive reads nothing; once the
  limit is reached the underlying reader is not asked again, so its error is not seen.
\<close>

definition read_all_limited :: "int \<Rightarrow> reader \<Rightarrow> read_error + bytes" where
  "read_all_limited n r =
     (if n \<le> 0 then Inr []
      else if n \<le> int (length (rd_data r)) then Inr (take (nat n) (rd_data r))
      else case rd_err r of Some e \<Rightarrow> Inl e | None \<Rightarrow> Inr (rd_data r))"

text \<open>
  A call of \<^verbatim>\<open>rand.Read\<close> on a buffer of \<open>n\<close> bytes fails (\<open>None\<close>) or fills the buffer.
\<close>

type_synonym rand_source = "(nat \<Rightarrow> byte) option"

definition rand_read :: "nat \<Rightarrow> rand_source \<Rightarrow> bytes option" where
  "rand_read n src = map_option (\<lambda>s. map s [0..<n]) src"

lemma rand_read_length: "rand_read n src = Some bs \<Longrightarrow> length bs = n"
  by (auto simp: rand_read_def)

section \<open>Tables\<close>

text \<open>
  A table is the list of its rows in insertion order. \<^verbatim>\<open>QueryRow\<close> on a statement that is
  keyed by a unique column gives its first row.
\<close>

definition select_where :: "('r \<Rightarrow> bool) \<Rightarrow> 'r list \<Rightarrow> 'r list" where
  "select_where P t = filter P t"

definition query_row :: "('r \<Rightarrow> bool) \<Rightarrow> 'r list \<Rightarrow> 'r option" where
  "query_row P t = find P t"

definition update_where :: "('r \<Rightarrow> bool) \<Rightarrow> ('r \<Rightarrow> 'r) \<Rightarrow> 'r list \<Rightarrow> 'r list" where
  "update_where P f t = map (\<lambda>r. if P r then f r else r) t"

definition delete_where :: "('r \<Rightarrow> bool) \<Rightarrow> 'r list \<Rightarrow> 'r list" where
  "delete_where P t = filter (\<lambda>r. \<not> P r) t"

definition count_where :: "('r \<Rightarrow> bool) \<Rightarrow> 'r list \<Rightarrow> nat" where
  "count_where P t = length (filter P t)"

lemma set_select_where [table_simps]: "set (select_where P t) = {r \<in> set t. P r}"
  by (simp add: select_where_def)

lemma set_delete_where [table_simps]: "set (delete_where P t) = {r \<in> set t. \<not> P r}"
  by (simp add: delete_where_def)

lemma set_update_where [table_simps]:
  "set (update_where P f t) = (\<lambda>r. if P r then f r else r) ` set t"
  by (simp add: update_where_def)

lemma ball_update_where: "(\<forall>x\<in>set (update_where P f t). Q x) \<longleftrightarrow> (\<forall>x\<in>set t. Q (if P x then f x else x))"
  by (auto simp: update_where_def)

lemma bex_update_where: "(\<exists>x\<in>set (update_where P f t). Q x) \<longleftrightarrow> (\<exists>x\<in>set t. Q (if P x then f x else x))"
  by (auto simp: update_where_def)

lemma length_update_where [simp]: "length (update_where P f t) = length t"
  by (simp add: update_where_def)

lemma query_row_Some: "query_row P t = Some r \<Longrightarrow> r \<in> set t \<and> P r"
  by (auto simp: query_row_def find_Some_iff)

lemma query_row_None: "query_row P t = None \<longleftrightarrow> (\<forall>r\<in>set t. \<not> P r)"
  by (auto simp: query_row_def find_None_iff)

lemma query_row_append [table_simps]:
  "query_row P (t @ u) = (case query_row P t of None \<Rightarrow> query_row P u | Some r \<Rightarrow> Some r)"
  by (induction t) (simp_all add: query_row_def)

lemma query_row_Nil [table_simps]: "query_row P [] = None"
  by (simp add: query_row_def)

lemma query_row_Cons [table_simps]: "query_row P (r # t) = (if P r then Some r else query_row P t)"
  by (simp add: query_row_def)

text \<open>With a unique key, the row found under a key is the only one that has it.\<close>

lemma distinct_key_unique:
  "distinct (map key t) \<Longrightarrow> r \<in> set t \<Longrightarrow> r' \<in> set t \<Longrightarrow> key r = key r' \<Longrightarrow> r = r'"
  by (simp add: distinct_map inj_on_def)

lemma query_row_key:
  assumes "distinct (map key t)" and "r \<in> set t"
  shows "query_row (\<lambda>x. key x = key r) t = Some r"
proof (cases "query_row (\<lambda>x. key x = key r) t")
  case None
  with assms(2) show ?thesis by (auto simp: query_row_None)
next
  case (Some r')
  with query_row_Some [OF Some] assms show ?thesis
    using distinct_key_unique [OF assms(1)] by auto
qed

lemma distinct_key_delete [simp]:
  "distinct (map key t) \<Longrightarrow> distinct (map key (delete_where P t))"
  by (simp add: delete_where_def distinct_map_filter)

lemma map_update_where [table_simps]:
  "(\<And>r. r \<in> set t \<Longrightarrow> P r \<Longrightarrow> g (f r) = g r) \<Longrightarrow> map g (update_where P f t) = map g t"
  by (simp add: update_where_def)

lemma count_where_append [table_simps]:
  "count_where P (t @ u) = count_where P t + count_where P u"
  by (simp add: count_where_def)

lemma count_where_Nil [table_simps]: "count_where P [] = 0"
  by (simp add: count_where_def)

lemma count_where_Cons [table_simps]:
  "count_where P (r # t) = (if P r then Suc (count_where P t) else count_where P t)"
  by (simp add: count_where_def)

lemma count_where_delete [table_simps]:
  "count_where P (delete_where Q t) = count_where (\<lambda>r. P r \<and> \<not> Q r) t"
  by (simp add: count_where_def delete_where_def conj_commute)

lemma count_where_mono: "(\<And>r. r \<in> set t \<Longrightarrow> P r \<Longrightarrow> Q r) \<Longrightarrow> count_where P t \<le> count_where Q t"
  by (induction t) (auto simp: count_where_def)

lemma count_where_cong:
  "(\<And>r. r \<in> set t \<Longrightarrow> P r \<longleftrightarrow> Q r) \<Longrightarrow> count_where P t = count_where Q t"
  by (simp add: count_where_def cong: filter_cong)

lemma count_where_zero: "count_where P t = 0 \<longleftrightarrow> (\<forall>r\<in>set t. \<not> P r)"
  by (simp add: count_where_def filter_empty_conv)

lemma count_where_update:
  "(\<And>r. r \<in> set t \<Longrightarrow> Q r \<Longrightarrow> P (f r) = P r) \<Longrightarrow> count_where P (update_where Q f t) = count_where P t"
  by (induction t) (auto simp: count_where_def update_where_def)

lemma count_where_split_one:
  assumes "distinct (map key t)" and "r \<in> set t" and "P r"
  shows "count_where P t = Suc (count_where (\<lambda>x. P x \<and> key x \<noteq> key r) t)"
  using assms
proof (induction t)
  case Nil
  then show ?case by simp
next
  case (Cons a t)
  show ?case
  proof (cases "a = r")
    case True
    with Cons.prems have "\<forall>x\<in>set t. key x \<noteq> key r"
      by (metis distinct.simps(2) image_eqI list.map(2) list.set_map)
    then have "count_where P t = count_where (\<lambda>x. P x \<and> key x \<noteq> key r) t"
      by (intro count_where_cong) auto
    with True Cons.prems show ?thesis by (simp add: table_simps)
  next
    case False
    with Cons.prems have "r \<in> set t" by simp
    with Cons False have "count_where P t = Suc (count_where (\<lambda>x. P x \<and> key x \<noteq> key r) t)"
      by simp
    moreover from False Cons.prems \<open>r \<in> set t\<close> have "key a \<noteq> key r"
      by (metis distinct.simps(2) image_eqI list.map(2) list.set_map)
    ultimately show ?thesis by (simp add: table_simps)
  qed
qed

section \<open>Trimming\<close>

definition trim_list :: "('a \<Rightarrow> bool) \<Rightarrow> 'a list \<Rightarrow> 'a list" where
  "trim_list P xs = rev (dropWhile P (rev (dropWhile P xs)))"

lemma set_trim_list: "set (trim_list P xs) \<subseteq> set xs"
  unfolding trim_list_def by (auto dest!: set_dropWhileD)

lemma dropWhile_not_hd: "(xs \<noteq> [] \<Longrightarrow> \<not> P (hd xs)) \<Longrightarrow> dropWhile P xs = xs"
  by (cases xs) auto

lemma trim_list_none: "(\<And>x. x \<in> set xs \<Longrightarrow> \<not> P x) \<Longrightarrow> trim_list P xs = xs"
proof -
  assume none: "\<And>x. x \<in> set xs \<Longrightarrow> \<not> P x"
  have "dropWhile P xs = xs"
    by (rule dropWhile_not_hd) (simp add: none)
  moreover have "dropWhile P (rev xs) = rev xs"
    by (rule dropWhile_not_hd) (simp add: none hd_rev)
  ultimately show ?thesis
    by (simp add: trim_list_def)
qed

lemma hd_dropWhile_not: "dropWhile P xs \<noteq> [] \<Longrightarrow> \<not> P (hd (dropWhile P xs))"
  by (rule hd_dropWhile)

lemma last_dropWhile_suffix: "dropWhile P xs \<noteq> [] \<Longrightarrow> last (dropWhile P xs) = last xs"
  by (induction xs) auto

lemma trim_list_ends:
  assumes "trim_list P xs \<noteq> []"
  shows "\<not> P (hd (trim_list P xs))" "\<not> P (last (trim_list P xs))"
proof -
  define ys where "ys = dropWhile P (rev (dropWhile P xs))"
  have t: "trim_list P xs = rev ys" by (simp add: trim_list_def ys_def)
  with assms have ne: "ys \<noteq> []" by simp
  then have "\<not> P (hd ys)" unfolding ys_def by (rule hd_dropWhile_not)
  then show "\<not> P (last (trim_list P xs))" using ne by (simp add: t last_rev)
  have inner: "dropWhile P xs \<noteq> []"
  proof
    assume "dropWhile P xs = []"
    with ne show False by (simp only: ys_def rev.simps dropWhile.simps simp_thms)
  qed
  have "last ys = last (rev (dropWhile P xs))"
    unfolding ys_def by (rule last_dropWhile_suffix) (rule ne [unfolded ys_def])
  also have "\<dots> = hd (dropWhile P xs)" using inner by (simp add: last_rev)
  finally show "\<not> P (hd (trim_list P xs))"
    using ne hd_dropWhile_not [OF inner] by (simp add: t hd_rev)
qed

lemma trim_list_idem [simp]: "trim_list P (trim_list P xs) = trim_list P xs"
proof (cases "trim_list P xs = []")
  case True
  show ?thesis unfolding True by (simp add: trim_list_def)
next
  case False
  note ends = trim_list_ends [OF False]
  have "dropWhile P (trim_list P xs) = trim_list P xs"
    by (rule dropWhile_not_hd) (rule ends)
  moreover have "dropWhile P (rev (trim_list P xs)) = rev (trim_list P xs)"
    by (rule dropWhile_not_hd) (use ends False in \<open>simp add: hd_rev\<close>)
  ultimately show ?thesis by (simp add: trim_list_def [of P "trim_list P xs"])
qed

lemma filter_dropWhile: "(\<And>x. P x \<Longrightarrow> \<not> Q x) \<Longrightarrow> filter Q (dropWhile P xs) = filter Q xs"
  by (induction xs) auto

lemma filter_trim_list: "(\<And>x. P x \<Longrightarrow> \<not> Q x) \<Longrightarrow> filter Q (trim_list P xs) = filter Q xs"
  by (simp add: trim_list_def rev_filter filter_dropWhile flip: rev_filter)

text \<open>What comes after a key in a list ascending by keys.\<close>

lemma filter_after:
  fixes f :: "'a \<Rightarrow> 'b :: linorder"
  shows "sorted_wrt (<) (map f xs) \<Longrightarrow> j < length xs \<Longrightarrow> filter (\<lambda>x. f (xs ! j) < f x) xs = drop (Suc j) xs"
proof (induction xs arbitrary: j)
  case (Cons x xs)
  show ?case
  proof (cases j)
    case 0
    with Cons.prems show ?thesis by (auto intro: filter_True)
  next
    case (Suc i)
    have "f x < f (xs ! i)" using Cons.prems Suc by simp
    then have n: "\<not> f (xs ! i) < f x" by simp
    show ?thesis using Suc Cons by (simp add: n)
  qed
qed simp

end
