(* ===== verification/Go_Text.thy ===== *)
theory Go_Text
  imports SV_Prelude
begin

text \<open>
  The parts of Go's \<^verbatim>\<open>unicode/utf8\<close>, \<^verbatim>\<open>strings\<close> and \<^verbatim>\<open>path/filepath\<close> that the program
  calls, on byte strings: UTF-8 decoding as \<^verbatim>\<open>for range\<close> does it (an invalid byte is the rune
  U+FFFD of width 1), encoding, trimming, case mapping and splitting. The Unicode tables
  above ASCII (which runes are printable, the case mappings) are not code of the program;
  they are the fields of the parameter \<open>unicode\<close>.
\<close>

section \<open>UTF-8\<close>

type_synonym rune = nat

abbreviation rune_error :: rune where
  "rune_error \<equiv> 65533"

definition cont_byte :: "nat \<Rightarrow> bool" where
  "cont_byte b \<longleftrightarrow> 128 \<le> b \<and> b < 192"

text \<open>The bounds of the second byte after the first byte of a 3- or 4-byte sequence.\<close>

definition second_byte_ok :: "nat \<Rightarrow> nat \<Rightarrow> bool" where
  "second_byte_ok b0 b1 \<longleftrightarrow>
     (if b0 = 224 then 160 else if b0 = 240 then 144 else 128) \<le> b1 \<and>
     b1 < (if b0 = 237 then 160 else if b0 = 244 then 144 else 192)"

text \<open>\<^verbatim>\<open>utf8.DecodeRune\<close>: the rune and its width in bytes.\<close>

fun decode_rune :: "nat list \<Rightarrow> rune \<times> nat" where
  "decode_rune [] = (rune_error, 0)"
| "decode_rune (b0 # bs) =
     (if b0 < 128 then (b0, 1)
      else if 194 \<le> b0 \<and> b0 < 224 then
        (case bs of
           b1 # _ \<Rightarrow> if cont_byte b1 then ((b0 - 192) * 64 + (b1 - 128), 2) else (rune_error, 1)
         | [] \<Rightarrow> (rune_error, 1))
      else if 224 \<le> b0 \<and> b0 < 240 then
        (case bs of
           b1 # b2 # _ \<Rightarrow>
             if second_byte_ok b0 b1 \<and> cont_byte b2
             then ((b0 - 224) * 4096 + (b1 - 128) * 64 + (b2 - 128), 3) else (rune_error, 1)
         | _ \<Rightarrow> (rune_error, 1))
      else if 240 \<le> b0 \<and> b0 < 245 then
        (case bs of
           b1 # b2 # b3 # _ \<Rightarrow>
             if second_byte_ok b0 b1 \<and> cont_byte b2 \<and> cont_byte b3
             then ((b0 - 240) * 262144 + (b1 - 128) * 4096 + (b2 - 128) * 64 + (b3 - 128), 4)
             else (rune_error, 1)
         | _ \<Rightarrow> (rune_error, 1))
      else (rune_error, 1))"

definition valid_rune :: "rune \<Rightarrow> bool" where
  "valid_rune r \<longleftrightarrow> r < 55296 \<or> (57344 \<le> r \<and> r < 1114112)"

definition rune_bytes :: "rune \<Rightarrow> nat list" where
  "rune_bytes r =
     (if r < 128 then [r]
      else if r < 2048 then [192 + r div 64, 128 + r mod 64]
      else if r < 65536 then [224 + r div 4096, 128 + r div 64 mod 64, 128 + r mod 64]
      else [240 + r div 262144, 128 + r div 4096 mod 64, 128 + r div 64 mod 64, 128 + r mod 64])"

text \<open>\<^verbatim>\<open>utf8.AppendRune\<close>: a surrogate or out-of-range rune is written as U+FFFD.\<close>

definition encode_rune :: "rune \<Rightarrow> string" where
  "encode_rune r = map char_of (rune_bytes (if valid_rune r then r else rune_error))"

definition codes :: "string \<Rightarrow> nat list" where
  "codes s = map of_char s"

lemma codes_simps [simp]:
  "codes [] = []" "codes (c # s) = of_char c # codes s" "codes (s @ t) = codes s @ codes t"
  "length (codes s) = length s"
  by (simp_all add: codes_def)

lemma decode_rune_width: "bs \<noteq> [] \<Longrightarrow> 1 \<le> snd (decode_rune bs) \<and> snd (decode_rune bs) \<le> length bs"
  by (cases bs rule: decode_rune.cases) (auto split: list.splits)

text \<open>The runes of a string, each with the bytes it was decoded from (\<^verbatim>\<open>for i, r := range s\<close>).\<close>

function utf8_segments :: "string \<Rightarrow> (rune \<times> string) list" where
  "utf8_segments s =
     (if s = [] then []
      else let (r, n) = decode_rune (codes s) in (r, take n s) # utf8_segments (drop n s))"
  by pat_completeness auto
termination
proof (relation "measure length")
  show "wf (measure length)" by simp
next
  fix s :: string and x r n
  assume "s \<noteq> []" and "x = decode_rune (codes s)" and "(r, n) = x"
  moreover from this have "1 \<le> n"
    using decode_rune_width [of "codes s"] by (cases s) (auto dest: sym)
  ultimately show "(drop n s, s) \<in> measure length"
    by (cases s) auto
qed

declare utf8_segments.simps [simp del]

definition runes :: "string \<Rightarrow> rune list" where
  "runes s = map fst (utf8_segments s)"

definition of_runes :: "rune list \<Rightarrow> string" where
  "of_runes rs = concat (map encode_rune rs)"

text \<open>A string is valid UTF-8 when no byte of it decodes to the error rune of width 1.\<close>

definition valid_utf8 :: "string \<Rightarrow> bool" where
  "valid_utf8 s \<longleftrightarrow> (\<forall>(r, seg) \<in> set (utf8_segments s). \<not> (r = rune_error \<and> length seg = 1))"

lemma utf8_segments_Nil [simp]: "utf8_segments [] = []"
  by (simp add: utf8_segments.simps)

lemma utf8_segments_step:
  "s \<noteq> [] \<Longrightarrow> decode_rune (codes s) = (r, n) \<Longrightarrow>
   utf8_segments s = (r, take n s) # utf8_segments (drop n s)"
  by (subst utf8_segments.simps) simp

lemma concat_utf8_segments: "concat (map snd (utf8_segments s)) = s"
proof (induction s rule: utf8_segments.induct)
  case (1 s)
  show ?case
  proof (cases "s = []")
    case False
    obtain r n where d: "decode_rune (codes s) = (r, n)" by force
    from 1 [OF False d [symmetric] refl] show ?thesis
      by (simp add: utf8_segments_step [OF False d])
  qed simp
qed

subsection \<open>Decoding what was encoded\<close>

lemma rune_bytes_lt_256: "valid_rune r \<Longrightarrow> b \<in> set (rune_bytes r) \<Longrightarrow> b < 256"
  unfolding valid_rune_def rune_bytes_def
  by (auto split: if_splits)

lemma rune_bytes_nonempty [simp]: "rune_bytes r \<noteq> []"
  by (simp add: rune_bytes_def)

lemma div_64:
  "(r::nat) div 4096 = r div 64 div 64" "(r::nat) div 262144 = r div 64 div 64 div 64"
  by (simp_all flip: div_mult2_eq)

lemma digits_64:
  "(r::nat) div 4096 * 4096 + r div 64 mod 64 * 64 + r mod 64 = r"
  "r div 262144 * 262144 + r div 4096 mod 64 * 4096 + r div 64 mod 64 * 64 + r mod 64 = r"
proof -
  let ?a = "r div 64" and ?b = "r div 64 div 64"
  have a: "?a * 64 + r mod 64 = r" and b: "?b * 64 + ?a mod 64 = ?a"
    and c: "?b div 64 * 64 + ?b mod 64 = ?b" by simp_all
  show "r div 4096 * 4096 + r div 64 mod 64 * 64 + r mod 64 = r"
    unfolding div_64 using a b by linarith
  show "r div 262144 * 262144 + r div 4096 mod 64 * 4096 + r div 64 mod 64 * 64 + r mod 64 = r"
    unfolding div_64 using a b c by linarith
qed

lemma decode_rune_bytes:
  assumes "valid_rune r"
  shows "decode_rune (rune_bytes r @ rest) = (r, length (rune_bytes r))"
proof -
  consider "r < 128" | "128 \<le> r" "r < 2048" | "2048 \<le> r" "r < 65536" | "65536 \<le> r" by linarith
  then show ?thesis
  proof cases
    case 1
    then show ?thesis by (simp add: rune_bytes_def)
  next
    case 2
    then have "2 \<le> r div 64" "r div 64 < 32" by auto
    moreover have "r div 64 * 64 + r mod 64 = r" by simp
    ultimately show ?thesis
      using 2 by (simp add: rune_bytes_def cont_byte_def)
  next
    case 3
    note e = digits_64(1) [of r]
    have "r div 4096 < 16" using 3 by auto
    moreover have "r div 4096 = 0 \<Longrightarrow> 32 \<le> r div 64 mod 64" using 3 by auto
    moreover have "r div 4096 = 13 \<Longrightarrow> r div 64 mod 64 < 32"
    proof -
      assume a: "r div 4096 = 13"
      then have "r < 55296" using assms 3 by (auto simp: valid_rune_def)
      then have "r div 64 < 864" by linarith
      with a show "r div 64 mod 64 < 32"
        using div_mult_mod_eq [of "r div 64" 64] unfolding div_64 by simp
    qed
    ultimately show ?thesis
      using 3 e by (simp add: rune_bytes_def cont_byte_def second_byte_ok_def)
  next
    case 4
    have lt: "r < 1114112" using 4 assms by (auto simp: valid_rune_def)
    note e = digits_64(2) [of r]
    have "r div 262144 < 5" using lt by auto
    moreover have "r div 262144 = 0 \<Longrightarrow> 16 \<le> r div 4096 mod 64" using 4 by auto
    moreover have "r div 262144 = 4 \<Longrightarrow> r div 4096 mod 64 < 16"
    proof -
      assume a: "r div 262144 = 4"
      have "r div 4096 < 272" using lt by linarith
      with a show "r div 4096 mod 64 < 16"
        using div_mult_mod_eq [of "r div 4096" 64] by (simp flip: div_mult2_eq)
    qed
    ultimately show ?thesis
      using 4 e by (simp add: rune_bytes_def cont_byte_def second_byte_ok_def)
  qed
qed

lemma codes_encode_rune: "valid_rune r \<Longrightarrow> codes (encode_rune r) = rune_bytes r"
  using rune_bytes_lt_256 [of r] by (auto simp: encode_rune_def codes_def intro!: map_idI)

lemma encode_rune_nonempty [simp]: "encode_rune r \<noteq> []"
  by (simp add: encode_rune_def)

lemma length_encode_rune: "valid_rune r \<Longrightarrow> length (encode_rune r) = length (rune_bytes r)"
  by (simp add: encode_rune_def)

lemma utf8_segments_encode_append:
  assumes "valid_rune r"
  shows "utf8_segments (encode_rune r @ s) = (r, encode_rune r) # utf8_segments s"
proof -
  have "decode_rune (codes (encode_rune r @ s)) = (r, length (encode_rune r))"
    using assms by (simp add: codes_encode_rune decode_rune_bytes length_encode_rune)
  from utf8_segments_step [OF _ this] show ?thesis
    by simp
qed

lemma utf8_segments_of_runes:
  "\<forall>r\<in>set rs. valid_rune r \<Longrightarrow> utf8_segments (of_runes rs) = map (\<lambda>r. (r, encode_rune r)) rs"
  by (induction rs) (simp_all add: of_runes_def utf8_segments_encode_append)

lemma runes_of_runes: "\<forall>r\<in>set rs. valid_rune r \<Longrightarrow> runes (of_runes rs) = rs"
  by (simp add: runes_def utf8_segments_of_runes o_def)

lemma encode_rune_error_length: "length (encode_rune rune_error) = 3"
  by (simp add: encode_rune_def rune_bytes_def valid_rune_def)

lemma valid_utf8_of_runes: "\<forall>r\<in>set rs. valid_rune r \<Longrightarrow> valid_utf8 (of_runes rs)"
  by (auto simp: valid_utf8_def utf8_segments_of_runes encode_rune_error_length)

subsection \<open>Every decoded rune is valid\<close>

lemma rune2_range:
  assumes "194 \<le> b0" "b0 < 224" "cont_byte b1"
  shows "128 \<le> (b0 - 192) * 64 + (b1 - 128)" "(b0 - 192) * 64 + (b1 - 128) < 2048"
proof -
  define x y where xy: "x = b0 - 192" "y = b1 - 128"
  have "2 \<le> x" "x < 32" "y < 64"
    using assms unfolding xy cont_byte_def by auto
  then show "128 \<le> (b0 - 192) * 64 + (b1 - 128)" "(b0 - 192) * 64 + (b1 - 128) < 2048"
    unfolding xy [symmetric] by linarith+
qed

lemma rune3_range:
  assumes "224 \<le> b0" "b0 < 240" "second_byte_ok b0 b1" "cont_byte b2"
  shows "2048 \<le> (b0 - 224) * 4096 + (b1 - 128) * 64 + (b2 - 128)"
    "(b0 - 224) * 4096 + (b1 - 128) * 64 + (b2 - 128) < 65536"
    "valid_rune ((b0 - 224) * 4096 + (b1 - 128) * 64 + (b2 - 128))"
proof -
  define x y z where xyz: "x = b0 - 224" "y = b1 - 128" "z = b2 - 128"
  have *: "x < 16" "y < 64" "z < 64" "x = 0 \<Longrightarrow> 32 \<le> y" "x = 13 \<Longrightarrow> y < 32"
    using assms unfolding xyz second_byte_ok_def cont_byte_def by (auto split: if_splits)
  show "2048 \<le> (b0 - 224) * 4096 + (b1 - 128) * 64 + (b2 - 128)"
    unfolding xyz [symmetric] using * by (cases "x = 0") simp_all
  show "(b0 - 224) * 4096 + (b1 - 128) * 64 + (b2 - 128) < 65536"
    unfolding xyz [symmetric] using * by linarith
  consider "x < 13" | "x = 13" | "14 \<le> x" by linarith
  then show "valid_rune ((b0 - 224) * 4096 + (b1 - 128) * 64 + (b2 - 128))"
    unfolding xyz [symmetric] valid_rune_def using * by cases simp_all
qed

lemma rune4_range:
  assumes "240 \<le> b0" "b0 < 245" "second_byte_ok b0 b1" "cont_byte b2" "cont_byte b3"
  shows "65536 \<le> (b0 - 240) * 262144 + (b1 - 128) * 4096 + (b2 - 128) * 64 + (b3 - 128)"
    "(b0 - 240) * 262144 + (b1 - 128) * 4096 + (b2 - 128) * 64 + (b3 - 128) < 1114112"
proof -
  define x y z w where xyz: "x = b0 - 240" "y = b1 - 128" "z = b2 - 128" "w = b3 - 128"
  have *: "x < 5" "y < 64" "z < 64" "w < 64" "x = 0 \<Longrightarrow> 16 \<le> y" "x = 4 \<Longrightarrow> y < 16"
    using assms unfolding xyz second_byte_ok_def cont_byte_def by (auto split: if_splits)
  show "65536 \<le> (b0 - 240) * 262144 + (b1 - 128) * 4096 + (b2 - 128) * 64 + (b3 - 128)"
    unfolding xyz [symmetric] using * by (cases "x = 0") simp_all
  show "(b0 - 240) * 262144 + (b1 - 128) * 4096 + (b2 - 128) * 64 + (b3 - 128) < 1114112"
    unfolding xyz [symmetric] using * by (cases "x = 4") simp_all
qed

text \<open>The four shapes a successful decoding step can have.\<close>

lemma decode_rune_cases [consumes 1, case_names Ascii Two Three Four Error]:
  assumes "decode_rune bs = (r, n)"
  obtains (Ascii) b0 rest where "bs = b0 # rest" "b0 < 128" "r = b0" "n = 1"
  | (Two) b0 b1 rest where "bs = b0 # b1 # rest" "194 \<le> b0" "b0 < 224" "cont_byte b1"
      "r = (b0 - 192) * 64 + (b1 - 128)" "n = 2"
  | (Three) b0 b1 b2 rest where "bs = b0 # b1 # b2 # rest" "224 \<le> b0" "b0 < 240"
      "second_byte_ok b0 b1" "cont_byte b2"
      "r = (b0 - 224) * 4096 + (b1 - 128) * 64 + (b2 - 128)" "n = 3"
  | (Four) b0 b1 b2 b3 rest where "bs = b0 # b1 # b2 # b3 # rest" "240 \<le> b0" "b0 < 245"
      "second_byte_ok b0 b1" "cont_byte b2" "cont_byte b3"
      "r = (b0 - 240) * 262144 + (b1 - 128) * 4096 + (b2 - 128) * 64 + (b3 - 128)" "n = 4"
  | (Error) "r = rune_error" "n \<le> 1"
proof (cases bs)
  case Nil
  with assms Error show thesis by simp
next
  case (Cons b0 rest)
  with assms that show thesis
    by (auto split: if_splits list.splits simp del: add_diff_assoc2 diff_add_assoc2)
qed

lemma decode_rune_valid:
  assumes "decode_rune bs = (r, n)"
  shows "valid_rune r"
  using assms
proof (cases rule: decode_rune_cases)
  case Two
  with rune2_range show ?thesis by (fastforce simp: valid_rune_def)
next
  case Three
  with rune3_range show ?thesis by blast
next
  case Four
  with rune4_range show ?thesis by (fastforce simp: valid_rune_def)
qed (auto simp: valid_rune_def)

lemma runes_valid: "(r, seg) \<in> set (utf8_segments s) \<Longrightarrow> valid_rune r"
proof (induction s rule: utf8_segments.induct)
  case (1 s)
  show ?case
  proof (cases "s = []")
    case True
    with 1 show ?thesis by simp
  next
    case False
    obtain q n where d: "decode_rune (codes s) = (q, n)" by force
    from 1 False d show ?thesis
      by (auto simp: utf8_segments_step [OF False d] dest: decode_rune_valid)
  qed
qed

lemma div_mod_digit_64:
  "z < 64 \<Longrightarrow> (q * 64 + z) mod 64 = (z::nat)" "z < 64 \<Longrightarrow> (q * 64 + z) div 64 = (q::nat)"
  by simp_all

lemma rune_bytes_decode:
  assumes "decode_rune bs = (r, n)" and "bs \<noteq> []" and "\<not> (r = rune_error \<and> n = 1)"
  shows "rune_bytes r = take n bs"
  using assms(1)
proof (cases rule: decode_rune_cases)
  case Ascii
  then show ?thesis by (simp add: rune_bytes_def)
next
  case (Two b0 b1 rest)
  define x y where xy: "x = b0 - 192" "y = b1 - 128"
  have lt: "y < 64" "b0 = 192 + x" "b1 = 128 + y"
    using Two(2-4) unfolding xy cont_byte_def by auto
  have "r = x * 64 + y"
    using Two(5) by (simp add: xy)
  then have "r div 64 = x" "r mod 64 = y" using lt by simp_all
  with rune2_range [OF Two(2-4)] Two(1,5,6) lt show ?thesis
    by (simp add: rune_bytes_def)
next
  case (Three b0 b1 b2 rest)
  define x y z where xyz: "x = b0 - 224" "y = b1 - 128" "z = b2 - 128"
  have lt: "y < 64" "z < 64" "b0 = 224 + x" "b1 = 128 + y" "b2 = 128 + z"
    using Three(2-5) unfolding xyz second_byte_ok_def cont_byte_def by (auto split: if_splits)
  have r: "r = (x * 64 + y) * 64 + z"
    using Three(6) by (simp add: xyz)
  have "r mod 64 = z" "r div 64 = x * 64 + y"
    unfolding r using lt by (simp_all only: div_mod_digit_64)
  then have "r mod 64 = z" "r div 64 mod 64 = y" "r div 4096 = x"
    using lt by (simp_all add: div_64)
  with rune3_range [OF Three(2-5)] Three(1,6,7) lt show ?thesis
    by (simp add: rune_bytes_def)
next
  case (Four b0 b1 b2 b3 rest)
  define x y z w where xyz: "x = b0 - 240" "y = b1 - 128" "z = b2 - 128" "w = b3 - 128"
  have lt: "y < 64" "z < 64" "w < 64" "b0 = 240 + x" "b1 = 128 + y" "b2 = 128 + z" "b3 = 128 + w"
    using Four(2-6) unfolding xyz second_byte_ok_def cont_byte_def by (auto split: if_splits)
  have r: "r = ((x * 64 + y) * 64 + z) * 64 + w"
    using Four(7) by (simp add: xyz)
  have a: "r mod 64 = w" "r div 64 = (x * 64 + y) * 64 + z"
    unfolding r using lt by (simp_all only: div_mod_digit_64)
  then have "r div 4096 = x * 64 + y"
    using lt by (simp only: div_64 div_mod_digit_64)
  moreover have "r div 262144 = x"
    using lt a(2) by (simp only: div_64 div_mod_digit_64)
  moreover have "r div 64 mod 64 = z"
    unfolding a(2) using lt(2) by (simp only: div_mod_digit_64)
  ultimately have "r mod 64 = w" "r div 64 mod 64 = z" "r div 4096 mod 64 = y" "r div 262144 = x"
    using lt a(1) by simp_all
  with rune4_range [OF Four(2-6)] Four(1,7,8) lt show ?thesis
    by (simp add: rune_bytes_def)
next
  case Error
  with assms decode_rune_width [of bs] show ?thesis by auto
qed

lemma map_char_of_codes: "map char_of (codes s) = s"
  by (simp add: codes_def o_def)

text \<open>A valid string is the encoding of its runes.\<close>

lemma of_runes_runes: "valid_utf8 s \<Longrightarrow> of_runes (runes s) = s"
proof (induction s rule: utf8_segments.induct)
  case (1 s)
  show ?case
  proof (cases "s = []")
    case True
    then show ?thesis by (simp add: runes_def of_runes_def)
  next
    case False
    obtain r n where d: "decode_rune (codes s) = (r, n)" by force
    note step = utf8_segments_step [OF False d]
    from False have ne: "codes s \<noteq> []" by (simp add: codes_def)
    from decode_rune_width [OF ne] d have n: "1 \<le> n" "n \<le> length s" by simp_all
    from "1.prems" n have "\<not> (r = rune_error \<and> n = 1)" and tail: "valid_utf8 (drop n s)"
      by (auto simp: valid_utf8_def step)
    then have "rune_bytes r = take n (codes s)"
      using d ne by (intro rune_bytes_decode)
    then have "encode_rune r = take n s"
      using decode_rune_valid [OF d] by (simp add: encode_rune_def map_char_of_codes flip: take_map)
    moreover from "1.IH" [OF False d [symmetric] refl tail]
    have "of_runes (runes (drop n s)) = drop n s" .
    ultimately show ?thesis
      by (simp add: runes_def of_runes_def step)
  qed
qed

section \<open>The Unicode tables\<close>

record unicode =
  up_print :: "rune \<Rightarrow> bool"
  up_upper :: "rune \<Rightarrow> rune"
  up_lower :: "rune \<Rightarrow> rune"

text \<open>\<^verbatim>\<open>unicode.IsPrint\<close>, \<^verbatim>\<open>unicode.ToUpper\<close>, \<^verbatim>\<open>unicode.ToLower\<close>: exact on ASCII.\<close>

definition is_print :: "unicode \<Rightarrow> rune \<Rightarrow> bool" where
  "is_print u r = (if r < 128 then 32 \<le> r \<and> r < 127 else up_print u r)"

definition upper_rune :: "unicode \<Rightarrow> rune \<Rightarrow> rune" where
  "upper_rune u r = (if r < 128 then (if 97 \<le> r \<and> r \<le> 122 then r - 32 else r) else up_upper u r)"

definition lower_rune :: "unicode \<Rightarrow> rune \<Rightarrow> rune" where
  "lower_rune u r = (if r < 128 then (if 65 \<le> r \<and> r \<le> 90 then r + 32 else r) else up_lower u r)"

text \<open>A small concrete table, for the examples of the development.\<close>

definition demo_unicode :: unicode where
  "demo_unicode = \<lparr>up_print = (\<lambda>r. 160 < r), up_upper = id, up_lower = id\<rparr>"

text \<open>\<^verbatim>\<open>unicode.IsSpace\<close>: the code points with the White_Space property.\<close>

definition is_space :: "rune \<Rightarrow> bool" where
  "is_space r \<longleftrightarrow> 9 \<le> r \<and> r \<le> 13 \<or> r = 32 \<or> r = 133 \<or> r = 160 \<or> r = 5760 \<or>
     8192 \<le> r \<and> r \<le> 8202 \<or> r = 8232 \<or> r = 8233 \<or> r = 8239 \<or> r = 8287 \<or> r = 12288"

section \<open>strings\<close>

text \<open>\<^verbatim>\<open>strings.Map\<close> with a function that keeps a rune or drops it.\<close>

definition filter_runes :: "(rune \<Rightarrow> bool) \<Rightarrow> string \<Rightarrow> string" where
  "filter_runes keep s = of_runes (filter keep (runes s))"

definition trim_space :: "string \<Rightarrow> string" where
  "trim_space s = concat (map snd (trim_list (\<lambda>(r, _). is_space r) (utf8_segments s)))"

text \<open>\<^verbatim>\<open>strings.Trim\<close> with a cutset of one ASCII character.\<close>

definition trim_char :: "char \<Rightarrow> string \<Rightarrow> string" where
  "trim_char c s = trim_list (\<lambda>x. x = c) s"

definition to_upper :: "unicode \<Rightarrow> string \<Rightarrow> string" where
  "to_upper u s = of_runes (map (upper_rune u) (runes s))"

definition to_lower :: "unicode \<Rightarrow> string \<Rightarrow> string" where
  "to_lower u s = of_runes (map (lower_rune u) (runes s))"

definition has_prefix :: "string \<Rightarrow> string \<Rightarrow> bool" where
  "has_prefix s p \<longleftrightarrow> take (length p) s = p"

text \<open>What follows the last byte of \<open>cs\<close> in \<open>s\<close>: \<open>s[strings.LastIndexAny(s, cs)+1:]\<close>.\<close>

definition after_last_any :: "string \<Rightarrow> string \<Rightarrow> string" where
  "after_last_any cs s = rev (takeWhile (\<lambda>c. c \<notin> set cs) (rev s))"

text \<open>\<^verbatim>\<open>strings.Split\<close> with a separator of one character.\<close>

fun split_char :: "char \<Rightarrow> string \<Rightarrow> string list" where
  "split_char c [] = [[]]"
| "split_char c (x # s) =
     (if x = c then [] # split_char c s
      else case split_char c s of [] \<Rightarrow> [[x]] | w # ws \<Rightarrow> (x # w) # ws)"

lemma split_char_nonempty [simp]: "split_char c s \<noteq> []"
  by (induction s) (auto split: list.splits)

lemma split_char_none: "c \<notin> set s \<Longrightarrow> split_char c s = [s]"
  by (induction s) auto

lemma split_char_append:
  "c \<notin> set s \<Longrightarrow> split_char c (s @ c # t) = s # split_char c t"
  by (induction s) auto

subsection \<open>ASCII strings\<close>

definition ascii :: "string \<Rightarrow> bool" where
  "ascii s \<longleftrightarrow> (\<forall>c\<in>set s. of_char c < (128::nat))"

lemma encode_rune_ascii: "r < 128 \<Longrightarrow> encode_rune r = [char_of r]"
  by (simp add: encode_rune_def rune_bytes_def valid_rune_def)

lemma utf8_segments_ascii_Cons:
  "of_char c < (128::nat) \<Longrightarrow> utf8_segments (c # s) = (of_char c, [c]) # utf8_segments s"
  by (simp add: utf8_segments_step)

lemma utf8_segments_ascii: "ascii s \<Longrightarrow> utf8_segments s = map (\<lambda>c. (of_char c, [c])) s"
  by (induction s) (simp_all add: ascii_def utf8_segments_ascii_Cons)

lemma runes_ascii: "ascii s \<Longrightarrow> runes s = map of_char s"
  by (simp add: runes_def utf8_segments_ascii o_def)

lemma of_runes_ascii: "\<forall>r\<in>set rs. r < 128 \<Longrightarrow> of_runes rs = map char_of rs"
  by (induction rs) (simp_all add: of_runes_def encode_rune_ascii)

lemma valid_utf8_ascii: "ascii s \<Longrightarrow> valid_utf8 s"
  by (auto simp: valid_utf8_def utf8_segments_ascii ascii_def)

lemma trim_list_map: "trim_list P (map f xs) = map f (trim_list (\<lambda>x. P (f x)) xs)"
  by (simp add: trim_list_def dropWhile_map rev_map o_def)

lemma trim_space_ascii: "ascii s \<Longrightarrow> trim_space s = trim_list (\<lambda>c. is_space (of_char c)) s"
  by (simp add: trim_space_def utf8_segments_ascii trim_list_map o_def)

lemma to_upper_ascii:
  "ascii s \<Longrightarrow> to_upper u s = map (\<lambda>c. char_of (upper_rune u (of_char c))) s"
  by (subst to_upper_def, subst of_runes_ascii) (auto simp: runes_ascii ascii_def upper_rune_def)

lemma to_lower_ascii:
  "ascii s \<Longrightarrow> to_lower u s = map (\<lambda>c. char_of (lower_rune u (of_char c))) s"
  by (subst to_lower_def, subst of_runes_ascii) (auto simp: runes_ascii ascii_def lower_rune_def)

lemma set_after_last_any: "set (after_last_any cs s) \<subseteq> set s - set cs"
  unfolding after_last_any_def by (auto dest: set_takeWhileD)

lemma after_last_any_none: "set cs \<inter> set s = {} \<Longrightarrow> after_last_any cs s = s"
  unfolding after_last_any_def by (subst takeWhile_eq_all_conv [THEN iffD2]) auto

section \<open>path/filepath\<close>

text \<open>
  \<^verbatim>\<open>filepath.Join\<close> on Unix: join the non-empty elements with \<^verbatim>\<open>/\<close> and clean the result,
  working on the slash-separated components.
\<close>

fun clean_components :: "bool \<Rightarrow> string list \<Rightarrow> string list \<Rightarrow> string list" where
  "clean_components rooted acc [] = rev acc"
| "clean_components rooted acc (c # cs) =
     (if c = [] \<or> c = ''.'' then clean_components rooted acc cs
      else if c = ''..'' then
        (case acc of
           [] \<Rightarrow> if rooted then clean_components rooted [] cs
                 else clean_components rooted [''..''] cs
         | a # as \<Rightarrow> if a = ''..'' then clean_components rooted (''..'' # acc) cs
                    else clean_components rooted as cs)
      else clean_components rooted (c # acc) cs)"

fun intercalate :: "string \<Rightarrow> string list \<Rightarrow> string" where
  "intercalate sep [] = []"
| "intercalate sep [w] = w"
| "intercalate sep (w # ws) = w @ sep @ intercalate sep ws"

definition clean_path :: "string \<Rightarrow> string" where
  "clean_path p =
     (let rooted = has_prefix p ''/'';
          out = intercalate ''/'' (clean_components rooted [] (split_char (CHR ''/'') p))
      in if rooted then ''/'' @ out else if out = [] then ''.'' else out)"

definition path_join :: "string list \<Rightarrow> string" where
  "path_join ps =
     (let qs = filter (\<lambda>p. p \<noteq> []) ps in if qs = [] then [] else clean_path (intercalate ''/'' qs))"

definition plain_component :: "string \<Rightarrow> bool" where
  "plain_component c \<longleftrightarrow> c \<noteq> [] \<and> c \<noteq> ''.'' \<and> c \<noteq> ''..'' \<and> CHR ''/'' \<notin> set c"

lemma clean_components_plain:
  "list_all plain_component ds \<Longrightarrow> clean_components b acc (cs @ ds) = clean_components b acc cs @ ds"
proof (induction b acc cs rule: clean_components.induct)
  case (1 rooted acc)
  then show ?case
    by (induction ds arbitrary: acc) (auto simp: plain_component_def)
next
  case (2 rooted acc c cs)
  then show ?case
    by (auto split: list.splits)
qed

lemma split_char_intercalate:
  "list_all (\<lambda>d. CHR ''/'' \<notin> set d) ds \<Longrightarrow> ds \<noteq> [] \<Longrightarrow>
   split_char (CHR ''/'') (p @ ''/'' @ intercalate ''/'' ds) = split_char (CHR ''/'') p @ ds"
proof (induction p)
  case Nil
  then show ?case
    by (induction "''/'' :: string" ds rule: intercalate.induct) (auto simp: split_char_none split_char_append)
next
  case (Cons x p)
  then show ?case
    by (auto split: list.splits)
qed

lemma split_char_no_sep: "d \<in> set (split_char c s) \<Longrightarrow> c \<notin> set d"
  by (induction s arbitrary: d) (auto split: if_splits list.splits)

lemma clean_components_subset:
  "set (clean_components b acc cs) \<subseteq> set acc \<union> set cs \<union> {''..''}"
  by (induction b acc cs rule: clean_components.induct) (auto split: list.splits if_splits)

lemma intercalate_inject:
  assumes "list_all (\<lambda>d. CHR ''/'' \<notin> set d) ds" "list_all (\<lambda>d. CHR ''/'' \<notin> set d) es"
    and "ds \<noteq> []" "es \<noteq> []" and "intercalate ''/'' ds = intercalate ''/'' es"
  shows "ds = es"
proof -
  show ?thesis
    using split_char_intercalate [OF assms(1,3), of "[]"] split_char_intercalate [OF assms(2,4), of "[]"]
      assms(5) by simp
qed

text \<open>
  The path of plain components under a directory: the cleaned components of the directory,
  then the components unchanged.
\<close>

definition dir_components :: "string \<Rightarrow> string list" where
  "dir_components p = clean_components (has_prefix p ''/'') [] (split_char (CHR ''/'') p)"

lemma plain_no_slash: "list_all plain_component ds \<Longrightarrow> list_all (\<lambda>d. CHR ''/'' \<notin> set d) ds"
  by (simp add: list_all_iff plain_component_def)

lemma dir_components_no_slash: "list_all (\<lambda>d. CHR ''/'' \<notin> set d) (dir_components p)"
proof -
  have "CHR ''/'' \<notin> set d" if "d \<in> set (dir_components p)" for d
    using that clean_components_subset [of "has_prefix p ''/''" "[]" "split_char (CHR ''/'') p"]
      split_char_no_sep [of d "CHR ''/''" p]
    unfolding dir_components_def by auto
  then show ?thesis by (simp add: list_all_iff)
qed

lemma intercalate_plain_nonempty:
  "list_all plain_component ds \<Longrightarrow> ds \<noteq> [] \<Longrightarrow>
   intercalate ''/'' ds \<noteq> [] \<and> \<not> has_prefix (intercalate ''/'' ds) ''/''"
  by (cases "(''/'' :: string, ds)" rule: intercalate.cases)
    (auto simp: has_prefix_def plain_component_def take_Cons' neq_Nil_conv split: if_splits)

lemma path_join_dir:
  assumes "list_all plain_component ds" and "ds \<noteq> []"
  shows "path_join (p # ds) =
    (if has_prefix p ''/'' then ''/'' else []) @ intercalate ''/'' (dir_components p @ ds)"
proof -
  have ne: "filter (\<lambda>d. d \<noteq> []) ds = ds"
    using assms(1) by (intro filter_True) (auto simp: list_all_iff plain_component_def)
  note plain = intercalate_plain_nonempty [OF assms]
  have out: "intercalate ''/'' (cs @ ds) \<noteq> []" for cs
  proof (cases cs)
    case Nil
    with plain show ?thesis by simp
  next
    case (Cons a as)
    with assms(2) show ?thesis by (cases "as @ ds") auto
  qed
  show ?thesis
  proof (cases "p = []")
    case True
    have "split_char (CHR ''/'') (intercalate ''/'' ds) = ds"
      using split_char_intercalate [OF plain_no_slash [OF assms(1)] assms(2), of "[]"] by simp
    moreover have "clean_components False [] ds = ds"
      using clean_components_plain [OF assms(1), of False "[]" "[]"] by simp
    ultimately show ?thesis
      using True ne plain assms(2)
      by (simp add: path_join_def clean_path_def dir_components_def Let_def has_prefix_def)
  next
    case False
    then have "has_prefix (p @ ''/'' @ intercalate ''/'' ds) ''/'' = has_prefix p ''/''"
      by (cases p) (simp_all add: has_prefix_def)
    moreover have "intercalate ''/'' (p # ds) = p @ ''/'' @ intercalate ''/'' ds"
      using assms(2) by (cases ds) simp_all
    ultimately show ?thesis
      using False ne out
        split_char_intercalate [OF plain_no_slash [OF assms(1)] assms(2), of p]
        clean_components_plain [OF assms(1)]
      by (simp add: path_join_def clean_path_def dir_components_def Let_def)
  qed
qed

lemma path_join_inject:
  assumes "list_all plain_component ds" "ds \<noteq> []" "list_all plain_component es" "es \<noteq> []"
    and "path_join (p # ds) = path_join (p # es)"
  shows "ds = es"
proof -
  from assms(5) have "intercalate ''/'' (dir_components p @ ds) = intercalate ''/'' (dir_components p @ es)"
    by (simp add: path_join_dir [OF assms(1,2)] path_join_dir [OF assms(3,4)])
  then have "dir_components p @ ds = dir_components p @ es"
    using assms dir_components_no_slash [of p] plain_no_slash
    by (intro intercalate_inject) auto
  then show ?thesis by simp
qed

end
