(* ===== verification/Go_Mime.thy ===== *)
theory Go_Mime
  imports Go_Text
begin

text \<open>
  \<^verbatim>\<open>mime.ParseMediaType\<close> of the Go standard library, as far as its callers look at it: the media type, or
  an error. Parameter values only matter when a name is repeated.
\<close>

definition is_tspecial :: "char \<Rightarrow> bool" where
  "is_tspecial c \<longleftrightarrow> c \<in> set ''()<>@,;:/[]?='' \<or> c = CHR 0x5C \<or> c = CHR 0x22"

definition is_token_char :: "char \<Rightarrow> bool" where
  "is_token_char c \<longleftrightarrow> 32 < (of_char c :: nat) \<and> (of_char c :: nat) < 127 \<and> \<not> is_tspecial c"

definition consume_token :: "string \<Rightarrow> string \<times> string" where
  "consume_token s = (takeWhile is_token_char s, dropWhile is_token_char s)"

definition trim_left_space :: "string \<Rightarrow> string" where
  "trim_left_space s = concat (map snd (dropWhile (\<lambda>(r, _). is_space r) (utf8_segments s)))"

text \<open>The scan of a quoted string after its opening quote; \<open>None\<close> when it is malformed.\<close>

fun consume_quoted :: "string \<Rightarrow> string \<Rightarrow> (string \<times> string) option" where
  "consume_quoted acc [] = None"
| "consume_quoted acc (c # s) =
     (if c = CHR 0x22 then Some (rev acc, s)
      else if c = CHR 0x5C \<and> s \<noteq> [] \<and> is_tspecial (hd s) then
        (case s of [] \<Rightarrow> None | d # s' \<Rightarrow> consume_quoted (d # acc) s')
      else if c = CHR 0x0D \<or> c = CHR 0x0A then None
      else consume_quoted (c # acc) s)"

definition consume_value :: "string \<Rightarrow> string \<times> string" where
  "consume_value v = (case v of
     [] \<Rightarrow> ([], [])
   | c # s \<Rightarrow> if c \<noteq> CHR 0x22 then consume_token v
              else (case consume_quoted [] s of None \<Rightarrow> ([], v) | Some (x, rest) \<Rightarrow> (x, rest)))"

text \<open>\<^verbatim>\<open>consumeMediaParam\<close>: name, value and what follows, or \<open>None\<close> (an empty name in Go).\<close>

definition consume_param :: "unicode \<Rightarrow> string \<Rightarrow> (string \<times> string \<times> string) option" where
  "consume_param u v =
     (case trim_left_space v of
        [] \<Rightarrow> None
      | c # r1 \<Rightarrow>
          if c \<noteq> CHR '';'' then None else
          let (param, r2) = consume_token (trim_left_space r1) in
          if param = [] then None else
          case trim_left_space r2 of
            [] \<Rightarrow> None
          | d # r3 \<Rightarrow>
              if d \<noteq> CHR ''='' then None else
              let r4 = trim_left_space r3; (value, r5) = consume_value r4 in
              if value = [] \<and> r5 = r4 then None else Some (to_lower u param, value, r5))"

text \<open>
  The parameter loop: \<open>False\<close> is a parse error or a name repeated with another value. The seen
  parameters are kept in a map; a name with a star is a continuation and lives in a map of its own,
  which the key already tells apart.
\<close>

lemma length_trim_left: "length (trim_left_space s) \<le> length s"
proof -
  obtain xs where "utf8_segments s = xs @ dropWhile (\<lambda>(r, _). is_space r) (utf8_segments s)"
    by (metis takeWhile_dropWhile_id)
  then have "concat (map snd (utf8_segments s)) = concat (map snd xs) @ trim_left_space s"
    unfolding trim_left_space_def by (metis concat_append map_append)
  then show ?thesis
    by (metis concat_utf8_segments length_append le_add2)
qed

lemma length_consume_token: "length (snd (consume_token s)) \<le> length s"
  by (simp add: consume_token_def length_dropWhile_le)

lemma length_consume_quoted: "consume_quoted acc s = Some (x, r) \<Longrightarrow> length r < length s"
  by (induction acc s rule: consume_quoted.induct) (fastforce split: if_splits list.splits)+

lemma length_consume_value: "length (snd (consume_value v)) \<le> length v"
  using length_consume_quoted [of "[]" "tl v"] length_consume_token [of v]
  by (fastforce simp: consume_value_def split: list.splits option.splits)

lemma consume_param_shorter:
  assumes "consume_param u v = Some (k, x, rest)"
  shows "length rest < length v"
proof -
  from assms obtain c r1 param r2 d r3 where
      "trim_left_space v = c # r1" "consume_token (trim_left_space r1) = (param, r2)"
      "trim_left_space r2 = d # r3" "rest = snd (consume_value (trim_left_space r3))"
    by (auto simp: consume_param_def Let_def split: list.splits if_splits prod.splits)
  then show ?thesis
    using length_trim_left [of v] length_trim_left [of r1] length_consume_token [of "trim_left_space r1"]
      length_trim_left [of r2] length_trim_left [of r3] length_consume_value [of "trim_left_space r3"]
    by simp
qed

function params_ok :: "unicode \<Rightarrow> (string \<rightharpoonup> string) \<Rightarrow> string \<Rightarrow> bool" where
  "params_ok u seen v =
     (let v' = trim_left_space v in
      if v' = [] then True
      else case consume_param u v' of
        None \<Rightarrow> trim_space v' = '';''
      | Some (k, x, rest) \<Rightarrow>
          (case seen k of
             Some y \<Rightarrow> y = x \<and> params_ok u seen rest
           | None \<Rightarrow> params_ok u (seen(k \<mapsto> x)) rest))"
  by pat_completeness auto
termination
proof (relation "measure (\<lambda>(u, seen, v). length v)")
  show "wf (measure (\<lambda>(u :: unicode, seen :: string \<rightharpoonup> string, v :: string). length v))" by simp
next
  have shorter: "length rest < length v"
    if "consume_param u (trim_left_space v) = Some (k, x, rest)" for u v k x rest
    using consume_param_shorter [OF that] length_trim_left [of v] by simp
  show "((u, seen, rest), u, seen, v) \<in> measure (\<lambda>(u, seen, v). length v)"
    if "v' = trim_left_space v" "consume_param u v' = Some a" "(k, b) = a" "(x, rest) = b"
    for u seen v v' a k b x rest
    using that shorter by auto
  show "((u, seen(k \<mapsto> x), rest), u, seen, v) \<in> measure (\<lambda>(u, seen, v). length v)"
    if "v' = trim_left_space v" "consume_param u v' = Some a" "(k, b) = a" "(x, rest) = b"
    for u seen v v' a k b x rest
    using that shorter by auto
qed

declare params_ok.simps [simp del]

text \<open>\<^verbatim>\<open>checkMediaTypeDisposition\<close>: a token, or two tokens with a slash between them.\<close>

definition media_type_ok :: "string \<Rightarrow> bool" where
  "media_type_ok s =
     (let (typ, rest) = consume_token s in
      if typ = [] then False
      else case rest of
        [] \<Rightarrow> True
      | c # r \<Rightarrow> c = CHR ''/'' \<and> fst (consume_token r) \<noteq> [] \<and> snd (consume_token r) = [])"

definition ParseMediaType :: "unicode \<Rightarrow> string \<Rightarrow> string option" where
  "ParseMediaType u v =
     (let base = takeWhile (\<lambda>c. c \<noteq> CHR '';'') v; m = trim_space (to_lower u base) in
      if media_type_ok m \<and> params_ok u Map.empty (drop (length base) v) then Some m else None)"

section \<open>The accepted media types are header-safe\<close>

lemma media_type_ok_chars:
  assumes "media_type_ok s"
  shows "s \<noteq> []" "\<forall>c\<in>set s. is_token_char c \<or> c = CHR ''/''"
proof -
  have s: "s = takeWhile is_token_char s @ dropWhile is_token_char s" by simp
  show "s \<noteq> []"
    using assms by (auto simp: media_type_ok_def consume_token_def)
  have "\<forall>c\<in>set (dropWhile is_token_char s). is_token_char c \<or> c = CHR ''/''"
    using assms by (auto simp: media_type_ok_def consume_token_def dropWhile_eq_Nil_conv
        dest: set_dropWhileD split: list.splits if_splits)
  moreover have "set s = set (takeWhile is_token_char s) \<union> set (dropWhile is_token_char s)"
    by (metis s set_append)
  ultimately show "\<forall>c\<in>set s. is_token_char c \<or> c = CHR ''/''"
    by (auto dest: set_takeWhileD)
qed

lemma ParseMediaType_chars:
  "ParseMediaType u v = Some m \<Longrightarrow> m \<noteq> [] \<and> (\<forall>c\<in>set m. is_token_char c \<or> c = CHR ''/'')"
  using media_type_ok_chars by (auto simp: ParseMediaType_def Let_def split: if_splits)

lemma token_char_range: "is_token_char c \<or> c = CHR ''/'' \<Longrightarrow> 32 < (of_char c :: nat) \<and> (of_char c :: nat) < 127"
  by (auto simp: is_token_char_def)

lemma ParseMediaType_ascii: "ParseMediaType u v = Some m \<Longrightarrow> ascii m"
  using ParseMediaType_chars [of u v m] token_char_range unfolding ascii_def by fastforce

text \<open>A plain lower-case media type is its own parse.\<close>

lemma ParseMediaType_plain:
  assumes "media_type_ok m" and "to_lower u m = m"
  shows "ParseMediaType u m = Some m"
proof -
  note chars = media_type_ok_chars(2) [OF assms(1)]
  have range: "32 < (of_char c :: nat) \<and> (of_char c :: nat) < 127" if "c \<in> set m" for c
    using chars that token_char_range by blast
  have "ascii m" using range by (fastforce simp: ascii_def)
  moreover have "\<not> is_space (of_char c)" if "c \<in> set m" for c
    using range [OF that] by (auto simp: is_space_def)
  ultimately have trim: "trim_space m = m"
    by (simp add: trim_space_ascii trim_list_none)
  have "c \<noteq> CHR '';''" if "c \<in> set m" for c
    using chars that by (auto simp: is_token_char_def is_tspecial_def)
  then have base: "takeWhile (\<lambda>c. c \<noteq> CHR '';'') m = m"
    by (simp add: takeWhile_eq_all_conv)
  have "params_ok u Map.empty []"
    by (subst params_ok.simps) (simp add: trim_left_space_def)
  with assms trim show ?thesis
    unfolding ParseMediaType_def base Let_def by simp
qed

end
