(* ===== verification/Go_Encoding.thy ===== *)
theory Go_Encoding
  imports Go_Text
begin

text \<open>
  The text encodings of Go's standard library that the program uses: lower-case hex
  (\<^verbatim>\<open>encoding/hex\<close>), unpadded base64 in its two alphabets (\<^verbatim>\<open>base64.RawStdEncoding\<close>,
  \<^verbatim>\<open>base64.RawURLEncoding\<close>) and unpadded base32. All are one radix encoding: the bits of
  the bytes, most significant first, cut into groups of \<open>k\<close>, the last one filled with
  zeros, and each group written as a character of an alphabet of \<open>2 ^ k\<close> letters. The
  round trip is proved once, for every group size up to 8. Decimal numbers close the theory.
\<close>

section \<open>Bits\<close>

fun bits_value :: "bool list \<Rightarrow> nat" where
  "bits_value [] = 0"
| "bits_value (b # bs) = of_bool b * 2 ^ length bs + bits_value bs"

fun value_bits :: "nat \<Rightarrow> nat \<Rightarrow> bool list" where
  "value_bits 0 n = []"
| "value_bits (Suc k) n = odd (n div 2 ^ k) # value_bits k n"

lemma length_value_bits [simp]: "length (value_bits k n) = k"
  by (induction k) auto

lemma bits_value_less: "bits_value bs < 2 ^ length bs"
  by (induction bs) auto

lemma value_bits_high: "value_bits k (m * 2 ^ k + n) = value_bits k n"
proof (induction k arbitrary: m)
  case 0
  then show ?case by simp
next
  case (Suc k)
  have "(m * 2 ^ Suc k + n) div 2 ^ k = 2 * m + n div 2 ^ k"
    by (simp add: div_add1_eq mult.assoc [symmetric] mult.commute)
  moreover have "value_bits k (m * 2 ^ Suc k + n) = value_bits k n"
    using Suc [of "m * 2"] by (simp add: mult.assoc)
  ultimately show ?case by simp
qed

lemma value_bits_bits_value: "value_bits (length bs) (bits_value bs) = bs"
proof (induction bs)
  case Nil
  then show ?case by simp
next
  case (Cons b bs)
  have "(of_bool b * 2 ^ length bs + bits_value bs) div 2 ^ length bs = of_bool b"
    using bits_value_less [of bs] by simp
  with Cons value_bits_high [of "length bs" "of_bool b" "bits_value bs"] show ?case
    by simp
qed

definition byte_bits :: "byte \<Rightarrow> bool list" where
  "byte_bits b = value_bits 8 (unat b)"

definition bits_byte :: "bool list \<Rightarrow> byte" where
  "bits_byte bs = of_nat (bits_value bs)"

lemma length_byte_bits [simp]: "length (byte_bits b) = 8"
  by (simp add: byte_bits_def)

lemma bits_value_value_bits: "n < 2 ^ k \<Longrightarrow> bits_value (value_bits k n) = n"
proof (induction k arbitrary: n)
  case 0
  then show ?case by simp
next
  case (Suc k)
  define q r where qr: "q = n div 2 ^ k" "r = n mod 2 ^ k"
  have n: "n = q * 2 ^ k + r" "r < 2 ^ k"
    unfolding qr by (simp_all only: div_mult_mod_eq mod_less_divisor) simp
  have "q < 2"
    using Suc.prems unfolding qr by (simp add: less_mult_imp_div_less)
  then have "of_bool (odd q) = q" by (cases q) auto
  moreover have "bits_value (value_bits k n) = r"
    unfolding n(1) value_bits_high using Suc.IH [OF n(2)] .
  moreover have "bits_value (value_bits (Suc k) n) =
      of_bool (odd q) * 2 ^ k + bits_value (value_bits k n)"
    by (simp add: qr(1))
  ultimately show ?case
    using n(1) by metis
qed

lemma bits_byte_byte_bits: "bits_byte (byte_bits b) = b"
proof -
  have "unat b < 2 ^ 8" using unsigned_less [of b] by simp
  then show ?thesis
    by (simp only: bits_byte_def byte_bits_def bits_value_value_bits) simp
qed

section \<open>Groups\<close>

function chunk :: "nat \<Rightarrow> 'a list \<Rightarrow> 'a list list" where
  "chunk k xs = (if k = 0 \<or> xs = [] then [] else take k xs # chunk k (drop k xs))"
  by pat_completeness auto
termination
  by (relation "measure (\<lambda>(k, xs). length xs)") (auto simp: neq_Nil_conv)

declare chunk.simps [simp del]

lemma chunk_Nil [simp]: "chunk k [] = []"
  by (simp add: chunk.simps)

lemma chunk_step: "0 < k \<Longrightarrow> xs \<noteq> [] \<Longrightarrow> chunk k xs = take k xs # chunk k (drop k xs)"
  by (subst chunk.simps) simp

lemma chunk_append: "0 < k \<Longrightarrow> length xs = k \<Longrightarrow> chunk k (xs @ ys) = xs # chunk k ys"
  by (subst chunk_step) auto

lemma chunk_concat: "0 < k \<Longrightarrow> \<forall>x\<in>set xss. length x = k \<Longrightarrow> chunk k (concat xss) = xss"
  by (induction xss) (auto simp: chunk_append)

definition fill :: "nat \<Rightarrow> bool list \<Rightarrow> bool list" where
  "fill k bs = bs @ replicate (k - length bs) False"

lemma chunk_fill:
  assumes "0 < k"
  obtains p where "p < k" "concat (map (fill k) (chunk k xs)) = xs @ replicate p False"
    "\<forall>g\<in>set (chunk k xs). length (fill k g) = k" "k dvd length xs + p"
proof -
  have "\<exists>p<k. concat (map (fill k) (chunk k xs)) = xs @ replicate p False \<and>
      (\<forall>g\<in>set (chunk k xs). length (fill k g) = k) \<and> k dvd length xs + p"
    using assms
  proof (induction k xs rule: chunk.induct)
    case (1 k xs)
    consider "xs = []" | "xs \<noteq> []" "length xs \<le> k" | "k < length xs" by linarith
    then show ?case
    proof cases
      case 1
      with \<open>0 < k\<close> show ?thesis by (intro exI [of _ 0]) simp
    next
      case 2
      then show ?thesis
        using \<open>0 < k\<close> by (intro exI [of _ "k - length xs"]) (auto simp: chunk_step fill_def)
    next
      case 3
      with "1.prems" have ne: "xs \<noteq> []" "\<not> (k = 0 \<or> xs = [])" by auto
      from "1.IH" [OF ne(2)] "1.prems" obtain p where p: "p < k"
          "concat (map (fill k) (chunk k (drop k xs))) = drop k xs @ replicate p False"
          "\<forall>g\<in>set (chunk k (drop k xs)). length (fill k g) = k" "k dvd length (drop k xs) + p"
        by blast
      from p(4) 3 have "k dvd length xs + p"
        using dvd_add_triv_left_iff [of k "length xs - k + p"] by (simp add: algebra_simps)
      moreover have "fill k (take k xs) = take k xs"
        using 3 by (simp add: fill_def)
      ultimately show ?thesis
        using p 3 ne \<open>0 < k\<close> by (intro exI [of _ p]) (simp add: chunk_step append.assoc [symmetric])
    qed
  qed
  with that show thesis by blast
qed

section \<open>Radix encodings\<close>

definition radix_encode :: "nat \<Rightarrow> string \<Rightarrow> bytes \<Rightarrow> string" where
  "radix_encode k alphabet bs =
     map (\<lambda>g. alphabet ! bits_value (fill k g)) (chunk k (concat (map byte_bits bs)))"

fun index_of :: "'a \<Rightarrow> 'a list \<Rightarrow> nat option" where
  "index_of x [] = None"
| "index_of x (y # ys) = (if x = y then Some 0 else map_option Suc (index_of x ys))"

fun digit_values :: "string \<Rightarrow> string \<Rightarrow> nat list option" where
  "digit_values alphabet [] = Some []"
| "digit_values alphabet (c # s) =
     (case index_of c alphabet of
        None \<Rightarrow> None
      | Some d \<Rightarrow> map_option (\<lambda>ds. d # ds) (digit_values alphabet s))"

text \<open>
  Decoding fails on a character outside the alphabet and when the last character adds no
  byte; left-over bits are not inspected (the encodings are not in Go's strict mode).
\<close>

definition radix_decode :: "nat \<Rightarrow> string \<Rightarrow> string \<Rightarrow> bytes option" where
  "radix_decode k alphabet s =
     (case digit_values alphabet s of
        None \<Rightarrow> None
      | Some ds \<Rightarrow>
          let bits = concat (map (value_bits k) ds); left = length bits mod 8
          in if k \<le> left then None
             else Some (map bits_byte (chunk 8 (take (length bits - left) bits))))"

lemma index_of_nth: "distinct xs \<Longrightarrow> i < length xs \<Longrightarrow> index_of (xs ! i) xs = Some i"
proof (induction xs arbitrary: i)
  case Nil
  then show ?case by simp
next
  case (Cons a xs)
  then show ?case by (cases i) (auto simp: nth_mem)
qed

lemma digit_values_map_nth:
  "distinct alphabet \<Longrightarrow> \<forall>d\<in>set ds. d < length alphabet \<Longrightarrow>
   digit_values alphabet (map (\<lambda>d. alphabet ! d) ds) = Some ds"
  by (induction ds) (auto simp: index_of_nth)

lemma length_concat_byte_bits: "length (concat (map byte_bits bs)) = 8 * length bs"
  by (induction bs) simp_all

theorem radix_roundtrip:
  assumes "distinct alphabet" and "length alphabet = 2 ^ k" and "0 < k" and "k \<le> 8"
  shows "radix_decode k alphabet (radix_encode k alphabet bs) = Some bs"
proof -
  let ?B = "concat (map byte_bits bs)"
  obtain p where p: "p < k" "concat (map (fill k) (chunk k ?B)) = ?B @ replicate p False"
      and len: "\<forall>g\<in>set (chunk k ?B). length (fill k g) = k"
    using chunk_fill [OF assms(3), of ?B] by blast
  let ?ds = "map (\<lambda>g. bits_value (fill k g)) (chunk k ?B)"
  have ds: "\<forall>d\<in>set ?ds. d < length alphabet"
    using len bits_value_less by (auto simp: assms(2)) metis
  have "radix_encode k alphabet bs = map (\<lambda>d. alphabet ! d) ?ds"
    by (simp add: radix_encode_def)
  with ds have dv: "digit_values alphabet (radix_encode k alphabet bs) = Some ?ds"
    using digit_values_map_nth [OF assms(1)] by metis
  have "map (value_bits k) ?ds = map (fill k) (chunk k ?B)"
    using len value_bits_bits_value by (auto simp: o_def) metis
  then have bits: "concat (map (value_bits k) ?ds) = ?B @ replicate p False"
    using p(2) by metis
  have left: "length (?B @ replicate p False) mod 8 = p"
    using p(1) assms(4) by (simp add: length_concat_byte_bits)
  have "chunk 8 ?B = map byte_bits bs"
    by (rule chunk_concat) auto
  then have "map bits_byte (chunk 8 ?B) = bs"
    by (simp add: o_def bits_byte_byte_bits)
  then show ?thesis
    unfolding radix_decode_def dv option.case bits Let_def left
    using p(1) by (simp add: length_concat_byte_bits)
qed

lemma radix_encode_inject:
  assumes "distinct alphabet" and "length alphabet = 2 ^ k" and "0 < k" and "k \<le> 8"
    and "radix_encode k alphabet bs = radix_encode k alphabet bs'"
  shows "bs = bs'"
  using radix_roundtrip [OF assms(1-4), of bs] radix_roundtrip [OF assms(1-4), of bs'] assms(5)
  by (metis option.inject)

lemma set_radix_encode:
  assumes "length alphabet = 2 ^ k" and "0 < k"
  shows "set (radix_encode k alphabet bs) \<subseteq> set alphabet"
proof -
  let ?B = "concat (map byte_bits bs)"
  have len: "\<forall>g\<in>set (chunk k ?B). length (fill k g) = k"
    using chunk_fill [OF assms(2), of ?B] by blast
  show ?thesis
  proof
    fix c
    assume "c \<in> set (radix_encode k alphabet bs)"
    then obtain g where g: "g \<in> set (chunk k ?B)" "c = alphabet ! bits_value (fill k g)"
      unfolding radix_encode_def by auto
    with len have "bits_value (fill k g) < 2 ^ k"
      using bits_value_less [of "fill k g"] by simp
    with g(2) assms(1) show "c \<in> set alphabet" by simp
  qed
qed

lemma length_chunk: "0 < k \<Longrightarrow> length (chunk k xs) = (length xs + k - 1) div k"
proof (induction k xs rule: chunk.induct)
  case (1 k xs)
  show ?case
  proof (cases "xs = []")
    case True
    with "1.prems" show ?thesis by simp
  next
    case False
    with "1.prems" have "\<not> (k = 0 \<or> xs = [])" by simp
    from "1.IH" [OF this "1.prems"] have "length (chunk k xs) = Suc ((length xs - k + k - 1) div k)"
      by (simp add: chunk_step [OF "1.prems" False])
    also have "\<dots> = (length xs + k - 1) div k"
    proof (cases "length xs \<le> k")
      case True
      have "Suc ((k - 1) div k) = 1" using "1.prems" by simp
      moreover have "(length xs + k - 1) div k = 1"
        using True False "1.prems" by (intro div_nat_eqI) (auto simp: neq_Nil_conv)
      ultimately show ?thesis using True by simp
    next
      case False
      then have "length xs - k + k - 1 = length xs - 1" "length xs + k - 1 = (length xs - 1) + k"
        by simp_all
      moreover have "(length xs - 1 + k) div k = Suc ((length xs - 1) div k)"
        using "1.prems" by (simp add: div_add_self2)
      ultimately show ?thesis by metis
    qed
    finally show ?thesis .
  qed
qed

lemma length_radix_encode:
  "0 < k \<Longrightarrow> length (radix_encode k alphabet bs) = (8 * length bs + k - 1) div k"
  by (simp add: radix_encode_def length_chunk length_concat_byte_bits)

subsection \<open>The alphabets\<close>

definition hex_alphabet :: string where
  "hex_alphabet = ''0123456789abcdef''"

definition base64_std_alphabet :: string where
  "base64_std_alphabet = ''ABCDEFGHIJKLMNOPQRSTUVWXYZabcdefghijklmnopqrstuvwxyz0123456789+/''"

definition base64_url_alphabet :: string where
  "base64_url_alphabet = ''ABCDEFGHIJKLMNOPQRSTUVWXYZabcdefghijklmnopqrstuvwxyz0123456789-_''"

definition base32_alphabet :: string where
  "base32_alphabet = ''ABCDEFGHIJKLMNOPQRSTUVWXYZ234567''"

lemma alphabets_distinct:
  "distinct hex_alphabet" "distinct base64_std_alphabet" "distinct base64_url_alphabet"
  "distinct base32_alphabet"
  by (simp_all add: hex_alphabet_def base64_std_alphabet_def base64_url_alphabet_def
      base32_alphabet_def)

lemma alphabets_length:
  "length hex_alphabet = 2 ^ 4" "length base64_std_alphabet = 2 ^ 6"
  "length base64_url_alphabet = 2 ^ 6" "length base32_alphabet = 2 ^ 5"
  by (simp_all add: hex_alphabet_def base64_std_alphabet_def base64_url_alphabet_def
      base32_alphabet_def)

definition hex_encode :: "bytes \<Rightarrow> string" where
  "hex_encode = radix_encode 4 hex_alphabet"

text \<open>\<^verbatim>\<open>hex.DecodeString\<close> takes both cases and refuses an odd number of digits.\<close>

definition hex_lower :: "char \<Rightarrow> char" where
  "hex_lower c = (if c \<in> set ''ABCDEF'' then char_of (of_char c + 32 :: nat) else c)"

definition hex_decode :: "string \<Rightarrow> bytes option" where
  "hex_decode s = (if odd (length s) then None else radix_decode 4 hex_alphabet (map hex_lower s))"

definition base64_raw_encode :: "bytes \<Rightarrow> string" where
  "base64_raw_encode = radix_encode 6 base64_std_alphabet"

text \<open>The base64 decoder skips line breaks.\<close>

definition base64_raw_decode :: "string \<Rightarrow> bytes option" where
  "base64_raw_decode s =
     radix_decode 6 base64_std_alphabet
       (filter (\<lambda>c. c \<noteq> CHR 0x0A \<and> c \<noteq> CHR 0x0D) s)"

definition base64_url_encode :: "bytes \<Rightarrow> string" where
  "base64_url_encode = radix_encode 6 base64_url_alphabet"

definition base32_encode :: "bytes \<Rightarrow> string" where
  "base32_encode = radix_encode 5 base32_alphabet"

lemma hex_encode_inject: "hex_encode bs = hex_encode bs' \<Longrightarrow> bs = bs'"
  unfolding hex_encode_def
  by (rule radix_encode_inject [OF alphabets_distinct(1) alphabets_length(1)]) simp_all

lemma set_hex_encode: "set (hex_encode bs) \<subseteq> set hex_alphabet"
  unfolding hex_encode_def by (rule set_radix_encode [OF alphabets_length(1)]) simp

lemma length_hex_encode: "length (hex_encode bs) = 2 * length bs"
  unfolding hex_encode_def by (simp add: length_radix_encode)

lemma base64_url_encode_inject: "base64_url_encode bs = base64_url_encode bs' \<Longrightarrow> bs = bs'"
  unfolding base64_url_encode_def
  by (rule radix_encode_inject [OF alphabets_distinct(3) alphabets_length(3)]) simp_all

lemma set_base64_raw_encode: "set (base64_raw_encode bs) \<subseteq> set base64_std_alphabet"
  unfolding base64_raw_encode_def by (rule set_radix_encode [OF alphabets_length(2)]) simp

lemma base64_raw_roundtrip: "base64_raw_decode (base64_raw_encode bs) = Some bs"
proof -
  have "\<forall>c\<in>set base64_std_alphabet. c \<noteq> CHR 0x0A \<and> c \<noteq> CHR 0x0D"
    by (simp add: base64_std_alphabet_def)
  with set_base64_raw_encode [of bs]
  have "filter (\<lambda>c. c \<noteq> CHR 0x0A \<and> c \<noteq> CHR 0x0D) (base64_raw_encode bs) = base64_raw_encode bs"
    by (intro filter_True) blast
  then show ?thesis
    unfolding base64_raw_decode_def by (simp only:)
      (simp add: base64_raw_encode_def radix_roundtrip alphabets_distinct alphabets_length)
qed

lemma set_base32_encode: "set (base32_encode bs) \<subseteq> set base32_alphabet"
  unfolding base32_encode_def by (rule set_radix_encode [OF alphabets_length(4)]) simp

lemma length_base32_encode: "length (base32_encode bs) = (8 * length bs + 4) div 5"
  unfolding base32_encode_def by (simp add: length_radix_encode)

lemma base32_encode_inject: "base32_encode bs = base32_encode bs' \<Longrightarrow> bs = bs'"
  unfolding base32_encode_def
  by (rule radix_encode_inject [OF alphabets_distinct(4) alphabets_length(4)]) simp_all

section \<open>Decimal numbers\<close>

definition is_digit :: "char \<Rightarrow> bool" where
  "is_digit c \<longleftrightarrow> 48 \<le> (of_char c :: nat) \<and> (of_char c :: nat) \<le> 57"

text \<open>\<^verbatim>\<open>%d\<close> of a number that is not negative.\<close>

fun decimal :: "nat \<Rightarrow> string" where
  "decimal n = (if n < 10 then [char_of (48 + n)] else decimal (n div 10) @ [char_of (48 + n mod 10)])"

declare decimal.simps [simp del]

lemma decimal_digits: "list_all is_digit (decimal n)"
proof (induction n rule: decimal.induct)
  case (1 n)
  show ?case
  proof (cases "n < 10")
    case True
    then show ?thesis by (simp add: decimal.simps [of n] is_digit_def)
  next
    case False
    have "n mod 10 < 10" by simp
    with 1 False show ?thesis by (simp add: decimal.simps [of n] is_digit_def)
  qed
qed

lemma decimal_nonempty [simp]: "decimal n \<noteq> []"
  by (simp add: decimal.simps [of n])

definition digits_value :: "string \<Rightarrow> nat" where
  "digits_value = foldl (\<lambda>n c. 10 * n + (of_char c - 48)) 0"

text \<open>
  \<^verbatim>\<open>strconv.ParseInt(s, 10, 64)\<close> (and \<^verbatim>\<open>strconv.Atoi\<close> on a 64-bit platform): an optional
  sign, then digits only, within the range of \<^verbatim>\<open>int64\<close>.
\<close>

definition parse_int64 :: "string \<Rightarrow> int option" where
  "parse_int64 s =
     (let (neg, ds) = (case s of
            c # r \<Rightarrow> if c = CHR ''-'' then (True, r) else if c = CHR ''+'' then (False, r) else (False, s)
          | [] \<Rightarrow> (False, s));
          n = (if neg then - int (digits_value ds) else int (digits_value ds))
      in if ds = [] \<or> \<not> list_all is_digit ds \<or> n < - (2 ^ 63) \<or> 2 ^ 63 \<le> n then None else Some n)"

lemma parse_int64_range: "parse_int64 s = Some n \<Longrightarrow> - (2 ^ 63) \<le> n \<and> n < 2 ^ 63"
  by (auto simp: parse_int64_def Let_def split: if_splits list.splits)

end
