(* ===== verification/Go_Http.thy ===== *)
theory Go_Http
  imports Go_Mime Go_Encoding
begin

text \<open>
  What the HTTP layer uses of the standard library: \<^verbatim>\<open>encoding/json\<close> on the level of JSON values,
  \<^verbatim>\<open>net.SplitHostPort\<close>, \<^verbatim>\<open>mime.FormatMediaType\<close>, \<^verbatim>\<open>strconv.Quote\<close>, cookies and responses.
\<close>

section \<open>JSON values and strict decoding\<close>

text \<open>
  A number is its literal; \<open>JTime\<close> stands for the RFC 3339 text of an instant. In a request the
  strings are those the decoder produces.
\<close>

datatype json =
    JNull
  | JBool bool
  | JNumber string
  | JTime int
  | JString string
  | JArray "json list"
  | JObject "(string \<times> json) list"

text \<open>
  A request body as the decoder sees it: the first value, or \<open>None\<close> when there is none that is
  complete and well-formed within the size cap, and the next byte after it that is not white space.
\<close>

record json_body =
  jb_first :: "json option"
  jb_next :: "char option"

datatype field_kind = StringField | IntField

type_synonym fields = "(string \<times> field_kind) list"

text \<open>
  Keys are matched exactly, else up to case; besides the letters themselves, the long s and the
  Kelvin sign fold to ASCII letters.
\<close>

definition fold_rune :: "rune \<Rightarrow> rune" where
  "fold_rune r = (if 97 \<le> r \<and> r \<le> 122 then r - 32 else if r = 383 then 83 else if r = 8490 then 75 else r)"

definition fold_name :: "string \<Rightarrow> rune list" where
  "fold_name s = map fold_rune (runes s)"

definition find_field :: "fields \<Rightarrow> string \<Rightarrow> (string \<times> field_kind) option" where
  "find_field fs key = (case List.find (\<lambda>f. fst f = key) fs of
     Some f \<Rightarrow> Some f
   | None \<Rightarrow> List.find (\<lambda>f. fold_name (fst f) = fold_name key) fs)"

fun decode_field :: "field_kind \<Rightarrow> json \<Rightarrow> json \<Rightarrow> json option" where
  "decode_field k old JNull = Some old"
| "decode_field k old (JString s) = (if k = StringField then Some (JString s) else None)"
| "decode_field k old (JNumber l) = (if k = IntField \<and> parse_int64 l \<noteq> None then Some (JNumber l) else None)"
| "decode_field k old v = None"

definition zero_fields :: "fields \<Rightarrow> string \<Rightarrow> json" where
  "zero_fields fs nm = (if map_of fs nm = Some IntField then JNumber ''0'' else JString [])"

fun decode_object :: "fields \<Rightarrow> (string \<times> json) list \<Rightarrow> (string \<Rightarrow> json) \<Rightarrow> (string \<Rightarrow> json) option" where
  "decode_object fs [] m = Some m"
| "decode_object fs ((k, v) # kvs) m =
     (case find_field fs k of
        None \<Rightarrow> None
      | Some (nm, kind) \<Rightarrow>
          (case decode_field kind (m nm) v of
             None \<Rightarrow> None
           | Some x \<Rightarrow> decode_object fs kvs (m(nm := x))))"

text \<open>\<^verbatim>\<open>Decoder.Decode\<close> with \<^verbatim>\<open>DisallowUnknownFields\<close>; \<^verbatim>\<open>null\<close> leaves the zero value.\<close>

definition json_decode :: "fields \<Rightarrow> json_body \<Rightarrow> (string \<Rightarrow> json) option" where
  "json_decode fs jb = (case jb_first jb of
     Some JNull \<Rightarrow> Some (zero_fields fs)
   | Some (JObject kvs) \<Rightarrow> decode_object fs kvs (zero_fields fs)
   | _ \<Rightarrow> None)"

text \<open>\<^verbatim>\<open>Decoder.More\<close> at the top level: a closing bracket or brace counts as the end.\<close>

definition json_more :: "json_body \<Rightarrow> bool" where
  "json_more jb = (case jb_next jb of None \<Rightarrow> False | Some c \<Rightarrow> c \<noteq> CHR '']'' \<and> c \<noteq> CHR ''}'')"

fun json_string :: "json \<Rightarrow> string" where
  "json_string (JString s) = s"
| "json_string v = []"

fun json_int :: "json \<Rightarrow> int" where
  "json_int (JNumber l) = (case parse_int64 l of Some n \<Rightarrow> n | None \<Rightarrow> 0)"
| "json_int v = 0"

definition int_literal :: "int \<Rightarrow> string" where
  "int_literal n = (if n < 0 then CHR ''-'' # decimal (nat (- n)) else decimal (nat n))"

section \<open>net.SplitHostPort\<close>

definition last_index :: "'a \<Rightarrow> 'a list \<Rightarrow> nat option" where
  "last_index c s = map_option (\<lambda>i. length s - 1 - i) (index_of c (rev s))"

text \<open>The host, or \<open>None\<close> for an error.\<close>

definition SplitHostPort :: "string \<Rightarrow> string option" where
  "SplitHostPort s =
     (case last_index (CHR '':'') s of
        None \<Rightarrow> None
      | Some i \<Rightarrow>
          if hd s = CHR ''['' then
            (case index_of (CHR '']'') s of
               None \<Rightarrow> None
             | Some e \<Rightarrow>
                 if e + 1 = i \<and> CHR ''['' \<notin> set (drop 1 s) \<and> CHR '']'' \<notin> set (drop (e + 1) s)
                 then Some (take (e - 1) (drop 1 s)) else None)
          else if CHR '':'' \<in> set (take i s) \<or> CHR ''['' \<in> set s \<or> CHR '']'' \<in> set s then None
          else Some (take i s))"

section \<open>mime.FormatMediaType\<close>

definition is_token :: "string \<Rightarrow> bool" where
  "is_token s \<longleftrightarrow> s \<noteq> [] \<and> list_all is_token_char s"

definition needs_encoding :: "string \<Rightarrow> bool" where
  "needs_encoding s \<longleftrightarrow> list_ex (\<lambda>c. (of_char c < (32::nat) \<or> (126::nat) < of_char c) \<and> of_char c \<noteq> (9::nat)) s"

definition attribute_char :: "char \<Rightarrow> bool" where
  "attribute_char c \<longleftrightarrow> (32::nat) < of_char c \<and> of_char c < (127::nat) \<and> c \<notin> {CHR ''*'', CHR 0x27, CHR ''%''} \<and> \<not> is_tspecial c"

definition upperhex :: string where
  "upperhex = ''0123456789ABCDEF''"

definition percent_byte :: "char \<Rightarrow> string" where
  "percent_byte c = [CHR ''%'', upperhex ! (of_char c div 16), upperhex ! (of_char c mod 16)]"

definition percent_encode :: "string \<Rightarrow> string" where
  "percent_encode s = concat (map (\<lambda>c. if attribute_char c then [c] else percent_byte c) s)"

definition quote_param :: "string \<Rightarrow> string" where
  "quote_param s = concat (map (\<lambda>c. if c = CHR 0x22 \<or> c = CHR 0x5C then [CHR 0x5C, c] else [c]) s)"

text \<open>For a type without a slash and one parameter, both given in lower case.\<close>

definition FormatMediaType :: "string \<Rightarrow> string \<Rightarrow> string \<Rightarrow> string" where
  "FormatMediaType t attr value =
     (if \<not> is_token t \<or> \<not> is_token attr then []
      else t @ ''; '' @ attr @
        (if needs_encoding value then ''*=utf-8'' @ [CHR 0x27, CHR 0x27] @ percent_encode value
         else if is_token value then CHR ''='' # value
         else CHR ''='' # CHR 0x22 # quote_param value @ [CHR 0x22]))"

section \<open>strconv.Quote\<close>

definition hex_digit :: "nat \<Rightarrow> char" where
  "hex_digit n = hex_alphabet ! n"

definition hex_rune :: "nat \<Rightarrow> rune \<Rightarrow> string" where
  "hex_rune k r = map (\<lambda>i. hex_digit (r div 16 ^ i mod 16)) (rev [0..<k])"

text \<open>One piece of the string: a rune, with the bytes it was decoded from.\<close>

definition quote_rune :: "unicode \<Rightarrow> rune \<times> string \<Rightarrow> string" where
  "quote_rune u seg =
     (case seg of (r, bs) \<Rightarrow>
        if r = rune_error \<and> length bs = 1 then CHR 0x5C # CHR ''x'' # hex_rune 2 (of_char (hd bs))
        else if r = 34 \<or> r = 92 then CHR 0x5C # bs
        else if is_print u r then bs
        else case map_of (zip [7, 8, 12, 10, 13, 9, 11] ''abfnrtv'') r of
          Some c \<Rightarrow> [CHR 0x5C, c]
        | None \<Rightarrow>
            if r < 32 \<or> r = 127 then CHR 0x5C # CHR ''x'' # hex_rune 2 r
            else if r < 65536 then CHR 0x5C # CHR ''u'' # hex_rune 4 r
            else CHR 0x5C # CHR ''U'' # hex_rune 8 r)"

definition quote :: "unicode \<Rightarrow> string \<Rightarrow> string" where
  "quote u s = CHR 0x22 # concat (map (quote_rune u) (utf8_segments s)) @ [CHR 0x22]"

section \<open>Cookies and responses\<close>

record cookie =
  ck_Name :: string
  ck_Value :: string
  ck_Path :: string
  ck_HttpOnly :: bool
  ck_Secure :: bool
  ck_SameSiteStrict :: bool
  ck_MaxAge :: int

datatype body = BodyJson json | BodyBytes bytes

text \<open>Headers are kept with the latest setting first, so that \<^verbatim>\<open>map_of\<close> finds the one in force.\<close>

record response =
  rs_Status :: nat
  rs_Headers :: "(string \<times> string) list"
  rs_Cookies :: "cookie list"
  rs_Body :: body

text \<open>A handler replies or panics; in both cases headers may have been set.\<close>

datatype outcome = Reply response | Panic "(string \<times> string) list"

text \<open>
  A multipart body: \<open>pt_head\<close> is the number of bytes of a part before its content (delimiter line and headers),
  \<open>pt_close\<close> that of the delimiter that ends it, \<open>up_end\<close> that of the closing delimiter;
  \<open>up_break\<close> tells after how many bytes the body breaks off, if it does, and whether that shows as
  \<^verbatim>\<open>io.ErrUnexpectedEOF\<close> or as another error of the connection.
\<close>

record part =
  pt_FormName :: string
  pt_FileName :: string
  pt_ContentType :: string
  pt_head :: nat
  pt_content :: bytes
  pt_close :: nat

record upload_body =
  up_parts :: "part list"
  up_end :: nat
  up_break :: "(nat \<times> bool) option"

end
