(* ===== verification/Authz.thy ===== *)
theory Authz
  imports SV_Prelude
begin

text \<open>
  The authorization choke point, \<^verbatim>\<open>internal/authz\<close>, with the principal type of
  \<^verbatim>\<open>internal/auth\<close> it decides on. Actions and roles are strings as in the code, so that an
  unknown one is a value the model has; Go's map lookups give the zero value (\<open>False\<close>) on a
  missing key.
\<close>

section \<open>Principals\<close>

record user =
  u_ID :: string
  u_Username :: string
  u_Role :: string

definition roleUser :: string where
  "roleUser = ''user''"

definition roleAdmin :: string where
  "roleAdmin = ''admin''"

definition IsAdmin :: "user \<Rightarrow> bool" where
  "IsAdmin u \<longleftrightarrow> u_Role u = roleAdmin"

section \<open>Actions, roles, the permission matrix\<close>

type_synonym action = string

definition ActionView :: action where "ActionView = ''view''"
definition ActionDownload :: action where "ActionDownload = ''download''"
definition ActionRename :: action where "ActionRename = ''rename''"
definition ActionDelete :: action where "ActionDelete = ''delete''"
definition ActionShare :: action where "ActionShare = ''share''"

lemmas action_defs = ActionView_def ActionDownload_def ActionRename_def ActionDelete_def ActionShare_def

definition RoleEditor :: string where "RoleEditor = ''editor''"
definition RoleViewer :: string where "RoleViewer = ''viewer''"

lemmas role_defs = RoleEditor_def RoleViewer_def

record node_acl =
  acl_OwnerID :: string
  acl_Grants :: "string \<rightharpoonup> string"

definition rolePermissions :: "string \<Rightarrow> action \<Rightarrow> bool" where
  "rolePermissions role a =
     (if role = RoleEditor then a = ActionView \<or> a = ActionDownload \<or> a = ActionRename
      else if role = RoleViewer then a = ActionView \<or> a = ActionDownload
      else False)"

definition Can :: "user option \<Rightarrow> node_acl \<Rightarrow> action \<Rightarrow> bool" where
  "Can u acl a = (case u of
     None \<Rightarrow> False
   | Some p \<Rightarrow>
       if u_ID p = [] then False
       else if u_ID p = acl_OwnerID acl then
         a = ActionView \<or> a = ActionDownload \<or> a = ActionRename \<or> a = ActionDelete \<or> a = ActionShare
       else (case acl_Grants acl (u_ID p) of
               Some role \<Rightarrow> rolePermissions role a
             | None \<Rightarrow> False))"

definition CanAdministrate :: "user option \<Rightarrow> bool" where
  "CanAdministrate u = (case u of None \<Rightarrow> False | Some p \<Rightarrow> IsAdmin p)"

section \<open>The interface: a choke point\<close>

text \<open>
  What the file operations rely on: nobody is anonymous, the owner may do exactly the defined
  actions, and everybody else has what the role in the grant table permits and no more.
\<close>

locale choke_point =
  fixes can :: "'u option \<Rightarrow> 'acl \<Rightarrow> 'act \<Rightarrow> bool"
    and owns :: "'u \<Rightarrow> 'acl \<Rightarrow> bool"
    and granted :: "'u \<Rightarrow> 'acl \<Rightarrow> 'role option"
    and permits :: "'role \<Rightarrow> 'act \<Rightarrow> bool"
    and defined_action :: "'act \<Rightarrow> bool"
  assumes anonymous_denied: "\<not> can None acl a"
    and owner_rule: "owns u acl \<Longrightarrow> can (Some u) acl a \<longleftrightarrow> defined_action a"
    and grantee_rule:
      "\<not> owns u acl \<Longrightarrow> can (Some u) acl a \<longleftrightarrow> (\<exists>r. granted u acl = Some r \<and> permits r a)"
    and permits_defined: "permits r a \<Longrightarrow> defined_action a"
begin

lemma only_defined: "can u acl a \<Longrightarrow> defined_action a"
  using anonymous_denied owner_rule grantee_rule permits_defined by (cases u) metis+

lemma stranger_denied: "\<not> owns u acl \<Longrightarrow> granted u acl = None \<Longrightarrow> \<not> can (Some u) acl a"
  by (simp add: grantee_rule)

lemma owner_dominates: "owns v acl \<Longrightarrow> can u acl' a \<Longrightarrow> can (Some v) acl a"
  using only_defined owner_rule by blast

lemma same_grant_same_rights:
  "\<not> owns u acl \<Longrightarrow> \<not> owns u acl' \<Longrightarrow> granted u acl = granted u acl' \<Longrightarrow>
   can (Some u) acl a = can (Some u) acl' a"
  by (simp add: grantee_rule)

lemma beyond_grant_is_owner:
  "can (Some u) acl a \<Longrightarrow> (\<And>r. \<not> permits r a) \<Longrightarrow> owns u acl"
  using grantee_rule by blast

end

definition acl_owns :: "user \<Rightarrow> node_acl \<Rightarrow> bool" where
  "acl_owns u acl \<longleftrightarrow> u_ID u \<noteq> [] \<and> u_ID u = acl_OwnerID acl"

definition acl_granted :: "user \<Rightarrow> node_acl \<Rightarrow> string option" where
  "acl_granted u acl = (if u_ID u = [] then None else acl_Grants acl (u_ID u))"

definition acl_action :: "action \<Rightarrow> bool" where
  "acl_action a \<longleftrightarrow> a \<in> {ActionView, ActionDownload, ActionRename, ActionDelete, ActionShare}"

interpretation cp: choke_point Can acl_owns acl_granted rolePermissions acl_action
proof (unfold_locales, goal_cases)
  case 1
  then show ?case by (simp add: Can_def)
next
  case 2
  then show ?case by (auto simp: Can_def acl_owns_def acl_action_def)
next
  case 3
  then show ?case by (auto simp: Can_def acl_owns_def acl_granted_def split: option.splits)
next
  case 4
  then show ?case by (auto simp: rolePermissions_def acl_action_def split: if_splits)
qed

lemma no_role_shares: "\<not> rolePermissions r ActionShare"
  by (simp add: rolePermissions_def action_defs)

lemma no_role_deletes: "\<not> rolePermissions r ActionDelete"
  by (simp add: rolePermissions_def action_defs)

section \<open>Properties\<close>

text \<open>
  The permission matrix, complete: a decision is positive exactly for an identified owner
  with a defined action, an identified non-owner holding an editor grant with view, download or
  rename, or one holding a viewer grant with view or download. Every other principal, role and
  action string is denied.
\<close>

lemma permission_matrix:
  "Can u acl a \<longleftrightarrow>
     (\<exists>p. u = Some p \<and> u_ID p \<noteq> [] \<and>
        (if u_ID p = acl_OwnerID acl
         then a \<in> {''view'', ''download'', ''rename'', ''delete'', ''share''}
         else acl_Grants acl (u_ID p) = Some ''editor'' \<and> a \<in> {''view'', ''download'', ''rename''} \<or>
              acl_Grants acl (u_ID p) = Some ''viewer'' \<and> a \<in> {''view'', ''download''}))"
proof (cases u)
  case None
  then show ?thesis by (simp add: Can_def)
next
  case (Some p)
  show ?thesis
  proof (cases "u_ID p = [] \<or> u_ID p = acl_OwnerID acl")
    case True
    with Some show ?thesis by (auto simp: Can_def action_defs)
  next
    case False
    with Some show ?thesis
      by (cases "acl_Grants acl (u_ID p)") (simp_all add: Can_def rolePermissions_def action_defs role_defs)
  qed
qed

text \<open>
  The administrator role conveys no file access: the account role is not consulted, so an
  administrator who neither owns a node nor holds a grant on it is denied every action.
\<close>

theorem admin_role_gives_no_file_access:
  "Can (Some (p\<lparr>u_Role := r\<rparr>)) acl a = Can (Some p) acl a \<and>
   (CanAdministrate (Some p) \<and> u_ID p \<noteq> acl_OwnerID acl \<and> acl_Grants acl (u_ID p) = None \<longrightarrow>
      \<not> Can (Some p) acl a)"
  using cp.stranger_denied [of p acl a]
  by (auto simp: Can_def acl_owns_def acl_granted_def)

theorem admin_role_gives_no_file_access_witness:
  "let p = \<lparr>u_ID = ''a1'', u_Username = ''root'', u_Role = ''admin''\<rparr>;
       acl = \<lparr>acl_OwnerID = ''b2'', acl_Grants = Map.empty(''c3'' \<mapsto> ''viewer'')\<rparr>
   in CanAdministrate (Some p) \<and> \<not> Can (Some p) acl ''download''"
  using admin_role_gives_no_file_access
    [where p = "\<lparr>u_ID = ''a1'', u_Username = ''root'', u_Role = ''admin''\<rparr>" and acl =
      "\<lparr>acl_OwnerID = ''b2'', acl_Grants = Map.empty(''c3'' \<mapsto> ''viewer'')\<rparr>" and a = "''download''"]
  by (simp add: CanAdministrate_def IsAdmin_def roleAdmin_def Let_def)

section \<open>Access as a level\<close>

text \<open>
  The abstract specification: an account has one level of access to a file, levels are ordered, and an action asks
  for a level.
\<close>

datatype access = NoAccess | Reading | Editing | Owning

fun access_rank :: "access \<Rightarrow> nat" where
  "access_rank NoAccess = 0"
| "access_rank Reading = 1"
| "access_rank Editing = 2"
| "access_rank Owning = 3"

lemma access_rank_inject: "access_rank a = access_rank b \<longleftrightarrow> a = b"
  by (cases a; cases b) simp_all

instantiation access :: linorder
begin

definition less_eq_access :: "access \<Rightarrow> access \<Rightarrow> bool" where
  "less_eq_access a b \<longleftrightarrow> access_rank a \<le> access_rank b"

definition less_access :: "access \<Rightarrow> access \<Rightarrow> bool" where
  "less_access a b \<longleftrightarrow> access_rank a < access_rank b"

instance
  by standard (auto simp: less_eq_access_def less_access_def access_rank_inject)

end

definition access_of :: "user option \<Rightarrow> node_acl \<Rightarrow> access" where
  "access_of u acl = (case u of
     None \<Rightarrow> NoAccess
   | Some p \<Rightarrow>
       if u_ID p = [] then NoAccess
       else if u_ID p = acl_OwnerID acl then Owning
       else if acl_Grants acl (u_ID p) = Some ''editor'' then Editing
       else if acl_Grants acl (u_ID p) = Some ''viewer'' then Reading
       else NoAccess)"

definition needed_access :: "action \<Rightarrow> access option" where
  "needed_access a =
     (if a \<in> {''view'', ''download''} then Some Reading
      else if a = ''rename'' then Some Editing
      else if a \<in> {''delete'', ''share''} then Some Owning
      else None)"

text \<open>
  Authorization is a comparison of levels: an action is permitted exactly when it is one of the five defined
  ones and the level it asks for is at most the level the account has (by ownership, or by an editor or viewer
  grant), so whoever has at least the access of another may do at least as much; the account role plays no part,
  an administrator has no access by being one.
\<close>

theorem access_is_a_threshold:
  "Can u acl a = (\<exists>l. needed_access a = Some l \<and> l \<le> access_of u acl) \<and>
   Can (Some (p\<lparr>u_Role := r\<rparr>)) acl a = Can (Some p) acl a"
proof -
  have level: "(\<exists>l. needed_access a = Some l \<and> l \<le> x) \<longleftrightarrow>
      (case x of NoAccess \<Rightarrow> False | Reading \<Rightarrow> a \<in> {''view'', ''download''} | Editing \<Rightarrow> a \<in> {''view'', ''download'', ''rename''}
       | Owning \<Rightarrow> a \<in> {''view'', ''download'', ''rename'', ''delete'', ''share''})" for x
    by (cases x) (auto simp: needed_access_def less_eq_access_def)
  have "Can u acl a = (\<exists>l. needed_access a = Some l \<and> l \<le> access_of u acl)"
    unfolding level permission_matrix by (cases u) (simp_all add: access_of_def)
  then show ?thesis by (simp add: Can_def)
qed

end
