(* ===== verification/Object_Store.thy ===== *)
theory Object_Store
  imports Go_Encoding
begin

text \<open>
  The content-addressed storage engine, \<^verbatim>\<open>internal/storage\<close>: \<^verbatim>\<open>crypto.go\<close> (key
  generation, wrapping, sealing) and \<^verbatim>\<open>store.go\<close> (\<open>New\<close>, \<open>Stage\<close>, \<open>Commit\<close>, \<open>Abort\<close>, \<open>Open\<close>,
  \<open>Exists\<close>, \<open>Remove\<close>, \<open>objectPath\<close>). The file system is a map from paths to contents
  and a set of directories; which system calls fail is the argument \<open>flt\<close>. SHA-256 and
  AES-GCM are parameters, collected in the record \<open>crypto\<close>.
\<close>

section \<open>Cryptographic primitives\<close>

text \<open>
  \<open>c_seal\<close> and \<open>c_open\<close> are \<^verbatim>\<open>cipher.AEAD\<close>'s \<^verbatim>\<open>Seal\<close> and \<^verbatim>\<open>Open\<close> for AES-GCM, with
  arguments key, nonce, text and associated data. \<open>c_argon2id\<close> is \<^verbatim>\<open>argon2.IDKey\<close> (password,
  salt, time, memory, threads, key length), used by the password component.
\<close>

record crypto =
  c_sha256 :: "bytes \<Rightarrow> bytes"
  c_seal :: "bytes \<Rightarrow> bytes \<Rightarrow> bytes \<Rightarrow> bytes \<Rightarrow> bytes"
  c_open :: "bytes \<Rightarrow> bytes \<Rightarrow> bytes \<Rightarrow> bytes \<Rightarrow> bytes option"
  c_argon2id :: "bytes \<Rightarrow> bytes \<Rightarrow> nat \<Rightarrow> nat \<Rightarrow> nat \<Rightarrow> nat \<Rightarrow> bytes"

definition HashSize :: nat where
  "HashSize = 32"

definition nonceSize :: nat where
  "nonceSize = 12"

definition dekSize :: nat where
  "dekSize = 32"

definition aes_key_length :: "nat \<Rightarrow> bool" where
  "aes_key_length n \<longleftrightarrow> n = 16 \<or> n = 24 \<or> n = 32"

text \<open>
  The documented behaviour the code relies on: digests have 32 bytes, opening what was
  sealed under the same key, nonce and associated data gives the text back, and
  \<^verbatim>\<open>argon2.IDKey\<close> returns the key length it is asked for. Nothing about secrecy or collisions.
\<close>

definition crypto_ok :: "crypto \<Rightarrow> bool" where
  "crypto_ok c \<longleftrightarrow>
     (\<forall>m. length (c_sha256 c m) = HashSize) \<and>
     (\<forall>k n p a. aes_key_length (length k) \<longrightarrow> length n = nonceSize \<longrightarrow>
        c_open c k n (c_seal c k n p a) a = Some p) \<and>
     (\<forall>p s t m th l. length (c_argon2id c p s t m th l) = l)"

lemma crypto_ok_sha: "crypto_ok c \<Longrightarrow> length (c_sha256 c m) = HashSize"
  by (simp add: crypto_ok_def)

lemma crypto_ok_open:
  "crypto_ok c \<Longrightarrow> aes_key_length (length k) \<Longrightarrow> length n = nonceSize \<Longrightarrow>
   c_open c k n (c_seal c k n p a) a = Some p"
  by (simp add: crypto_ok_def)

lemma crypto_ok_argon: "crypto_ok c \<Longrightarrow> length (c_argon2id c p s t m th l) = l"
  by (simp add: crypto_ok_def)

section \<open>Errors\<close>

datatype storage_error =
    SErrNotFound
  | SErrCorrupt string
  | SErrTooLarge
  | SErrReceive read_error
  | SErrOther string

section \<open>crypto.go\<close>

definition newDEK :: "rand_source \<Rightarrow> storage_error + bytes" where
  "newDEK rnd = (case rand_read dekSize rnd of
     None \<Rightarrow> Inl (SErrOther ''storage: generate DEK'')
   | Some dek \<Rightarrow> Inr dek)"

text \<open>\<^verbatim>\<open>newGCM\<close> returns an AEAD for the key; the model keeps the key itself.\<close>

definition newGCM :: "bytes \<Rightarrow> storage_error + bytes" where
  "newGCM key = (if aes_key_length (length key) then Inr key
                 else Inl (SErrOther ''storage: init cipher''))"

definition wrapDEK ::
  "crypto \<Rightarrow> rand_source \<Rightarrow> bytes \<Rightarrow> bytes \<Rightarrow> bytes \<Rightarrow> storage_error + bytes" where
  "wrapDEK c rnd kek dek aad = (case newGCM kek of
     Inl e \<Rightarrow> Inl e
   | Inr gcm \<Rightarrow> (case rand_read nonceSize rnd of
       None \<Rightarrow> Inl (SErrOther ''storage: generate wrap nonce'')
     | Some nonce \<Rightarrow> Inr (nonce @ c_seal c gcm nonce dek aad)))"

definition unwrapDEK :: "crypto \<Rightarrow> bytes \<Rightarrow> bytes \<Rightarrow> bytes \<Rightarrow> storage_error + bytes" where
  "unwrapDEK c kek wrapped aad = (case newGCM kek of
     Inl e \<Rightarrow> Inl e
   | Inr gcm \<Rightarrow>
       if length wrapped < nonceSize then Inl (SErrOther ''storage: wrapped DEK too short'')
       else (case c_open c gcm (take nonceSize wrapped) (drop nonceSize wrapped) aad of
               None \<Rightarrow> Inl (SErrOther ''cipher: message authentication failed'')
             | Some dek \<Rightarrow> Inr dek))"

definition encrypt ::
  "crypto \<Rightarrow> rand_source \<Rightarrow> bytes \<Rightarrow> bytes \<Rightarrow> bytes \<Rightarrow> storage_error + bytes \<times> bytes" where
  "encrypt c rnd dek plaintext aad = (case newGCM dek of
     Inl e \<Rightarrow> Inl e
   | Inr gcm \<Rightarrow> (case rand_read nonceSize rnd of
       None \<Rightarrow> Inl (SErrOther ''storage: generate content nonce'')
     | Some nonce \<Rightarrow> Inr (nonce, c_seal c gcm nonce plaintext aad)))"

definition decrypt ::
  "crypto \<Rightarrow> bytes \<Rightarrow> bytes \<Rightarrow> bytes \<Rightarrow> bytes \<Rightarrow> storage_error + bytes" where
  "decrypt c dek nonce sealed aad = (case newGCM dek of
     Inl e \<Rightarrow> Inl e
   | Inr gcm \<Rightarrow> (case c_open c gcm nonce sealed aad of
       None \<Rightarrow> Inl (SErrOther ''cipher: message authentication failed'')
     | Some p \<Rightarrow> Inr p))"

section \<open>The file system and the store\<close>

record fsys =
  fs_files :: "string \<rightharpoonup> bytes"
  fs_dirs :: "string set"

datatype fs_call =
    CallMkdir | CallCreateTemp | CallWrite | CallSync | CallClose | CallRename
  | CallReadFile | CallRemove | CallCleanup

type_synonym fs_faults = "fs_call \<Rightarrow> bool"

record store =
  st_root :: string
  st_kek :: bytes

record staged =
  sg_hash :: bytes
  sg_size :: int
  sg_wrapped :: bytes
  sg_tmp :: string
  sg_done :: bool

record stage_random =
  sr_dek :: rand_source
  sr_wrap :: rand_source
  sr_content :: rand_source
  sr_suffix :: nat

definition objMagic :: bytes where
  "objMagic = bytes_of_string ''SVL1''"

definition objectPath :: "store \<Rightarrow> bytes \<Rightarrow> string" where
  "objectPath s hash =
     (let h = hex_encode hash in path_join [st_root s, ''objects'', take 2 h, h @ ''.obj''])"

text \<open>The directory of an object file (\<^verbatim>\<open>filepath.Dir\<close> of its path).\<close>

definition objectDir :: "store \<Rightarrow> bytes \<Rightarrow> string" where
  "objectDir s hash = path_join [st_root s, ''objects'', take 2 (hex_encode hash)]"

definition New :: "string \<Rightarrow> bytes \<Rightarrow> fs_faults \<Rightarrow> fsys \<Rightarrow> (storage_error + store) \<times> fsys" where
  "New dir kek flt fs =
     (if length kek \<noteq> 32 then (Inl (SErrOther ''storage: master key must be 32 bytes''), fs)
      else if flt CallMkdir then (Inl (SErrOther ''storage: create dir''), fs)
      else (Inr \<lparr>st_root = dir, st_kek = kek\<rparr>,
            fs\<lparr>fs_dirs := fs_dirs fs \<union> {path_join [dir, ''objects''], path_join [dir, ''tmp'']}\<rparr>))"

text \<open>
  \<^verbatim>\<open>os.CreateTemp\<close> never opens an existing file; \<open>sr_suffix\<close> is the random number
  in the name it settled on.
\<close>

definition temp_path :: "store \<Rightarrow> stage_random \<Rightarrow> string" where
  "temp_path s rnd = path_join [st_root s, ''tmp'', ''staged-'' @ decimal (sr_suffix rnd)]"

text \<open>The failure path \<^verbatim>\<open>cleanup()\<close> of \<^verbatim>\<open>Stage\<close>: the error of \<^verbatim>\<open>os.Remove\<close> is ignored.\<close>

definition remove_temp :: "fs_faults \<Rightarrow> string \<Rightarrow> fsys \<Rightarrow> fsys" where
  "remove_temp flt p fs =
     (if flt CallCleanup then fs else fs\<lparr>fs_files := (fs_files fs)(p := None)\<rparr>)"

definition write_temp ::
  "fs_faults \<Rightarrow> string \<Rightarrow> bytes \<Rightarrow> fsys \<Rightarrow> (storage_error + unit) \<times> fsys" where
  "write_temp flt p content fs =
     (if flt CallCreateTemp \<or> fs_files fs p \<noteq> None
      then (Inl (SErrOther ''storage: create temp file''), fs)
      else let fs1 = fs\<lparr>fs_files := (fs_files fs)(p \<mapsto> [])\<rparr>;
               fs2 = fs\<lparr>fs_files := (fs_files fs)(p \<mapsto> content)\<rparr> in
        if flt CallWrite then (Inl (SErrOther ''storage: write temp file''), remove_temp flt p fs1)
        else if flt CallSync then (Inl (SErrOther ''storage: fsync temp file''), remove_temp flt p fs2)
        else if flt CallClose then (Inl (SErrOther ''storage: close temp file''), remove_temp flt p fs2)
        else (Inr (), fs2))"

definition Stage ::
  "crypto \<Rightarrow> store \<Rightarrow> stage_random \<Rightarrow> fs_faults \<Rightarrow> reader \<Rightarrow> int64 \<Rightarrow> fsys
   \<Rightarrow> (storage_error + staged) \<times> fsys" where
  "Stage c s rnd flt r limit fs =
     (if sint limit \<le> 0 then (Inl (SErrOther ''storage: limit must be positive''), fs) else
      case read_all_limited (sint (limit + 1)) r of
        Inl e \<Rightarrow> (Inl (SErrReceive e), fs)
      | Inr plaintext \<Rightarrow>
      if int (length plaintext) > sint limit then (Inl SErrTooLarge, fs) else
      let hash = c_sha256 c plaintext in
      case newDEK (sr_dek rnd) of Inl e \<Rightarrow> (Inl e, fs) | Inr dek \<Rightarrow>
      case wrapDEK c (sr_wrap rnd) (st_kek s) dek hash of Inl e \<Rightarrow> (Inl e, fs) | Inr wrapped \<Rightarrow>
      case encrypt c (sr_content rnd) dek plaintext hash of
        Inl e \<Rightarrow> (Inl e, fs)
      | Inr (nonce, sealed) \<Rightarrow>
      case write_temp flt (temp_path s rnd) (objMagic @ nonce @ sealed) fs of
        (Inl e, fs') \<Rightarrow> (Inl e, fs')
      | (Inr _, fs') \<Rightarrow>
          (Inr \<lparr>sg_hash = hash, sg_size = int (length plaintext), sg_wrapped = wrapped,
                sg_tmp = temp_path s rnd, sg_done = False\<rparr>, fs'))"

text \<open>
  \<^verbatim>\<open>os.Rename\<close> needs the source file and the destination's directory, and replaces what is
  at the destination.
\<close>

definition Commit ::
  "store \<Rightarrow> fs_faults \<Rightarrow> staged \<Rightarrow> fsys \<Rightarrow> (storage_error + unit) \<times> staged \<times> fsys" where
  "Commit s flt st fs =
     (if sg_done st then (Inl (SErrOther ''storage: staged object already finalized''), st, fs) else
      let st' = st\<lparr>sg_done := True\<rparr>; dst = objectPath s (sg_hash st) in
      if flt CallMkdir
      then (Inl (SErrOther ''storage: create object dir''), st', remove_temp flt (sg_tmp st) fs) else
      let fs1 = fs\<lparr>fs_dirs := insert (objectDir s (sg_hash st)) (fs_dirs fs)\<rparr> in
      case fs_files fs1 (sg_tmp st) of
        None \<Rightarrow> (Inl (SErrOther ''storage: publish object''), st', remove_temp flt (sg_tmp st) fs1)
      | Some content \<Rightarrow>
          if flt CallRename
          then (Inl (SErrOther ''storage: publish object''), st', remove_temp flt (sg_tmp st) fs1)
          else (Inr (), st', fs1\<lparr>fs_files := (fs_files fs1)(sg_tmp st := None, dst \<mapsto> content)\<rparr>))"

definition Abort :: "fs_faults \<Rightarrow> staged \<Rightarrow> fsys \<Rightarrow> staged \<times> fsys" where
  "Abort flt st fs =
     (if sg_done st then (st, fs)
      else (st\<lparr>sg_done := True\<rparr>, remove_temp flt (sg_tmp st) fs))"

definition Open ::
  "crypto \<Rightarrow> store \<Rightarrow> fs_faults \<Rightarrow> fsys \<Rightarrow> bytes \<Rightarrow> bytes \<Rightarrow> storage_error + bytes" where
  "Open c s flt fs hash wrappedDEK =
     (if length hash \<noteq> HashSize then Inl (SErrOther ''storage: content address must be 32 bytes'') else
      if flt CallReadFile then Inl (SErrOther ''storage: read object'') else
      case fs_files fs (objectPath s hash) of None \<Rightarrow> Inl SErrNotFound | Some raw \<Rightarrow>
      if length raw < length objMagic + nonceSize \<or> take (length objMagic) raw \<noteq> objMagic
      then Inl (SErrCorrupt ''malformed object header'') else
      let nonce = take nonceSize (drop (length objMagic) raw);
          sealed = drop (length objMagic + nonceSize) raw in
      case unwrapDEK c (st_kek s) wrappedDEK hash of
        Inl _ \<Rightarrow> Inl (SErrCorrupt ''key unwrap failed'')
      | Inr dek \<Rightarrow>
      case decrypt c dek nonce sealed hash of
        Inl _ \<Rightarrow> Inl (SErrCorrupt ''authentication tag mismatch'')
      | Inr plaintext \<Rightarrow>
      if c_sha256 c plaintext \<noteq> hash then Inl (SErrCorrupt ''content hash mismatch'')
      else Inr plaintext)"

definition Exists :: "store \<Rightarrow> fsys \<Rightarrow> bytes \<Rightarrow> bool" where
  "Exists s fs hash \<longleftrightarrow> fs_files fs (objectPath s hash) \<noteq> None"

definition Remove :: "store \<Rightarrow> fs_faults \<Rightarrow> bytes \<Rightarrow> fsys \<Rightarrow> (storage_error + unit) \<times> fsys" where
  "Remove s flt hash fs =
     (if flt CallRemove then (Inl (SErrOther ''storage: remove object''), fs)
      else (Inr (), fs\<lparr>fs_files := (fs_files fs)(objectPath s hash := None)\<rparr>))"

section \<open>Paths\<close>

lemma hex_chars_no_dot_slash: "c \<in> set (hex_encode h) \<Longrightarrow> c \<noteq> CHR ''/'' \<and> c \<noteq> CHR ''.''"
  using set_hex_encode [of h] by (auto simp: hex_alphabet_def)

lemma hex_encode_nonempty: "h \<noteq> [] \<Longrightarrow> hex_encode h \<noteq> []"
  using length_hex_encode [of h] by (cases "hex_encode h") auto

lemma plain_hex_components:
  assumes "h \<noteq> []"
  shows "plain_component (take 2 (hex_encode h))" "plain_component (hex_encode h @ ''.obj'')"
proof -
  obtain x xs where x: "hex_encode h = x # xs"
    using hex_encode_nonempty [OF assms] by (cases "hex_encode h") auto
  have "CHR ''/'' \<notin> set (hex_encode h)" "CHR ''.'' \<notin> set (hex_encode h)"
    using hex_chars_no_dot_slash by blast+
  then show "plain_component (take 2 (hex_encode h))" "plain_component (hex_encode h @ ''.obj'')"
    unfolding x by (auto simp: plain_component_def take_Cons' dest: in_set_takeD)
qed

lemma objectPath_components:
  assumes "h \<noteq> []"
  shows "list_all plain_component [''objects'', take 2 (hex_encode h), hex_encode h @ ''.obj'']"
  using plain_hex_components [OF assms] by (simp add: plain_component_def)

lemma objectPath_inject_nonempty:
  assumes "h \<noteq> []" "h' \<noteq> []" "objectPath s h = objectPath s h'"
  shows "h = h'"
proof -
  have "[''objects'', take 2 (hex_encode h), hex_encode h @ ''.obj''] =
        [''objects'', take 2 (hex_encode h'), hex_encode h' @ ''.obj'']"
    using assms(3) unfolding objectPath_def Let_def
    by (intro path_join_inject [of _ _ "st_root s"] objectPath_components assms) simp_all
  then show ?thesis
    by (intro hex_encode_inject) simp
qed

lemma digit_not_slash: "is_digit c \<Longrightarrow> c \<noteq> CHR ''/''"
  by (auto simp: is_digit_def)

lemma temp_path_components: "list_all plain_component [''tmp'', ''staged-'' @ decimal n]"
  using decimal_digits [of n] digit_not_slash
  by (auto simp: plain_component_def list_all_iff)

lemma temp_path_not_objectPath: "h \<noteq> [] \<Longrightarrow> temp_path s rnd \<noteq> objectPath s h"
proof
  assume h: "h \<noteq> []" and "temp_path s rnd = objectPath s h"
  then have "[''tmp'', ''staged-'' @ decimal (sr_suffix rnd)] =
      [''objects'', take 2 (hex_encode h), hex_encode h @ ''.obj'']"
    unfolding temp_path_def objectPath_def Let_def
    by (intro path_join_inject [of _ _ "st_root s"] temp_path_components objectPath_components) simp_all
  then show False by simp
qed

text \<open>An object path is the store's object directory followed by hexadecimal digits only.\<close>

lemma objectPath_form:
  assumes "h \<noteq> []"
  shows "objectPath s h =
    (if has_prefix (st_root s) ''/'' then ''/'' else []) @
    intercalate ''/'' (dir_components (st_root s) @
      [''objects'', take 2 (hex_encode h), hex_encode h @ ''.obj''])"
  unfolding objectPath_def Let_def using objectPath_components [OF assms]
  by (intro path_join_dir) simp_all

section \<open>What a reader of the store sees\<close>

text \<open>
  \<open>reads c s fs h k p\<close>: unless the operating system fails the read, \<open>Open\<close> at address \<open>h\<close>
  with wrapped key \<open>k\<close> returns \<open>p\<close>. It depends on the file at the object path alone.
\<close>

definition no_faults :: fs_faults where
  "no_faults = (\<lambda>_. False)"

definition reads :: "crypto \<Rightarrow> store \<Rightarrow> fsys \<Rightarrow> bytes \<Rightarrow> bytes \<Rightarrow> bytes \<Rightarrow> bool" where
  "reads c s fs h k p \<longleftrightarrow> Open c s no_faults fs h k = Inr p"

lemma Open_cong:
  "fs_files fs (objectPath s h) = fs_files fs' (objectPath s h) \<Longrightarrow>
   Open c s flt fs h k = Open c s flt fs' h k"
  by (simp add: Open_def)

lemma Open_faults:
  "\<not> flt CallReadFile \<Longrightarrow> Open c s flt fs h k = Open c s no_faults fs h k"
  by (simp add: Open_def no_faults_def)

lemma Open_reads: "\<not> flt CallReadFile \<Longrightarrow> Open c s flt fs h k = Inr p \<longleftrightarrow> reads c s fs h k p"
  by (simp add: reads_def Open_faults)

lemma Open_Inr_reads: "Open c s flt fs h k = Inr p \<Longrightarrow> reads c s fs h k p"
  by (cases "flt CallReadFile") (auto simp: Open_reads [symmetric], simp add: Open_def split: if_splits)

lemma Open_Inr:
  assumes "Open c s flt fs h k = Inr p"
  obtains raw dek where "length h = HashSize" "fs_files fs (objectPath s h) = Some raw"
    "unwrapDEK c (st_kek s) k h = Inr dek"
    "decrypt c dek (take nonceSize (drop (length objMagic) raw))
       (drop (length objMagic + nonceSize) raw) h = Inr p"
    "c_sha256 c p = h"
  using assms by (auto simp: Open_def Let_def split: if_splits option.splits sum.splits)

lemma reads_sha: "reads c s fs h k p \<Longrightarrow> c_sha256 c p = h"
  unfolding reads_def by (erule Open_Inr)

lemma reads_length: "reads c s fs h k p \<Longrightarrow> length h = HashSize"
  unfolding reads_def by (erule Open_Inr)

lemma reads_unique: "reads c s fs h k p \<Longrightarrow> reads c s fs h k p' \<Longrightarrow> p = p'"
  by (simp add: reads_def)

lemma reads_cong:
  "fs_files fs (objectPath s h) = fs_files fs' (objectPath s h) \<Longrightarrow>
   reads c s fs h k p = reads c s fs' h k p"
  unfolding reads_def by (drule Open_cong [where c = c and flt = no_faults and k = k]) simp

section \<open>Key wrapping and sealing round trips\<close>

lemma wrap_unwrap:
  assumes "crypto_ok c" and "wrapDEK c rnd kek dek aad = Inr w"
  shows "unwrapDEK c kek w aad = Inr dek"
proof -
  from assms(2) obtain nonce where "aes_key_length (length kek)" "rand_read nonceSize rnd = Some nonce"
      and w: "w = nonce @ c_seal c kek nonce dek aad"
    by (auto simp: wrapDEK_def newGCM_def split: if_splits option.splits)
  with rand_read_length [of nonceSize rnd nonce] show ?thesis
    using crypto_ok_open [OF assms(1)] by (simp add: unwrapDEK_def newGCM_def)
qed

lemma encrypt_decrypt:
  assumes "crypto_ok c" and "encrypt c rnd dek p aad = Inr (nonce, sealed)"
  shows "decrypt c dek nonce sealed aad = Inr p" "length nonce = nonceSize"
proof -
  from assms(2) have k: "aes_key_length (length dek)" and n: "rand_read nonceSize rnd = Some nonce"
      and s: "sealed = c_seal c dek nonce p aad"
    by (auto simp: encrypt_def newGCM_def split: if_splits option.splits)
  show "length nonce = nonceSize" using rand_read_length [OF n] .
  with k s show "decrypt c dek nonce sealed aad = Inr p"
    using crypto_ok_open [OF assms(1)] by (simp add: decrypt_def newGCM_def)
qed

section \<open>Staging, committing, aborting\<close>

text \<open>
  \<open>ready c s fs st p\<close>: the staged handle's temporary file holds the sealed content \<open>p\<close>.
\<close>

definition ready :: "crypto \<Rightarrow> store \<Rightarrow> fsys \<Rightarrow> staged \<Rightarrow> bytes \<Rightarrow> bool" where
  "ready c s fs st p \<longleftrightarrow>
     \<not> sg_done st \<and> sg_hash st = c_sha256 c p \<and> sg_size st = int (length p) \<and>
     (\<exists>n. sg_tmp st = path_join [st_root s, ''tmp'', ''staged-'' @ decimal n]) \<and>
     (\<exists>dek nonce sealed.
        fs_files fs (sg_tmp st) = Some (objMagic @ nonce @ sealed) \<and> length nonce = nonceSize \<and>
        unwrapDEK c (st_kek s) (sg_wrapped st) (sg_hash st) = Inr dek \<and>
        decrypt c dek nonce sealed (sg_hash st) = Inr p)"

lemma write_temp_cases:
  assumes "write_temp flt p content fs = (res, fs')"
  shows "case res of
      Inl _ \<Rightarrow> (\<forall>q. q \<noteq> p \<longrightarrow> fs_files fs' q = fs_files fs q) \<and> (\<not> flt CallCleanup \<longrightarrow> fs_files fs' = fs_files fs)
    | Inr _ \<Rightarrow> fs_files fs p = None \<and> fs_files fs' = (fs_files fs)(p \<mapsto> content)"
  using assms by (auto simp: write_temp_def remove_temp_def Let_def fun_upd_idem split: if_splits)

lemma Stage_effect:
  assumes "Stage c s rnd flt r limit fs = (res, fs')"
  shows "(\<forall>q. q \<noteq> temp_path s rnd \<longrightarrow> fs_files fs' q = fs_files fs q)"
    and "\<And>e. res = Inl e \<Longrightarrow> \<not> flt CallCleanup \<Longrightarrow> fs_files fs' = fs_files fs"
proof -
  have "case write_temp flt (temp_path s rnd) content fs of
      (Inl _, fs'') \<Rightarrow> (\<forall>q. q \<noteq> temp_path s rnd \<longrightarrow> fs_files fs'' q = fs_files fs q) \<and>
        (\<not> flt CallCleanup \<longrightarrow> fs_files fs'' = fs_files fs)
    | (Inr _, fs'') \<Rightarrow> (\<forall>q. q \<noteq> temp_path s rnd \<longrightarrow> fs_files fs'' q = fs_files fs q)" for content
    by (cases "write_temp flt (temp_path s rnd) content fs")
      (auto dest!: write_temp_cases split: sum.splits)
  note w = this
  show "\<forall>q. q \<noteq> temp_path s rnd \<longrightarrow> fs_files fs' q = fs_files fs q"
    using assms w by (fastforce simp: Stage_def Let_def split: if_splits sum.splits prod.splits)
  show "fs_files fs' = fs_files fs" if "res = Inl e" "\<not> flt CallCleanup" for e
    using assms w that by (fastforce simp: Stage_def Let_def split: if_splits sum.splits prod.splits)
qed

lemma Stage_ready:
  assumes ok: "crypto_ok c" and st: "Stage c s rnd flt r limit fs = (Inr st, fs')"
  obtains p where "read_all_limited (sint (limit + 1)) r = Inr p" "int (length p) \<le> sint limit"
    "ready c s fs' st p" "sg_tmp st = temp_path s rnd"
proof -
  from st obtain p dek wrapped nonce sealed where
      p: "read_all_limited (sint (limit + 1)) r = Inr p" "int (length p) \<le> sint limit"
    and w: "wrapDEK c (sr_wrap rnd) (st_kek s) dek (c_sha256 c p) = Inr wrapped"
    and e: "encrypt c (sr_content rnd) dek p (c_sha256 c p) = Inr (nonce, sealed)"
    and t: "write_temp flt (temp_path s rnd) (objMagic @ nonce @ sealed) fs = (Inr (), fs')"
    and st': "st = \<lparr>sg_hash = c_sha256 c p, sg_size = int (length p), sg_wrapped = wrapped,
                sg_tmp = temp_path s rnd, sg_done = False\<rparr>"
    by (auto simp: Stage_def Let_def split: if_splits sum.splits prod.splits)
  have "ready c s fs' st p"
    unfolding ready_def st'
    using write_temp_cases [OF t] wrap_unwrap [OF ok w] encrypt_decrypt [OF ok e]
    by (auto simp: temp_path_def)
  with p st' that show thesis by simp
qed

lemma ready_length: "crypto_ok c \<Longrightarrow> ready c s fs st p \<Longrightarrow> length (sg_hash st) = HashSize"
  by (auto simp: ready_def crypto_ok_sha)

lemma address_nonempty: "length h = HashSize \<Longrightarrow> h \<noteq> []"
  by (auto simp: HashSize_def)

lemma ready_temp_not_object:
  "ready c s fs st p \<Longrightarrow> length h = HashSize \<Longrightarrow> sg_tmp st \<noteq> objectPath s h"
  unfolding ready_def using temp_path_not_objectPath [of h s] address_nonempty [of h]
  by (metis stage_random.select_convs(4) temp_path_def)

lemma Commit_files:
  assumes "Commit s flt st fs = (res, st', fs')" and "\<not> sg_done st"
  shows "case res of
      Inl _ \<Rightarrow> fs_files fs' = fs_files fs \<or> fs_files fs' = (fs_files fs)(sg_tmp st := None)
    | Inr _ \<Rightarrow> \<exists>content. fs_files fs (sg_tmp st) = Some content \<and>
        fs_files fs' = (fs_files fs)(sg_tmp st := None, objectPath s (sg_hash st) \<mapsto> content)"
  using assms by (auto simp: Commit_def remove_temp_def Let_def split: if_splits option.splits)

lemma Commit_done: "Commit s flt st fs = (res, st', fs') \<Longrightarrow> sg_done st' \<and> sg_hash st' = sg_hash st"
  by (auto simp: Commit_def Let_def split: if_splits option.splits)

lemma Commit_reads:
  assumes ok: "crypto_ok c" and r: "ready c s fs st p"
    and com: "Commit s flt st fs = (Inr u, st', fs')"
  shows "reads c s fs' (sg_hash st) (sg_wrapped st) p"
proof -
  from r obtain dek nonce sealed where
      raw: "fs_files fs (sg_tmp st) = Some (objMagic @ nonce @ sealed)" "length nonce = nonceSize"
    and dek: "unwrapDEK c (st_kek s) (sg_wrapped st) (sg_hash st) = Inr dek"
    and dec: "decrypt c dek nonce sealed (sg_hash st) = Inr p"
    and sha: "sg_hash st = c_sha256 c p" and d: "\<not> sg_done st"
    by (auto simp: ready_def)
  have "fs_files fs' (objectPath s (sg_hash st)) = Some (objMagic @ nonce @ sealed)"
    using Commit_files [OF com d] raw by auto
  then show ?thesis
    using raw dek dec sha crypto_ok_sha [OF ok, of p]
    by (simp add: reads_def Open_def no_faults_def Let_def)
qed

lemma Commit_frame:
  assumes ok: "crypto_ok c" and r: "ready c s fs st p"
    and com: "Commit s flt st fs = (res, st', fs')"
    and other: "h \<noteq> sg_hash st \<or> (\<exists>e. res = Inl e)" and h: "reads c s fs h k q"
  shows "reads c s fs' h k q"
proof -
  note len = reads_length [OF h]
  have d: "\<not> sg_done st" using r by (simp add: ready_def)
  have "objectPath s h \<noteq> objectPath s (sg_hash st)" if "h \<noteq> sg_hash st"
    using that objectPath_inject_nonempty address_nonempty len ready_length [OF ok r] by blast
  then have "fs_files fs' (objectPath s h) = fs_files fs (objectPath s h)"
    using Commit_files [OF com d] other ready_temp_not_object [OF r len]
    by (auto split: sum.splits)
  with h show ?thesis using reads_cong by metis
qed

lemma Abort_frame:
  assumes r: "ready c s fs st p" and h: "reads c s fs h k q"
  shows "reads c s (snd (Abort flt st fs)) h k q"
proof -
  have "fs_files (snd (Abort flt st fs)) (objectPath s h) = fs_files fs (objectPath s h)"
    using ready_temp_not_object [OF r reads_length [OF h]]
    by (auto simp: Abort_def remove_temp_def)
  with h show ?thesis using reads_cong by metis
qed

lemma Stage_frame:
  assumes "Stage c s rnd flt r limit fs = (res, fs')" and h: "reads c s fs h k q"
  shows "reads c s fs' h k q"
proof -
  have "objectPath s h \<noteq> temp_path s rnd"
    using temp_path_not_objectPath [OF address_nonempty [OF reads_length [OF h]]] by metis
  then have "fs_files fs' (objectPath s h) = fs_files fs (objectPath s h)"
    using Stage_effect(1) [OF assms(1)] by blast
  with h show ?thesis using reads_cong by metis
qed

lemma Remove_frame:
  assumes "h' \<noteq> h" and "length h = HashSize" and r: "reads c s fs h' k q"
  shows "reads c s (snd (Remove s flt h fs)) h' k q"
proof -
  have "objectPath s h' \<noteq> objectPath s h"
    using assms objectPath_inject_nonempty address_nonempty reads_length [OF r] by blast
  then have "fs_files (snd (Remove s flt h fs)) (objectPath s h') = fs_files fs (objectPath s h')"
    by (simp add: Remove_def)
  with r show ?thesis using reads_cong by metis
qed

section \<open>The interface the file repository relies on\<close>

text \<open>
  A store of immutable contents under addresses, each opened with a key. The environment
  \<open>'e\<close> (primitives and configuration) satisfies \<open>ok\<close>; \<open>'f\<close> says which system calls fail.
  The client keeps a catalogue of (address, key, content) triples; the lemmas say how the
  catalogue stays served across publications and removals.
\<close>

locale content_store =
  fixes ok :: "'e \<Rightarrow> bool"
    and addr_ok :: "'h \<Rightarrow> bool"
    and serves :: "'e \<Rightarrow> 's \<Rightarrow> 'h \<Rightarrow> 'k \<Rightarrow> 'p \<Rightarrow> bool"
    and holds :: "'e \<Rightarrow> 's \<Rightarrow> 'st \<Rightarrow> 'p \<Rightarrow> bool"
    and addr :: "'st \<Rightarrow> 'h"
    and key :: "'st \<Rightarrow> 'k"
    and publish :: "'e \<Rightarrow> 'f \<Rightarrow> 'st \<Rightarrow> 's \<Rightarrow> bool \<times> 's"
    and discard :: "'e \<Rightarrow> 'f \<Rightarrow> 'st \<Rightarrow> 's \<Rightarrow> 's"
    and unlink :: "'e \<Rightarrow> 'f \<Rightarrow> 'h \<Rightarrow> 's \<Rightarrow> 's"
  assumes serves_unique: "serves e s h k p \<Longrightarrow> serves e s h k q \<Longrightarrow> p = q"
    and publish_serves:
      "ok e \<Longrightarrow> holds e s st p \<Longrightarrow> publish e f st s = (True, s') \<Longrightarrow> serves e s' (addr st) (key st) p"
    and publish_frame:
      "ok e \<Longrightarrow> holds e s st p \<Longrightarrow> publish e f st s = (done, s') \<Longrightarrow> h \<noteq> addr st \<or> \<not> done \<Longrightarrow>
       serves e s h k q \<Longrightarrow> serves e s' h k q"
    and discard_frame:
      "holds e s st p \<Longrightarrow> serves e s h k q \<Longrightarrow> serves e (discard e f st s) h k q"
    and unlink_frame:
      "addr_ok h \<Longrightarrow> h' \<noteq> h \<Longrightarrow> serves e s h' k q \<Longrightarrow> serves e (unlink e f h s) h' k q"
begin

definition catalogue :: "'e \<Rightarrow> 's \<Rightarrow> ('h \<times> 'k \<times> 'p) set \<Rightarrow> bool" where
  "catalogue e s C \<longleftrightarrow> (\<forall>(h, k, p) \<in> C. serves e s h k p)"

lemma catalogue_empty: "catalogue e s {}"
  by (simp add: catalogue_def)

lemma catalogue_mono: "catalogue e s C \<Longrightarrow> C' \<subseteq> C \<Longrightarrow> catalogue e s C'"
  by (auto simp: catalogue_def)

lemma catalogue_functional:
  assumes "catalogue e s C" "(h, k, p) \<in> C" "(h, k, q) \<in> C"
  shows "p = q"
proof (rule serves_unique)
  show "serves e s h k p" "serves e s h k q"
    using assms by (auto simp: catalogue_def)
qed

lemma catalogue_publish:
  assumes "ok e" "holds e s st p" "publish e f st s = (True, s')" "catalogue e s C"
    and "\<And>h k q. (h, k, q) \<in> C \<Longrightarrow> h \<noteq> addr st"
  shows "catalogue e s' (insert (addr st, key st, p) C)"
  using assms publish_serves [OF assms(1-3)] publish_frame [OF assms(1-3)]
  unfolding catalogue_def by blast

lemma catalogue_publish_failed:
  assumes "ok e" "holds e s st p" "publish e f st s = (False, s')" "catalogue e s C"
  shows "catalogue e s' C"
  using assms(4) publish_frame [OF assms(1-3)] unfolding catalogue_def by blast

lemma catalogue_discard: "holds e s st p \<Longrightarrow> catalogue e s C \<Longrightarrow> catalogue e (discard e f st s) C"
  unfolding catalogue_def using discard_frame by blast

lemma catalogue_unlink:
  assumes "addr_ok h" "catalogue e s C" and "\<And>h' k q. (h', k, q) \<in> C \<Longrightarrow> h' \<noteq> h"
  shows "catalogue e (unlink e f h s) C"
  using assms unlink_frame unfolding catalogue_def by blast

end

type_synonym store_env = "crypto \<times> store"

definition os_ok :: "store_env \<Rightarrow> bool" where
  "os_ok e = crypto_ok (fst e)"

definition os_addr_ok :: "bytes \<Rightarrow> bool" where
  "os_addr_ok h \<longleftrightarrow> length h = HashSize"

definition os_publish :: "store_env \<Rightarrow> fs_faults \<Rightarrow> staged \<Rightarrow> fsys \<Rightarrow> bool \<times> fsys" where
  "os_publish e flt st fs =
     (case Commit (snd e) flt st fs of (res, _, fs') \<Rightarrow> (case res of Inl _ \<Rightarrow> False | Inr _ \<Rightarrow> True, fs'))"

interpretation os: content_store os_ok os_addr_ok
  "\<lambda>e. reads (fst e) (snd e)" "\<lambda>e. ready (fst e) (snd e)" sg_hash sg_wrapped os_publish
  "\<lambda>e flt st fs. snd (Abort flt st fs)" "\<lambda>e flt h fs. snd (Remove (snd e) flt h fs)"
proof (unfold_locales, goal_cases)
  case (1 e s h k p q)
  then show ?case by (rule reads_unique)
next
  case (2 e s st p f s')
  then show ?case
    unfolding os_ok_def os_publish_def
    by (auto intro: Commit_reads split: prod.splits sum.splits)
next
  case (3 e s st p f d s' h k q)
  then show ?case
    unfolding os_ok_def os_publish_def
    by (auto intro: Commit_frame split: prod.splits sum.splits)
next
  case (4 e s st p h k q f)
  then show ?case by (rule Abort_frame)
next
  case (5 h h' e s k q f)
  then show ?case
    unfolding os_addr_ok_def by (auto intro: Remove_frame)
qed

section \<open>A concrete environment\<close>

text \<open>
  Primitives that satisfy \<open>crypto_ok\<close>, so that the theorems below are seen to apply: the
  digest pads a short message and is constant on long ones, sealing appends key, nonce and
  associated data.
\<close>

definition demo_crypto :: crypto where
  "demo_crypto =
     \<lparr>c_sha256 = (\<lambda>m. if length m < 32 then m @ 1 # replicate (31 - length m) 0 else replicate 32 0),
      c_seal = (\<lambda>k n p a. p @ k @ n @ a),
      c_open = (\<lambda>k n x a. let t = k @ n @ a; l = length x - length t in
         if length t \<le> length x \<and> drop l x = t then Some (take l x) else None),
      c_argon2id = (\<lambda>p s t m th l. take l (p @ s @ replicate l 0))\<rparr>"

lemma length_take_pad: "length (take n (xs @ replicate n x)) = n"
  by simp

lemma demo_crypto_ok: "crypto_ok demo_crypto"
proof -
  have "length (take l (p @ s @ replicate l (0::byte))) = l" for l p s
    using length_take_pad [of l "p @ s"] by (simp only: append.assoc)
  then show ?thesis
    unfolding crypto_ok_def demo_crypto_def HashSize_def
    by (simp add: Let_def del: length_take)
qed

lemma dropWhile_zeros: "dropWhile ((=) 0) (replicate k 0 @ 1 # xs) = 1 # (xs :: byte list)"
  by (induction k) simp_all

text \<open>The demonstration digest does not collide on short messages.\<close>

lemma demo_sha_inject:
  assumes "length q < 32" and "c_sha256 demo_crypto p = c_sha256 demo_crypto q"
  shows "p = q"
proof -
  define unpad where "unpad h = rev (tl (dropWhile ((=) (0::byte)) (rev h)))" for h
  have un: "unpad (c_sha256 demo_crypto m) = m" if "length m < 32" for m
    using that by (simp add: unpad_def demo_crypto_def dropWhile_zeros)
  have "length p < 32"
  proof (rule ccontr)
    assume "\<not> length p < 32"
    then have "1 \<notin> set (c_sha256 demo_crypto p)" by (simp add: demo_crypto_def)
    moreover have "1 \<in> set (c_sha256 demo_crypto q)" using assms(1) by (simp add: demo_crypto_def)
    ultimately show False using assms(2) by simp
  qed
  then have "unpad (c_sha256 demo_crypto p) = p" by (rule un)
  then show ?thesis unfolding assms(2) un [OF assms(1)] by (rule sym)
qed

definition demo_store :: store where
  "demo_store = \<lparr>st_root = ''data'', st_kek = replicate 32 7\<rparr>"

definition demo_fs :: fsys where
  "demo_fs = \<lparr>fs_files = Map.empty, fs_dirs = {}\<rparr>"

definition demo_random :: "nat \<Rightarrow> stage_random" where
  "demo_random n = \<lparr>sr_dek = Some (\<lambda>i. of_nat (i + n)), sr_wrap = Some (\<lambda>i. 1),
     sr_content = Some (\<lambda>i. 2), sr_suffix = n\<rparr>"

definition demo_reader :: "bytes \<Rightarrow> reader" where
  "demo_reader bs = \<lparr>rd_data = bs, rd_err = None\<rparr>"

definition staged_of :: "(storage_error + staged) \<times> fsys \<Rightarrow> staged" where
  "staged_of x = (case fst x of Inr st \<Rightarrow> st | Inl _ \<Rightarrow> \<lparr>sg_hash = [], sg_size = 0, sg_wrapped = [],
     sg_tmp = [], sg_done = True\<rparr>)"

lemma staged_of_Inr: "\<not> isl (fst x) \<Longrightarrow> x = (Inr (staged_of x), snd x)"
  by (cases x) (auto simp: staged_of_def split: sum.splits)

section \<open>Properties of the storage engine\<close>

lemma read_all_limited_short:
  "read_all_limited n r = Inr p \<Longrightarrow> int (length p) < n \<Longrightarrow> p = rd_data r"
  by (auto simp: read_all_limited_def min_def split: if_splits option.splits)

lemma sint_succ: "sint (l :: int64) < 2 ^ 63 - 1 \<Longrightarrow> sint (l + 1) = sint l + 1"
  using sint_ge [of l] by (simp add: sint_word_ariths signed_take_bit_int_eq_self_iff)

text \<open>
  C8 Storing and opening: content that was staged within its limit and committed is what
  \<open>Open\<close> returns at the staged address with the staged wrapped key; the address is the
  SHA-256 of the content and the recorded size is its length. No assumption is made on what
  else the file system holds.
\<close>

theorem store_roundtrip:
  assumes "crypto_ok c" and "sint limit < 2 ^ 63 - 1"
    and "Stage c s rnd flt r limit fs = (Inr st, fs1)"
    and "Commit s flt' st fs1 = (Inr u, st', fs2)" and "\<not> flt'' CallReadFile"
  shows "Open c s flt'' fs2 (sg_hash st) (sg_wrapped st) = Inr (rd_data r) \<and>
    sg_hash st = c_sha256 c (rd_data r) \<and> sg_size st = int (length (rd_data r))"
proof -
  obtain p where p: "read_all_limited (sint (limit + 1)) r = Inr p" "int (length p) \<le> sint limit"
      and r: "ready c s fs1 st p"
    using Stage_ready [OF assms(1,3)] by metis
  have "p = rd_data r"
    using p read_all_limited_short sint_succ [OF assms(2)] by simp
  moreover have "reads c s fs2 (sg_hash st) (sg_wrapped st) p"
    by (rule Commit_reads [OF assms(1) r assms(4)])
  ultimately show ?thesis
    using r assms(5) by (simp add: ready_def Open_reads)
qed

theorem store_roundtrip_witness:
  "let x = Stage demo_crypto demo_store (demo_random 5) no_faults (demo_reader [1, 2, 3]) 10 demo_fs;
       y = Commit demo_store no_faults (staged_of x) (snd x)
   in Open demo_crypto demo_store no_faults (snd (snd y)) (sg_hash (staged_of x))
        (sg_wrapped (staged_of x)) = Inr [1, 2, 3]"
proof -
  define x where "x = Stage demo_crypto demo_store (demo_random 5) no_faults
      (demo_reader [1, 2, 3]) 10 demo_fs"
  define y where "y = Commit demo_store no_faults (staged_of x) (snd x)"
  have "\<not> isl (fst x)" unfolding x_def by code_simp
  then have x: "Stage demo_crypto demo_store (demo_random 5) no_faults (demo_reader [1, 2, 3]) 10 demo_fs
      = (Inr (staged_of x), snd x)"
    using staged_of_Inr x_def by metis
  have "\<not> isl (fst y)" unfolding y_def x_def by code_simp
  then have "y = (Inr (), fst (snd y), snd (snd y))"
    by (cases y; cases "fst y") auto
  then have y: "Commit demo_store no_faults (staged_of x) (snd x) = (Inr (), fst (snd y), snd (snd y))"
    unfolding y_def .
  have "Open demo_crypto demo_store no_faults (snd (snd y)) (sg_hash (staged_of x))
      (sg_wrapped (staged_of x)) = Inr [1, 2, 3]"
    using store_roundtrip [OF demo_crypto_ok _ x y, of no_faults, THEN conjunct1]
    by (simp add: no_faults_def demo_reader_def)
  then show ?thesis by (simp add: x_def y_def Let_def)
qed

text \<open>
  C9 What \<open>Open\<close> releases: plaintext comes out exactly when the address is well-formed, the
  file at its path carries the magic and a nonce, the wrapped key authenticates under the
  master key with the address as associated data, the ciphertext authenticates under that
  data key with the same address, and the plaintext hashes to the address.
\<close>

theorem open_releases_iff_verified:
  "Open c s flt fs h k = Inr q \<longleftrightarrow>
     length h = HashSize \<and> \<not> flt CallReadFile \<and> c_sha256 c q = h \<and>
     (\<exists>nonce sealed dek. fs_files fs (objectPath s h) = Some (objMagic @ nonce @ sealed) \<and>
        length nonce = nonceSize \<and> unwrapDEK c (st_kek s) k h = Inr dek \<and>
        decrypt c dek nonce sealed h = Inr q)"
  (is "?open \<longleftrightarrow> ?verified")
proof
  assume o: ?open
  then have nf: "\<not> flt CallReadFile" by (auto simp: Open_def split: if_splits)
  from o obtain raw dek where r: "length h = HashSize" "fs_files fs (objectPath s h) = Some raw"
      "unwrapDEK c (st_kek s) k h = Inr dek" "c_sha256 c q = h"
      "decrypt c dek (take nonceSize (drop (length objMagic) raw))
         (drop (length objMagic + nonceSize) raw) h = Inr q"
    by (rule Open_Inr) blast
  from o r(1,2) nf have len: "length objMagic + nonceSize \<le> length raw"
      and magic: "take (length objMagic) raw = objMagic"
    by (auto simp: Open_def split: if_splits)
  have "raw = objMagic @ take nonceSize (drop (length objMagic) raw) @ drop (length objMagic + nonceSize) raw"
    using magic append_take_drop_id [of "length objMagic" raw]
      append_take_drop_id [of nonceSize "drop (length objMagic) raw"]
    by (simp add: add.commute)
  with r nf len show ?verified
    by (intro conjI exI [of _ "take nonceSize (drop (length objMagic) raw)"]
        exI [of _ "drop (length objMagic + nonceSize) raw"] exI [of _ dek]) simp_all
next
  assume ?verified
  then show ?open by (auto simp: Open_def Let_def)
qed

text \<open>
  Tamper and relocation evidence: whatever an attacker does to the file system and to the
  wrapped key, \<open>Open\<close> at the address of \<open>p\<close> returns \<open>p\<close> or the attacker has a SHA-256
  collision with \<open>p\<close>; and at any other address \<open>p\<close> is never returned, so a relocated object
  is not served.
\<close>

theorem open_tamper_evident:
  assumes "Open c s flt fs h k = Inr q"
  shows "(h = c_sha256 c p \<longrightarrow> q = p \<or> (q \<noteq> p \<and> c_sha256 c q = c_sha256 c p)) \<and>
    (h \<noteq> c_sha256 c p \<longrightarrow> q \<noteq> p)"
  using assms by (auto elim: Open_Inr)

text \<open>
  The size limit holds while receiving: content longer than a (non-extreme) positive limit
  is refused with \<open>ErrTooLarge\<close> before the file system is touched, whatever follows in the
  stream, even if reading on would fail.
\<close>

theorem stage_oversized_rejected:
  assumes "0 < sint limit" and "sint limit < 2 ^ 63 - 1" and "sint limit < int (length (rd_data r))"
  shows "Stage c s rnd flt r limit fs = (Inl SErrTooLarge, fs)"
  using assms by (simp add: Stage_def read_all_limited_def sint_succ nat_add_distrib)

theorem stage_oversized_rejected_witness:
  "Stage demo_crypto demo_store (demo_random 1) no_faults
     \<lparr>rd_data = [1, 2, 3, 4], rd_err = Some OtherReadError\<rparr> 3 demo_fs = (Inl SErrTooLarge, demo_fs)"
  by (rule stage_oversized_rejected) simp_all

text \<open>
  A failed \<open>Stage\<close> leaves no file behind: unless the clean-up unlink itself fails, the
  files after any error are the files before, and in no case is a path other than the
  temporary one touched.
\<close>

theorem stage_failure_leaves_no_file:
  assumes "Stage c s rnd flt r limit fs = (Inl e, fs')"
  shows "(\<not> flt CallCleanup \<longrightarrow> fs_files fs' = fs_files fs) \<and>
    (\<forall>q. q \<noteq> temp_path s rnd \<longrightarrow> fs_files fs' q = fs_files fs q)"
  using Stage_effect [OF assms] by blast

theorem stage_failure_leaves_no_file_witness:
  "fs_files (snd (Stage demo_crypto demo_store (demo_random 1) (\<lambda>x. x = CallSync) (demo_reader [1]) 3
     demo_fs)) = fs_files demo_fs"
proof -
  define x where "x = Stage demo_crypto demo_store (demo_random 1) (\<lambda>x. x = CallSync) (demo_reader [1]) 3
     demo_fs"
  have "isl (fst x)" unfolding x_def by code_simp
  then obtain e where "x = (Inl e, snd x)" by (cases x) (auto simp: isl_def)
  then have "fs_files (snd x) = fs_files demo_fs"
    unfolding x_def using stage_failure_leaves_no_file by blast
  then show ?thesis unfolding x_def .
qed

text \<open>
  The extreme limit: with a limit of the largest \<open>int64\<close>, \<open>limit+1\<close> wraps to a negative
  number, nothing of the stream is read, and whatever the client sends is staged as empty
  content.
\<close>

theorem stage_max_limit_stores_empty:
  assumes "sint limit = 2 ^ 63 - 1" and "Stage c s rnd flt r limit fs = (Inr st, fs')"
  shows "sg_size st = 0 \<and> sg_hash st = c_sha256 c []"
proof -
  have "limit = 2 ^ 63 - 1"
    using assms(1) by (intro signed_word_eqI) simp
  then have "sint (limit + 1) \<le> 0" by simp
  with assms(2) show ?thesis
    by (auto simp: Stage_def read_all_limited_def Let_def split: if_splits sum.splits prod.splits)
qed

theorem stage_max_limit_stores_empty_witness:
  "let x = Stage demo_crypto demo_store (demo_random 1) no_faults (demo_reader [1, 2, 3])
     9223372036854775807 demo_fs
   in \<not> isl (fst x) \<and> sg_size (staged_of x) = 0"
proof -
  define x where "x = Stage demo_crypto demo_store (demo_random 1) no_faults (demo_reader [1, 2, 3])
     9223372036854775807 demo_fs"
  have r: "\<not> isl (fst x)" unfolding x_def by code_simp
  then have "Stage demo_crypto demo_store (demo_random 1) no_faults (demo_reader [1, 2, 3])
     9223372036854775807 demo_fs = (Inr (staged_of x), snd x)"
    using staged_of_Inr x_def by metis
  from stage_max_limit_stores_empty [OF _ this] have "sg_size (staged_of x) = 0"
    by simp
  with r show ?thesis
    unfolding x_def by (simp only: Let_def simp_thms)
qed

text \<open>
  Object paths: two content addresses share a file only if they are equal, no object file
  is a temporary file, and the path is the cleaned root followed by \<open>objects\<close> and
  components made of hexadecimal digits, so nothing an uploader controls can steer it.
\<close>

theorem object_paths_injective_and_confined:
  assumes "length h = HashSize" and "length h' = HashSize"
  shows "(objectPath s h = objectPath s h' \<longleftrightarrow> h = h') \<and> temp_path s rnd \<noteq> objectPath s h \<and>
    objectPath s h = (if has_prefix (st_root s) ''/'' then ''/'' else []) @
      intercalate ''/'' (dir_components (st_root s) @
        [''objects'', take 2 (hex_encode h), hex_encode h @ ''.obj'']) \<and>
    set (hex_encode h) \<subseteq> set hex_alphabet \<and> length (hex_encode h) = 64"
proof -
  note ne = address_nonempty [OF assms(1)] address_nonempty [OF assms(2)]
  have "objectPath s h = objectPath s h' \<longleftrightarrow> h = h'"
    using objectPath_inject_nonempty [OF ne] by auto
  moreover have "length (hex_encode h) = 64"
    using assms(1) by (simp add: length_hex_encode HashSize_def)
  ultimately show ?thesis
    using temp_path_not_objectPath [OF ne(1)] objectPath_form [OF ne(1)] set_hex_encode by blast
qed

theorem object_paths_injective_and_confined_witness:
  "objectPath demo_store (replicate 32 0) \<noteq> objectPath demo_store (replicate 32 1)"
  using object_paths_injective_and_confined [of "replicate 32 0" "replicate 32 1" demo_store,
      THEN conjunct1]
  by (simp add: HashSize_def)

text \<open>
  A staged object is finalised once: after \<open>Commit\<close>, whatever its outcome, or after
  \<open>Abort\<close>, another \<open>Commit\<close> is refused and another \<open>Abort\<close> does nothing.
\<close>

theorem staged_finalised_once:
  assumes "Commit s flt st fs = (res, st', fs') \<or> Abort flt st fs = (st', fs')"
  shows "Commit s flt2 st' fs2 = (Inl (SErrOther ''storage: staged object already finalized''), st', fs2) \<and>
    Abort flt2 st' fs2 = (st', fs2)"
proof -
  have "sg_done st'"
    using assms Commit_done by (auto simp: Abort_def split: if_splits)
  then show ?thesis by (simp add: Commit_def Abort_def)
qed

theorem staged_finalised_once_witness:
  "let st = \<lparr>sg_hash = [], sg_size = 0, sg_wrapped = [], sg_tmp = ''t'', sg_done = False\<rparr>;
       st' = fst (Abort no_faults st demo_fs)
   in st' \<noteq> st \<and> Abort no_faults st' demo_fs = (st', demo_fs)"
proof -
  let ?st = "\<lparr>sg_hash = [], sg_size = 0, sg_wrapped = [], sg_tmp = ''t'', sg_done = False\<rparr>"
  have "Abort no_faults (fst (Abort no_faults ?st demo_fs)) demo_fs = (fst (Abort no_faults ?st demo_fs), demo_fs)"
    using staged_finalised_once [of demo_store no_faults ?st demo_fs] by (metis surjective_pairing)
  then show ?thesis by (simp add: Let_def Abort_def)
qed

end
