(* ===== verification/Passwords.thy ===== *)
theory Passwords
  imports Object_Store
begin

text \<open>
  Password hashing and session tokens, \<^verbatim>\<open>internal/auth/password.go\<close> and \<^verbatim>\<open>token.go\<close>: the
  PHC string format with the scanner of \<^verbatim>\<open>fmt.Sscanf\<close> written out, verification against a
  stored string, and opaque tokens stored by their digest.
\<close>

section \<open>Constants and errors\<close>

definition argonMemoryKiB :: nat where "argonMemoryKiB = 64 * 1024"
definition argonTime :: nat where "argonTime = 3"
definition argonThreads :: nat where "argonThreads = 4"
definition argonSaltLen :: nat where "argonSaltLen = 16"
definition argonKeyLen :: nat where "argonKeyLen = 32"

definition argon2_Version :: nat where "argon2_Version = 19"

lemmas argon_defs = argonMemoryKiB_def argonTime_def argonThreads_def argonSaltLen_def argonKeyLen_def
  argon2_Version_def

datatype password_error =
    GenerateSalt | MalformedPasswordHash | UnsupportedHashVersion | MalformedParameters
  | MalformedSalt | MalformedHash

record phc =
  phc_salt :: bytes
  phc_key :: bytes
  phc_memory :: nat
  phc_time :: nat
  phc_threads :: nat

section \<open>fmt.Sscanf\<close>

text \<open>
  Before a verb the scanner skips white space. A line feed is an error in a string scanned by a format; of a
  carriage return and a line feed only the carriage return is skipped, so the pair is an error as well.
\<close>

fun skip_space :: "rune list \<Rightarrow> rune list option" where
  "skip_space [] = Some []"
| "skip_space (r # rs) =
     (if r = 10 then None
      else if is_space r then skip_space rs
      else Some (r # rs))"

definition digit_rune :: "rune \<Rightarrow> bool" where
  "digit_rune r \<longleftrightarrow> 48 \<le> r \<and> r \<le> 57"

definition runes_value :: "rune list \<Rightarrow> nat" where
  "runes_value = foldl (\<lambda>n r. 10 * n + (r - 48)) 0"

text \<open>\<^verbatim>\<open>%d\<close> into a \<^verbatim>\<open>uint32\<close>: digits without a sign, in range.\<close>

definition scan_uint32 :: "rune list \<Rightarrow> (nat \<times> rune list) option" where
  "scan_uint32 rs = (case skip_space rs of
     None \<Rightarrow> None
   | Some rs' \<Rightarrow>
       let ds = takeWhile digit_rune rs'; n = runes_value ds
       in if ds = [] \<or> 2 ^ 32 \<le> n then None else Some (n, dropWhile digit_rune rs'))"

text \<open>\<^verbatim>\<open>%d\<close> into an \<^verbatim>\<open>int\<close>: an optional sign, then digits.\<close>

definition scan_int :: "rune list \<Rightarrow> (int \<times> rune list) option" where
  "scan_int rs = (case skip_space rs of
     None \<Rightarrow> None
   | Some rs' \<Rightarrow>
       let neg = (rs' \<noteq> [] \<and> hd rs' = 45);
           body = (if rs' \<noteq> [] \<and> (hd rs' = 43 \<or> hd rs' = 45) then tl rs' else rs');
           ds = takeWhile digit_rune body;
           n = (if neg then - int (runes_value ds) else int (runes_value ds))
       in if ds = [] \<or> n < - (2 ^ 63) \<or> 2 ^ 63 \<le> n then None else Some (n, dropWhile digit_rune body))"

text \<open>Literal text of the format has to match the input exactly.\<close>

definition scan_literal :: "string \<Rightarrow> rune list \<Rightarrow> rune list option" where
  "scan_literal lit rs =
     (if take (length lit) rs = codes lit then Some (drop (length lit) rs) else None)"

text \<open>\<^verbatim>\<open>Sscanf(s, "v=%d", &version)\<close>; input left over is not an error.\<close>

definition sscanf_version :: "string \<Rightarrow> int option" where
  "sscanf_version s = (case scan_literal ''v='' (runes s) of
     None \<Rightarrow> None | Some rs \<Rightarrow> map_option fst (scan_int rs))"

text \<open>\<^verbatim>\<open>Sscanf(s, "m=%d,t=%d,p=%d", &m, &t, &p)\<close>\<close>

definition sscanf_parameters :: "string \<Rightarrow> (nat \<times> nat \<times> nat) option" where
  "sscanf_parameters s =
     (case scan_literal ''m='' (runes s) of None \<Rightarrow> None | Some r1 \<Rightarrow>
      case scan_uint32 r1 of None \<Rightarrow> None | Some (m, r2) \<Rightarrow>
      case scan_literal '',t='' r2 of None \<Rightarrow> None | Some r3 \<Rightarrow>
      case scan_uint32 r3 of None \<Rightarrow> None | Some (t, r4) \<Rightarrow>
      case scan_literal '',p='' r4 of None \<Rightarrow> None | Some r5 \<Rightarrow>
      case scan_uint32 r5 of None \<Rightarrow> None | Some (p, _) \<Rightarrow> Some (m, t, p))"

section \<open>password.go\<close>

definition phc_string :: "nat \<Rightarrow> nat \<Rightarrow> nat \<Rightarrow> nat \<Rightarrow> bytes \<Rightarrow> bytes \<Rightarrow> string" where
  "phc_string v m t p salt key =
     ''$argon2id$v='' @ decimal v @ ''$m='' @ decimal m @ '',t='' @ decimal t @ '',p='' @ decimal p @
     ''$'' @ base64_raw_encode salt @ ''$'' @ base64_raw_encode key"

definition HashPassword :: "crypto \<Rightarrow> rand_source \<Rightarrow> string \<Rightarrow> password_error + string" where
  "HashPassword c rnd password = (case rand_read argonSaltLen rnd of
     None \<Rightarrow> Inl GenerateSalt
   | Some salt \<Rightarrow>
       let key = c_argon2id c (bytes_of_string password) salt argonTime argonMemoryKiB argonThreads argonKeyLen
       in Inr (phc_string argon2_Version argonMemoryKiB argonTime argonThreads salt key))"

definition parsePHC :: "string \<Rightarrow> password_error + phc" where
  "parsePHC encoded =
     (let parts = split_char (CHR ''$'') encoded in
      if length parts \<noteq> 6 \<or> parts ! 0 \<noteq> [] \<or> parts ! 1 \<noteq> ''argon2id'' then Inl MalformedPasswordHash
      else if sscanf_version (parts ! 2) \<noteq> Some (int argon2_Version) then Inl UnsupportedHashVersion
      else case sscanf_parameters (parts ! 3) of
        None \<Rightarrow> Inl MalformedParameters
      | Some (m, t, p) \<Rightarrow>
          if m = 0 \<or> t = 0 \<or> p = 0 \<or> 255 < p then Inl MalformedParameters
          else case base64_raw_decode (parts ! 4) of
            None \<Rightarrow> Inl MalformedSalt
          | Some salt \<Rightarrow>
              case base64_raw_decode (parts ! 5) of
                None \<Rightarrow> Inl MalformedHash
              | Some key \<Rightarrow>
                  if key = [] then Inl MalformedHash
                  else Inr \<lparr>phc_salt = salt, phc_key = key, phc_memory = m, phc_time = t, phc_threads = p\<rparr>)"

text \<open>The key length passed to \<^verbatim>\<open>argon2.IDKey\<close> is \<^verbatim>\<open>uint32(len(key))\<close>.\<close>

definition VerifyPassword :: "crypto \<Rightarrow> string \<Rightarrow> string \<Rightarrow> password_error + bool" where
  "VerifyPassword c password encoded = (case parsePHC encoded of
     Inl e \<Rightarrow> Inl e
   | Inr h \<Rightarrow>
       Inr (c_argon2id c (bytes_of_string password) (phc_salt h) (phc_time h) (phc_memory h)
              (phc_threads h) (length (phc_key h) mod 2 ^ 32) = phc_key h))"

text \<open>
  \<^verbatim>\<open>mustDummyHash\<close> panics when the random source fails (\<open>None\<close>); \<^verbatim>\<open>EqualizeTiming\<close> discards the
  result of a verification, so only its cost is of interest: the parameters it runs with.
\<close>

definition mustDummyHash :: "crypto \<Rightarrow> rand_source \<Rightarrow> string option" where
  "mustDummyHash c rnd = (case HashPassword c rnd ''timing-equalization-dummy'' of
     Inl _ \<Rightarrow> None | Inr h \<Rightarrow> Some h)"

definition verify_cost :: "string \<Rightarrow> (nat \<times> nat \<times> nat \<times> nat) option" where
  "verify_cost encoded = (case parsePHC encoded of
     Inl _ \<Rightarrow> None
   | Inr h \<Rightarrow> Some (phc_time h, phc_memory h, phc_threads h, length (phc_key h) mod 2 ^ 32))"

definition EqualizeTiming :: "crypto \<Rightarrow> string \<Rightarrow> string \<Rightarrow> unit" where
  "EqualizeTiming c dummyHash password = (let _ = VerifyPassword c password dummyHash in ())"

section \<open>token.go\<close>

definition tokenBytes :: nat where "tokenBytes = 32"

definition HashToken :: "crypto \<Rightarrow> string \<Rightarrow> bytes" where
  "HashToken c token = c_sha256 c (bytes_of_string token)"

definition NewSessionToken :: "crypto \<Rightarrow> rand_source \<Rightarrow> (string \<times> bytes) option" where
  "NewSessionToken c rnd = (case rand_read tokenBytes rnd of
     None \<Rightarrow> None
   | Some raw \<Rightarrow> let token = base64_url_encode raw in Some (token, HashToken c token))"

section \<open>Scanning what was printed\<close>

lemma codes_digits: "list_all is_digit s \<Longrightarrow> list_all digit_rune (codes s)"
  by (induction s) (simp_all add: is_digit_def digit_rune_def)

lemma codes_decimal_digits: "list_all digit_rune (codes (decimal n))"
  by (simp add: codes_digits decimal_digits)

lemma codes_decimal_nonempty [simp]: "codes (decimal n) \<noteq> []"
  by (simp add: codes_def)

lemma runes_value_decimal: "runes_value (codes (decimal n)) = n"
proof (induction n rule: decimal.induct)
  case (1 n)
  show ?case
  proof (cases "n < 10")
    case True
    then show ?thesis
      by (simp add: decimal.simps [of n] runes_value_def codes_def)
  next
    case False
    have "runes_value (codes (decimal (n div 10)) @ [48 + n mod 10]) = 10 * (n div 10) + n mod 10"
      using 1 False by (simp add: runes_value_def)
    with False show ?thesis
      by (simp add: decimal.simps [of n])
  qed
qed

lemma digit_rune_not_space: "digit_rune r \<Longrightarrow> r \<noteq> 13 \<and> r \<noteq> 10 \<and> \<not> is_space r"
  by (auto simp: digit_rune_def is_space_def)

lemma skip_space_digits: "list_all digit_rune ds \<Longrightarrow> ds \<noteq> [] \<Longrightarrow> skip_space (ds @ rs) = Some (ds @ rs)"
  using digit_rune_not_space by (cases ds) auto

lemma span_digits:
  assumes "list_all digit_rune ds" and "rs = [] \<or> \<not> digit_rune (hd rs)"
  shows "takeWhile digit_rune (ds @ rs) = ds" "dropWhile digit_rune (ds @ rs) = rs"
  using assms by (cases rs; induction ds; simp)+

lemma scan_uint32_decimal:
  assumes "n < 2 ^ 32" and "rs = [] \<or> \<not> digit_rune (hd rs)"
  shows "scan_uint32 (codes (decimal n) @ rs) = Some (n, rs)"
  using assms(1) skip_space_digits [OF codes_decimal_digits codes_decimal_nonempty]
    span_digits [OF codes_decimal_digits assms(2)]
  by (simp add: scan_uint32_def runes_value_decimal)

lemma scan_int_decimal:
  assumes "n < 2 ^ 63" and "rs = [] \<or> \<not> digit_rune (hd rs)"
  shows "scan_int (codes (decimal n) @ rs) = Some (int n, rs)"
proof -
  obtain d ds where d: "codes (decimal n) = d # ds" "digit_rune d"
    using codes_decimal_nonempty [of n] codes_decimal_digits [of n]
    by (cases "codes (decimal n)") auto
  then have "d \<noteq> 45" "d \<noteq> 43" by (auto simp: digit_rune_def)
  with d show ?thesis
    using assms(1) skip_space_digits [OF codes_decimal_digits codes_decimal_nonempty, of n rs]
      span_digits [OF codes_decimal_digits assms(2), of n] runes_value_decimal [of n]
    by (simp add: scan_int_def Let_def)
qed

lemma scan_literal_append: "scan_literal lit (codes lit @ rs) = Some rs"
  by (simp add: scan_literal_def codes_def)

lemma ascii_simps [simp]: "ascii []" "ascii (c # s) \<longleftrightarrow> of_char c < (128 :: nat) \<and> ascii s"
  by (simp_all add: ascii_def)

lemma ascii_append [simp]: "ascii (s @ t) \<longleftrightarrow> ascii s \<and> ascii t"
  by (auto simp: ascii_def)

lemma ascii_decimal [simp]: "ascii (decimal n)"
  using decimal_digits [of n] by (fastforce simp: ascii_def list_all_iff is_digit_def)

lemma runes_codes: "ascii s \<Longrightarrow> runes s = codes s"
  by (simp add: runes_ascii codes_def)

lemma sscanf_version_printed:
  "v < 2 ^ 63 \<Longrightarrow> sscanf_version (''v='' @ decimal v) = Some (int v)"
proof -
  assume v: "v < 2 ^ 63"
  have "runes (''v='' @ decimal v) = codes ''v='' @ codes (decimal v) @ []"
    by (subst runes_codes) (simp_all add: ascii_def [of "''v=''"] del: append_Cons)
  then show ?thesis
    using scan_int_decimal [OF v, of "[]"]
    by (simp add: sscanf_version_def scan_literal_append del: codes_simps append_Nil2)
qed

lemma sscanf_parameters_printed:
  assumes "m < 2 ^ 32" and "t < 2 ^ 32" and "p < 2 ^ 32"
  shows "sscanf_parameters (''m='' @ decimal m @ '',t='' @ decimal t @ '',p='' @ decimal p) = Some (m, t, p)"
proof -
  have r: "runes (''m='' @ decimal m @ '',t='' @ decimal t @ '',p='' @ decimal p) =
      codes ''m='' @ codes (decimal m) @ codes '',t='' @ codes (decimal t) @ codes '',p='' @ codes (decimal p) @ []"
    by (subst runes_codes)
      (simp_all add: ascii_def [of "''m=''"] ascii_def [of "'',t=''"] ascii_def [of "'',p=''"] del: append_Cons)
  have l: "codes '',t='' @ rs = [] \<or> \<not> digit_rune (hd (codes '',t='' @ rs))"
    "codes '',p='' @ rs = [] \<or> \<not> digit_rune (hd (codes '',p='' @ rs))" for rs
    by (simp_all add: codes_def digit_rune_def)
  show ?thesis
    unfolding sscanf_parameters_def r
    using scan_uint32_decimal [OF assms(1) l(1)] scan_uint32_decimal [OF assms(2) l(2)]
      scan_uint32_decimal [OF assms(3), of "[]"]
    by (simp add: scan_literal_append del: codes_simps append_Nil2)
qed

section \<open>The PHC round trip\<close>

lemma decimal_no_dollar [simp]: "CHR ''$'' \<notin> set (decimal n)"
  using decimal_digits [of n] by (auto simp: list_all_iff is_digit_def)

lemma base64_no_dollar [simp]: "CHR ''$'' \<notin> set (base64_raw_encode bs)"
  using set_base64_raw_encode [of bs] by (auto simp: base64_std_alphabet_def)

lemma split_phc_string:
  "split_char (CHR ''$'') (phc_string v m t p salt key) =
     [[], ''argon2id'', ''v='' @ decimal v, ''m='' @ decimal m @ '',t='' @ decimal t @ '',p='' @ decimal p,
      base64_raw_encode salt, base64_raw_encode key]"
proof -
  have eq: "phc_string v m t p salt key = [] @ CHR ''$'' # ''argon2id'' @ CHR ''$'' # (''v='' @ decimal v) @
      CHR ''$'' # (''m='' @ decimal m @ '',t='' @ decimal t @ '',p='' @ decimal p) @ CHR ''$'' #
      base64_raw_encode salt @ CHR ''$'' # base64_raw_encode key"
    by (simp add: phc_string_def)
  show ?thesis
    unfolding eq by (subst split_char_append, simp)+ (simp add: split_char_none)
qed

lemma parse_phc_string:
  assumes "0 < m" "m < 2 ^ 32" "0 < t" "t < 2 ^ 32" "0 < p" "p \<le> 255" "key \<noteq> []"
  shows "parsePHC (phc_string argon2_Version m t p salt key) =
    Inr \<lparr>phc_salt = salt, phc_key = key, phc_memory = m, phc_time = t, phc_threads = p\<rparr>"
proof -
  have "p < 2 ^ 32" using assms(6) by simp
  note parameters = sscanf_parameters_printed [OF assms(2,4) this]
  have version: "sscanf_version (''v='' @ decimal argon2_Version) = Some (int argon2_Version)"
    by (rule sscanf_version_printed) (simp add: argon2_Version_def)
  show ?thesis
    using assms parameters version
    by (simp add: parsePHC_def split_phc_string base64_raw_roundtrip del: append_Cons decimal.simps)
qed

lemma HashPassword_Inr:
  assumes "HashPassword c rnd pw = Inr h"
  obtains salt where "rand_read argonSaltLen rnd = Some salt"
    "h = phc_string argon2_Version argonMemoryKiB argonTime argonThreads salt
           (c_argon2id c (bytes_of_string pw) salt argonTime argonMemoryKiB argonThreads argonKeyLen)"
  using assms by (auto simp: HashPassword_def Let_def split: option.splits)

lemma parse_hashed:
  assumes "crypto_ok c" and "HashPassword c rnd pw = Inr h"
  obtains salt where "rand_read argonSaltLen rnd = Some salt"
    "parsePHC h = Inr \<lparr>phc_salt = salt,
       phc_key = c_argon2id c (bytes_of_string pw) salt argonTime argonMemoryKiB argonThreads argonKeyLen,
       phc_memory = argonMemoryKiB, phc_time = argonTime, phc_threads = argonThreads\<rparr>"
    "length (c_argon2id c (bytes_of_string pw) salt argonTime argonMemoryKiB argonThreads argonKeyLen) =
       argonKeyLen"
proof -
  obtain salt where r: "rand_read argonSaltLen rnd = Some salt"
    and h: "h = phc_string argon2_Version argonMemoryKiB argonTime argonThreads salt
           (c_argon2id c (bytes_of_string pw) salt argonTime argonMemoryKiB argonThreads argonKeyLen)"
    using assms(2) by (rule HashPassword_Inr)
  note len = crypto_ok_argon [OF assms(1)]
  have "parsePHC h = Inr \<lparr>phc_salt = salt,
       phc_key = c_argon2id c (bytes_of_string pw) salt argonTime argonMemoryKiB argonThreads argonKeyLen,
       phc_memory = argonMemoryKiB, phc_time = argonTime, phc_threads = argonThreads\<rparr>"
    unfolding h
  proof (rule parse_phc_string)
    show "c_argon2id c (bytes_of_string pw) salt argonTime argonMemoryKiB argonThreads argonKeyLen \<noteq> []"
      using len [of "bytes_of_string pw" salt argonTime argonMemoryKiB argonThreads argonKeyLen]
      by (auto simp: argonKeyLen_def)
  qed (simp_all add: argonMemoryKiB_def argonTime_def argonThreads_def)
  with r len that show thesis by blast
qed

lemma ascii_base64 [simp]: "ascii (base64_raw_encode bs)"
  using set_base64_raw_encode [of bs] by (fastforce simp: ascii_def base64_std_alphabet_def)

text \<open>What is stored is printable ASCII, so the database accepts it.\<close>

lemma ascii_hashed: "HashPassword c rnd pw = Inr h \<Longrightarrow> ascii h"
  by (erule HashPassword_Inr) (simp add: phc_string_def)

lemma verify_hashed:
  assumes "crypto_ok c" and "HashPassword c rnd pw = Inr h"
  shows "VerifyPassword c pw h = Inr True"
  by (rule parse_hashed [OF assms]) (simp add: VerifyPassword_def argonKeyLen_def)

section \<open>Properties\<close>

text \<open>
  C32 Hashing and verifying a password: a string made by \<open>HashPassword\<close> parses, and verifying
  any candidate against it recomputes Argon2id with the stored salt and parameters and succeeds
  exactly when the two derived keys agree; the original password is always accepted.
\<close>

theorem password_hash_verifies:
  assumes "crypto_ok c" and "HashPassword c rnd pw = Inr h"
  shows "VerifyPassword c pw h = Inr True \<and>
    (\<exists>salt. rand_read 16 rnd = Some salt \<and>
       (\<forall>q. VerifyPassword c q h = Inr (c_argon2id c (bytes_of_string q) salt 3 65536 4 32 =
                                       c_argon2id c (bytes_of_string pw) salt 3 65536 4 32)))"
proof -
  obtain salt where "rand_read argonSaltLen rnd = Some salt"
    "parsePHC h = Inr \<lparr>phc_salt = salt,
       phc_key = c_argon2id c (bytes_of_string pw) salt argonTime argonMemoryKiB argonThreads argonKeyLen,
       phc_memory = argonMemoryKiB, phc_time = argonTime, phc_threads = argonThreads\<rparr>"
    "length (c_argon2id c (bytes_of_string pw) salt argonTime argonMemoryKiB argonThreads argonKeyLen) =
       argonKeyLen"
    using parse_hashed [OF assms] by metis
  then show ?thesis
    by (simp add: VerifyPassword_def argon_defs)
qed

lemma demo_hash: "\<exists>h. HashPassword c (Some f) pw = Inr h"
  by (simp add: HashPassword_def rand_read_def Let_def)

theorem password_hash_verifies_witness:
  "\<exists>h. HashPassword demo_crypto (Some (\<lambda>_. 1)) ''hunter2hunter2'' = Inr h \<and>
     VerifyPassword demo_crypto ''hunter2hunter2'' h = Inr True"
  using password_hash_verifies [OF demo_crypto_ok] demo_hash by metis

text \<open>
  Timing equalisation: verifying against the dummy hash runs Argon2id with the same time,
  memory, lane and key-length parameters as verifying against any hash that was stored for an
  account, so an unknown user name costs what a wrong password costs.
\<close>

theorem dummy_costs_a_real_check:
  assumes "crypto_ok c" and "mustDummyHash c rnd = Some d" and "HashPassword c rnd' pw = Inr h"
  shows "verify_cost d = verify_cost h \<and> verify_cost h = Some (3, 65536, 4, 32)"
proof -
  have "verify_cost x = Some (3, 65536, 4, 32)" if "HashPassword c r q = Inr x" for r q x
    by (rule parse_hashed [OF assms(1) that]) (simp add: verify_cost_def argon_defs)
  with assms(2,3) show ?thesis
    by (auto simp: mustDummyHash_def split: sum.splits)
qed

theorem dummy_costs_a_real_check_witness:
  "\<exists>d h. mustDummyHash demo_crypto (Some (\<lambda>_. 0)) = Some d \<and>
     HashPassword demo_crypto (Some (\<lambda>_. 1)) ''correct horse'' = Inr h \<and> verify_cost d = verify_cost h"
proof -
  obtain h where h: "HashPassword demo_crypto (Some (\<lambda>_. 1)) ''correct horse'' = Inr h"
    using demo_hash by blast
  obtain d where d: "mustDummyHash demo_crypto (Some (\<lambda>_. 0)) = Some d"
    using demo_hash [of demo_crypto "\<lambda>_. 0" "''timing-equalization-dummy''"]
    by (auto simp: mustDummyHash_def)
  show ?thesis
    using dummy_costs_a_real_check [OF demo_crypto_ok d h] d h by blast
qed

end
