(* ===== verification/Schema.thy ===== *)
theory Schema
  imports Go_Encoding
begin

text \<open>
  The PostgreSQL schema of \<^verbatim>\<open>internal/database/migrations\<close> as a record of tables, and the
  statements the Go code sends, as functions on it. A statement fails with an error of
  \<open>pg_error\<close> when it breaks a constraint of the schema (primary key and \<^verbatim>\<open>UNIQUE\<close>, \<^verbatim>\<open>REFERENCES\<close>,
  \<^verbatim>\<open>CHECK\<close>, the range of \<^verbatim>\<open>integer\<close>) or when a text is not storable in a UTF-8 database.
  Identifiers made by \<^verbatim>\<open>gen_random_uuid()\<close> and time stamps made by \<^verbatim>\<open>now()\<close> are arguments.
\<close>

section \<open>Rows\<close>

record user_row =
  ur_id :: string
  ur_username :: string
  ur_hash :: string
  ur_role :: string
  ur_created :: time
  ur_changed :: time

record session_row =
  se_user :: string
  se_token_hash :: bytes
  se_created :: time
  se_expires :: time
  se_last_seen :: time

record failure_row =
  lf_key :: string
  lf_at :: time

record blob_row =
  b_hash :: bytes
  b_size :: int
  b_wrapped :: bytes
  b_refs :: int

record node_row =
  n_id :: string
  n_owner :: string
  n_blob :: bytes
  n_name :: string
  n_mime :: string
  n_created :: time
  n_updated :: time

record grant_row =
  g_node :: string
  g_grantee :: string
  g_role :: string
  g_by :: string

record audit_row =
  a_id :: nat
  a_at :: time
  a_actor :: "string option"
  a_name :: string
  a_action :: string
  a_target :: string
  a_result :: string
  a_reason :: string
  a_request :: string

record invite_row =
  i_id :: string
  i_code_hash :: bytes
  i_note :: string
  i_by :: string
  i_created :: time
  i_expires :: time
  i_used_by :: "string option"
  i_used_at :: "time option"
  i_revoked_at :: "time option"

record db =
  users :: "user_row list"
  sessions :: "session_row list"
  failures :: "failure_row list"
  blobs :: "blob_row list"
  nodes :: "node_row list"
  grants :: "grant_row list"
  audit_events :: "audit_row list"
  audit_seq :: nat
  invites :: "invite_row list"

definition empty_db :: db where
  "empty_db = \<lparr>users = [], sessions = [], failures = [], blobs = [], nodes = [], grants = [],
     audit_events = [], audit_seq = 0, invites = []\<rparr>"

section \<open>Errors\<close>

text \<open>\<open>UniqueViolation\<close> is SQLSTATE 23505, the only one the code tells apart.\<close>

datatype pg_error = UniqueViolation | ForeignKeyViolation | CheckViolation | OutOfRange | InvalidText
  | Unavailable

text \<open>A text value the database stores: valid UTF-8 without a zero byte.\<close>

definition pg_text :: "string \<Rightarrow> bool" where
  "pg_text s \<longleftrightarrow> valid_utf8 s \<and> CHR 0x00 \<notin> set s"

lemma pg_text_ascii: "ascii s \<Longrightarrow> CHR 0x00 \<notin> set s \<Longrightarrow> pg_text s"
  by (simp add: pg_text_def valid_utf8_ascii)

text \<open>
  A \<^verbatim>\<open>uuid\<close> in its canonical text form, five groups of lower-case hexadecimal digits; the
  form \<^verbatim>\<open>gen_random_uuid()\<close> produces and the only one the HTTP layer lets through.
\<close>

definition pg_uuid :: "string \<Rightarrow> bool" where
  "pg_uuid s \<longleftrightarrow> map length (split_char (CHR ''-'') s) = [8, 4, 4, 4, 12] \<and>
     set s \<subseteq> set (CHR ''-'' # hex_alphabet)"

lemma pg_uuid_nonempty [simp]: "\<not> pg_uuid []"
  by (simp add: pg_uuid_def)

definition max_integer :: int where
  "max_integer = 2147483647"

section \<open>INSERT statements\<close>

definition insert_user :: "user_row \<Rightarrow> db \<Rightarrow> pg_error + db" where
  "insert_user r d =
     (if \<not> pg_uuid (ur_id r) \<or> \<not> pg_text (ur_username r) \<or> \<not> pg_text (ur_hash r) then Inl InvalidText
      else if ur_role r \<noteq> ''user'' \<and> ur_role r \<noteq> ''admin'' then Inl CheckViolation
      else if \<exists>x\<in>set (users d). ur_id x = ur_id r \<or> ur_username x = ur_username r then Inl UniqueViolation
      else Inr (d\<lparr>users := users d @ [r]\<rparr>))"

definition insert_session :: "session_row \<Rightarrow> db \<Rightarrow> pg_error + db" where
  "insert_session r d =
     (if \<exists>x\<in>set (sessions d). se_token_hash x = se_token_hash r then Inl UniqueViolation
      else if \<forall>x\<in>set (users d). ur_id x \<noteq> se_user r then Inl ForeignKeyViolation
      else Inr (d\<lparr>sessions := sessions d @ [r]\<rparr>))"

definition insert_failures :: "failure_row list \<Rightarrow> db \<Rightarrow> pg_error + db" where
  "insert_failures rs d =
     (if \<exists>r\<in>set rs. \<not> pg_text (lf_key r) then Inl InvalidText
      else Inr (d\<lparr>failures := failures d @ rs\<rparr>))"

definition insert_blob :: "blob_row \<Rightarrow> db \<Rightarrow> pg_error + db" where
  "insert_blob r d =
     (if b_size r < 0 \<or> b_refs r < 0 then Inl CheckViolation
      else if \<exists>x\<in>set (blobs d). b_hash x = b_hash r then Inl UniqueViolation
      else Inr (d\<lparr>blobs := blobs d @ [r]\<rparr>))"

definition insert_node :: "node_row \<Rightarrow> db \<Rightarrow> pg_error + db" where
  "insert_node r d =
     (if \<not> pg_uuid (n_id r) \<or> \<not> pg_text (n_name r) \<or> \<not> pg_text (n_mime r) then Inl InvalidText
      else if \<exists>x\<in>set (nodes d). n_id x = n_id r then Inl UniqueViolation
      else if (\<forall>x\<in>set (users d). ur_id x \<noteq> n_owner r) \<or> (\<forall>x\<in>set (blobs d). b_hash x \<noteq> n_blob r)
      then Inl ForeignKeyViolation
      else Inr (d\<lparr>nodes := nodes d @ [r]\<rparr>))"

text \<open>\<^verbatim>\<open>INSERT ... ON CONFLICT (node_id, grantee_id) DO UPDATE SET role = EXCLUDED.role\<close>\<close>

definition upsert_grant :: "grant_row \<Rightarrow> db \<Rightarrow> pg_error + db" where
  "upsert_grant r d =
     (if g_role r \<noteq> ''editor'' \<and> g_role r \<noteq> ''viewer'' then Inl CheckViolation
      else if (\<forall>x\<in>set (nodes d). n_id x \<noteq> g_node r) \<or> (\<forall>x\<in>set (users d). ur_id x \<noteq> g_grantee r) \<or>
              (\<forall>x\<in>set (users d). ur_id x \<noteq> g_by r)
      then Inl ForeignKeyViolation
      else if \<exists>x\<in>set (grants d). g_node x = g_node r \<and> g_grantee x = g_grantee r
      then Inr (d\<lparr>grants := update_where (\<lambda>x. g_node x = g_node r \<and> g_grantee x = g_grantee r)
                             (\<lambda>x. x\<lparr>g_role := g_role r\<rparr>) (grants d)\<rparr>)
      else Inr (d\<lparr>grants := grants d @ [r]\<rparr>))"

definition insert_invite :: "invite_row \<Rightarrow> db \<Rightarrow> pg_error + db" where
  "insert_invite r d =
     (if \<not> pg_uuid (i_id r) \<or> \<not> pg_text (i_note r) then Inl InvalidText
      else if \<exists>x\<in>set (invites d). i_id x = i_id r \<or> i_code_hash x = i_code_hash r then Inl UniqueViolation
      else if \<forall>x\<in>set (users d). ur_id x \<noteq> i_by r then Inl ForeignKeyViolation
      else Inr (d\<lparr>invites := invites d @ [r]\<rparr>))"

text \<open>
  The identity column of \<^verbatim>\<open>audit_events\<close> is fed by a sequence, \<open>audit_seq\<close> being the last
  number it gave out.
\<close>

definition insert_audit :: "audit_row \<Rightarrow> db \<Rightarrow> pg_error + db" where
  "insert_audit r d =
     (if \<not> pred_option pg_uuid (a_actor r) \<or>
         \<not> list_all pg_text [a_name r, a_action r, a_target r, a_reason r, a_request r] then Inl InvalidText
      else if a_result r \<notin> {''ok'', ''denied'', ''error''} then Inl CheckViolation
      else Inr (d\<lparr>audit_events := audit_events d @ [r\<lparr>a_id := Suc (audit_seq d)\<rparr>],
                 audit_seq := Suc (audit_seq d)\<rparr>))"

section \<open>Other statements\<close>

text \<open>\<^verbatim>\<open>UPDATE blobs SET ref_count = ref_count + delta WHERE hash = h\<close>; the number of rows changed
  is 0 or 1 and the new count is what \<^verbatim>\<open>RETURNING ref_count\<close> gives.\<close>

definition add_refs :: "int \<Rightarrow> bytes \<Rightarrow> db \<Rightarrow> pg_error + db" where
  "add_refs delta h d =
     (case query_row (\<lambda>b. b_hash b = h) (blobs d) of
        None \<Rightarrow> Inr d
      | Some b \<Rightarrow>
          if max_integer < b_refs b + delta then Inl OutOfRange
          else if b_refs b + delta < 0 then Inl CheckViolation
          else Inr (d\<lparr>blobs := update_where (\<lambda>b. b_hash b = h) (\<lambda>b. b\<lparr>b_refs := b_refs b + delta\<rparr>)
                                 (blobs d)\<rparr>))"

text \<open>\<^verbatim>\<open>DELETE FROM blobs WHERE hash = h\<close>: refused while a node refers to the blob.\<close>

definition delete_blob :: "bytes \<Rightarrow> db \<Rightarrow> pg_error + db" where
  "delete_blob h d =
     (if (\<exists>b\<in>set (blobs d). b_hash b = h) \<and> (\<exists>n\<in>set (nodes d). n_blob n = h) then Inl ForeignKeyViolation
      else Inr (d\<lparr>blobs := delete_where (\<lambda>b. b_hash b = h) (blobs d)\<rparr>))"

text \<open>\<^verbatim>\<open>DELETE FROM nodes WHERE id = i\<close>: the node's grants go with it (\<^verbatim>\<open>ON DELETE CASCADE\<close>).\<close>

definition delete_node :: "string \<Rightarrow> db \<Rightarrow> db" where
  "delete_node i d =
     d\<lparr>nodes := delete_where (\<lambda>n. n_id n = i) (nodes d),
       grants := delete_where (\<lambda>g. g_node g = i) (grants d)\<rparr>"

definition rename_node :: "string \<Rightarrow> string \<Rightarrow> time \<Rightarrow> db \<Rightarrow> pg_error + db" where
  "rename_node i nm t d =
     (if \<not> pg_text nm then Inl InvalidText
      else Inr (d\<lparr>nodes := update_where (\<lambda>n. n_id n = i) (\<lambda>n. n\<lparr>n_name := nm, n_updated := t\<rparr>)
                             (nodes d)\<rparr>))"

definition user_by_id :: "string \<Rightarrow> db \<Rightarrow> user_row option" where
  "user_by_id i d = query_row (\<lambda>u. ur_id u = i) (users d)"

definition user_by_name :: "string \<Rightarrow> db \<Rightarrow> user_row option" where
  "user_by_name nm d = query_row (\<lambda>u. ur_username u = nm) (users d)"

definition blob_by_hash :: "bytes \<Rightarrow> db \<Rightarrow> blob_row option" where
  "blob_by_hash h d = query_row (\<lambda>b. b_hash b = h) (blobs d)"

definition node_by_id :: "string \<Rightarrow> db \<Rightarrow> node_row option" where
  "node_by_id i d = query_row (\<lambda>n. n_id n = i) (nodes d)"

section \<open>The schema invariant\<close>

definition users_ok :: "db \<Rightarrow> bool" where
  "users_ok d \<longleftrightarrow> distinct (map ur_id (users d)) \<and> distinct (map ur_username (users d)) \<and>
     (\<forall>u\<in>set (users d). pg_uuid (ur_id u) \<and> (ur_role u = ''user'' \<or> ur_role u = ''admin''))"

definition sessions_ok :: "db \<Rightarrow> bool" where
  "sessions_ok d \<longleftrightarrow> distinct (map se_token_hash (sessions d)) \<and>
     (\<forall>s\<in>set (sessions d). \<exists>u\<in>set (users d). ur_id u = se_user s)"

definition blobs_ok :: "db \<Rightarrow> bool" where
  "blobs_ok d \<longleftrightarrow> distinct (map b_hash (blobs d)) \<and>
     (\<forall>b\<in>set (blobs d). 0 \<le> b_size b \<and> 0 \<le> b_refs b)"

definition nodes_ok :: "db \<Rightarrow> bool" where
  "nodes_ok d \<longleftrightarrow> distinct (map n_id (nodes d)) \<and>
     (\<forall>n\<in>set (nodes d). pg_uuid (n_id n) \<and> (\<exists>u\<in>set (users d). ur_id u = n_owner n) \<and> (\<exists>b\<in>set (blobs d). b_hash b = n_blob n))"

definition grants_ok :: "db \<Rightarrow> bool" where
  "grants_ok d \<longleftrightarrow> distinct (map (\<lambda>g. (g_node g, g_grantee g)) (grants d)) \<and>
     (\<forall>g\<in>set (grants d). (\<exists>n\<in>set (nodes d). n_id n = g_node g) \<and>
        (\<exists>u\<in>set (users d). ur_id u = g_grantee g) \<and> (g_role g = ''editor'' \<or> g_role g = ''viewer''))"

definition invites_ok :: "db \<Rightarrow> bool" where
  "invites_ok d \<longleftrightarrow> distinct (map i_id (invites d)) \<and> distinct (map i_code_hash (invites d)) \<and>
     (\<forall>i\<in>set (invites d). pg_uuid (i_id i))"

definition audit_ok :: "db \<Rightarrow> bool" where
  "audit_ok d \<longleftrightarrow> sorted_wrt (<) (map a_id (audit_events d)) \<and>
     (\<forall>e\<in>set (audit_events d). a_id e \<le> audit_seq d)"

definition schema_ok :: "db \<Rightarrow> bool" where
  "schema_ok d \<longleftrightarrow> users_ok d \<and> sessions_ok d \<and> blobs_ok d \<and> nodes_ok d \<and> grants_ok d \<and>
     invites_ok d \<and> audit_ok d"

lemmas schema_defs = schema_ok_def users_ok_def sessions_ok_def blobs_ok_def nodes_ok_def grants_ok_def
  invites_ok_def audit_ok_def

lemma schema_ok_empty: "schema_ok empty_db"
  by (simp add: schema_defs empty_db_def)

section \<open>The interface of a unique index\<close>

text \<open>
  What the services rely on for every table with a unique column: an insertion that goes
  through appends the row and was not a duplicate; a duplicate is refused.
\<close>

locale unique_index =
  fixes rows :: "'d \<Rightarrow> 'r list"
    and key :: "'r \<Rightarrow> 'k"
    and insert_row :: "'r \<Rightarrow> 'd \<Rightarrow> 'e + 'd"
  assumes duplicate_refused: "r' \<in> set (rows d) \<Longrightarrow> key r' = key r \<Longrightarrow> insert_row r d \<noteq> Inr d'"
    and insert_appends: "insert_row r d = Inr d' \<Longrightarrow> rows d' = rows d @ [r]"
begin

definition indexed :: "'d \<Rightarrow> bool" where
  "indexed d \<longleftrightarrow> distinct (map key (rows d))"

lemma insert_fresh: "insert_row r d = Inr d' \<Longrightarrow> key r \<notin> key ` set (rows d)"
  using duplicate_refused by auto

lemma insert_indexed: "indexed d \<Longrightarrow> insert_row r d = Inr d' \<Longrightarrow> indexed d'"
  using insert_fresh [of r d d'] insert_appends [of r d d'] by (auto simp: indexed_def)

lemma lookup_inserted: "insert_row r d = Inr d' \<Longrightarrow> query_row (\<lambda>x. key x = key r) (rows d') = Some r"
proof -
  assume i: "insert_row r d = Inr d'"
  have "query_row (\<lambda>x. key x = key r) (rows d) = None"
    using insert_fresh [OF i] by (auto simp: query_row_None image_iff)
  with insert_appends [OF i] show ?thesis by (simp add: table_simps)
qed

lemma lookup_other:
  "insert_row r d = Inr d' \<Longrightarrow> k \<noteq> key r \<Longrightarrow>
   query_row (\<lambda>x. key x = k) (rows d') = query_row (\<lambda>x. key x = k) (rows d)"
  using insert_appends [of r d d'] by (auto simp: table_simps split: option.split)

lemma count_inserted: "insert_row r d = Inr d' \<Longrightarrow> length (rows d') = Suc (length (rows d))"
  using insert_appends [of r d d'] by simp

end

interpretation user_names: unique_index users ur_username insert_user
  by unfold_locales (auto simp: insert_user_def split: if_splits)

interpretation user_ids: unique_index users ur_id insert_user
  by unfold_locales (auto simp: insert_user_def split: if_splits)

interpretation session_tokens: unique_index sessions se_token_hash insert_session
  by unfold_locales (auto simp: insert_session_def split: if_splits)

interpretation blob_hashes: unique_index blobs b_hash insert_blob
  by unfold_locales (auto simp: insert_blob_def split: if_splits)

interpretation node_ids: unique_index nodes n_id insert_node
  by unfold_locales (auto simp: insert_node_def split: if_splits)

interpretation invite_codes: unique_index invites i_code_hash insert_invite
  by unfold_locales (auto simp: insert_invite_def split: if_splits)

section \<open>Every statement keeps the schema invariant\<close>

text \<open>Each part of the invariant looks at few tables; the statements that leave these alone keep it.\<close>

lemma parts_frame [simp]:
  "users_ok (sessions_update fs d) = users_ok d" "users_ok (failures_update ff d) = users_ok d"
  "users_ok (blobs_update fb d) = users_ok d" "users_ok (nodes_update fn d) = users_ok d"
  "users_ok (grants_update fg d) = users_ok d" "users_ok (audit_events_update fa d) = users_ok d"
  "users_ok (audit_seq_update fq d) = users_ok d" "users_ok (invites_update fi d) = users_ok d"
  "sessions_ok (failures_update ff d) = sessions_ok d" "sessions_ok (blobs_update fb d) = sessions_ok d"
  "sessions_ok (nodes_update fn d) = sessions_ok d" "sessions_ok (grants_update fg d) = sessions_ok d"
  "sessions_ok (audit_events_update fa d) = sessions_ok d" "sessions_ok (audit_seq_update fq d) = sessions_ok d"
  "sessions_ok (invites_update fi d) = sessions_ok d" "blobs_ok (users_update fu d) = blobs_ok d"
  "blobs_ok (sessions_update fs d) = blobs_ok d" "blobs_ok (failures_update ff d) = blobs_ok d"
  "blobs_ok (nodes_update fn d) = blobs_ok d" "blobs_ok (grants_update fg d) = blobs_ok d"
  "blobs_ok (audit_events_update fa d) = blobs_ok d" "blobs_ok (audit_seq_update fq d) = blobs_ok d"
  "blobs_ok (invites_update fi d) = blobs_ok d" "nodes_ok (sessions_update fs d) = nodes_ok d"
  "nodes_ok (failures_update ff d) = nodes_ok d" "nodes_ok (grants_update fg d) = nodes_ok d"
  "nodes_ok (audit_events_update fa d) = nodes_ok d" "nodes_ok (audit_seq_update fq d) = nodes_ok d"
  "nodes_ok (invites_update fi d) = nodes_ok d" "grants_ok (sessions_update fs d) = grants_ok d"
  "grants_ok (failures_update ff d) = grants_ok d" "grants_ok (blobs_update fb d) = grants_ok d"
  "grants_ok (audit_events_update fa d) = grants_ok d" "grants_ok (audit_seq_update fq d) = grants_ok d"
  "grants_ok (invites_update fi d) = grants_ok d" "invites_ok (users_update fu d) = invites_ok d"
  "invites_ok (sessions_update fs d) = invites_ok d" "invites_ok (failures_update ff d) = invites_ok d"
  "invites_ok (blobs_update fb d) = invites_ok d" "invites_ok (nodes_update fn d) = invites_ok d"
  "invites_ok (grants_update fg d) = invites_ok d" "invites_ok (audit_events_update fa d) = invites_ok d"
  "invites_ok (audit_seq_update fq d) = invites_ok d" "audit_ok (users_update fu d) = audit_ok d"
  "audit_ok (sessions_update fs d) = audit_ok d" "audit_ok (failures_update ff d) = audit_ok d"
  "audit_ok (blobs_update fb d) = audit_ok d" "audit_ok (nodes_update fn d) = audit_ok d"
  "audit_ok (grants_update fg d) = audit_ok d" "audit_ok (invites_update fi d) = audit_ok d"
  by (simp_all add: schema_defs)

lemma schema_parts:
  assumes "schema_ok d"
  shows "users_ok d" "sessions_ok d" "blobs_ok d" "nodes_ok d" "grants_ok d" "invites_ok d" "audit_ok d"
  using assms by (simp_all add: schema_ok_def)

lemma schema_okI:
  "users_ok d \<Longrightarrow> sessions_ok d \<Longrightarrow> blobs_ok d \<Longrightarrow> nodes_ok d \<Longrightarrow> grants_ok d \<Longrightarrow> invites_ok d \<Longrightarrow>
   audit_ok d \<Longrightarrow> schema_ok d"
  by (simp add: schema_ok_def)

text \<open>A table that only grows satisfies the references that it satisfied.\<close>

lemma grown_users:
  "sessions_ok d \<Longrightarrow> sessions_ok (d\<lparr>users := users d @ rs\<rparr>)"
  "nodes_ok d \<Longrightarrow> nodes_ok (d\<lparr>users := users d @ rs\<rparr>)"
  "grants_ok d \<Longrightarrow> grants_ok (d\<lparr>users := users d @ rs\<rparr>)"
  unfolding sessions_ok_def nodes_ok_def grants_ok_def by simp_all blast+

lemma grown_blobs: "nodes_ok d \<Longrightarrow> nodes_ok (d\<lparr>blobs := blobs d @ rs\<rparr>)"
  unfolding nodes_ok_def by simp blast

lemma grown_nodes: "grants_ok d \<Longrightarrow> grants_ok (d\<lparr>nodes := nodes d @ rs\<rparr>)"
  unfolding grants_ok_def by simp blast

lemma distinct_snoc: "distinct (map f xs) \<Longrightarrow> \<forall>x\<in>set xs. f x \<noteq> f r \<Longrightarrow> distinct (map f (xs @ [r]))"
  by auto

lemma schema_insert_user:
  assumes s: "schema_ok d" and i: "insert_user r d = Inr d'"
  shows "schema_ok d'"
proof -
  from i have d': "d' = d\<lparr>users := users d @ [r]\<rparr>" and role: "pg_uuid (ur_id r) \<and> (ur_role r = ''user'' \<or> ur_role r = ''admin'')"
      and fresh: "\<forall>x\<in>set (users d). ur_id x \<noteq> ur_id r" "\<forall>x\<in>set (users d). ur_username x \<noteq> ur_username r"
    by (auto simp: insert_user_def split: if_splits)
  have "users_ok d'"
    using schema_parts(1) [OF s] role fresh unfolding users_ok_def d'
    by (simp add: distinct_snoc del: map_append)
  then show ?thesis
    using schema_parts [OF s] unfolding d'
    by (intro schema_okI) (simp_all add: grown_users)
qed

lemma schema_insert_session:
  assumes s: "schema_ok d" and i: "insert_session r d = Inr d'"
  shows "schema_ok d'"
proof -
  from i have d': "d' = d\<lparr>sessions := sessions d @ [r]\<rparr>" and ref: "\<exists>u\<in>set (users d). ur_id u = se_user r"
      and fresh: "\<forall>x\<in>set (sessions d). se_token_hash x \<noteq> se_token_hash r"
    by (auto simp: insert_session_def split: if_splits)
  have "sessions_ok d'"
    using schema_parts(2) [OF s] ref fresh unfolding sessions_ok_def d'
    by (simp add: distinct_snoc del: map_append)
  then show ?thesis
    using schema_parts [OF s] unfolding d' by (intro schema_okI) simp_all
qed

lemma schema_insert_failures: "schema_ok d \<Longrightarrow> insert_failures rs d = Inr d' \<Longrightarrow> schema_ok d'"
  by (auto simp: schema_ok_def insert_failures_def split: if_splits)

lemma schema_insert_blob:
  assumes s: "schema_ok d" and i: "insert_blob r d = Inr d'"
  shows "schema_ok d'"
proof -
  from i have d': "d' = d\<lparr>blobs := blobs d @ [r]\<rparr>" and pos: "0 \<le> b_size r" "0 \<le> b_refs r"
      and fresh: "\<forall>x\<in>set (blobs d). b_hash x \<noteq> b_hash r"
    by (auto simp: insert_blob_def split: if_splits)
  have "blobs_ok d'"
    using schema_parts(3) [OF s] pos fresh unfolding blobs_ok_def d'
    by (simp add: distinct_snoc del: map_append)
  then show ?thesis
    using schema_parts [OF s] unfolding d'
    by (intro schema_okI) (simp_all add: grown_blobs)
qed

lemma schema_insert_node:
  assumes s: "schema_ok d" and i: "insert_node r d = Inr d'"
  shows "schema_ok d'"
proof -
  from i have d': "d' = d\<lparr>nodes := nodes d @ [r]\<rparr>" and ref: "pg_uuid (n_id r)" "\<exists>u\<in>set (users d). ur_id u = n_owner r"
      "\<exists>b\<in>set (blobs d). b_hash b = n_blob r"
      and fresh: "\<forall>x\<in>set (nodes d). n_id x \<noteq> n_id r"
    by (auto simp: insert_node_def split: if_splits)
  have "nodes_ok d'"
    using schema_parts(4) [OF s] ref fresh unfolding nodes_ok_def d'
    by (simp add: distinct_snoc del: map_append)
  then show ?thesis
    using schema_parts [OF s] unfolding d'
    by (intro schema_okI) (simp_all add: grown_nodes)
qed

lemma schema_insert_invite:
  assumes s: "schema_ok d" and i: "insert_invite r d = Inr d'"
  shows "schema_ok d'"
proof -
  from i have d': "d' = d\<lparr>invites := invites d @ [r]\<rparr>" and u: "pg_uuid (i_id r)"
      and fresh: "\<forall>x\<in>set (invites d). i_id x \<noteq> i_id r" "\<forall>x\<in>set (invites d). i_code_hash x \<noteq> i_code_hash r"
    by (auto simp: insert_invite_def split: if_splits)
  have "invites_ok d'"
    using schema_parts(6) [OF s] fresh u unfolding invites_ok_def d'
    by (simp add: distinct_snoc del: map_append)
  then show ?thesis
    using schema_parts [OF s] unfolding d' by (intro schema_okI) simp_all
qed

lemma schema_insert_audit:
  assumes s: "schema_ok d" and i: "insert_audit r d = Inr d'"
  shows "schema_ok d'"
proof -
  from i have d': "d' = d\<lparr>audit_events := audit_events d @ [r\<lparr>a_id := Suc (audit_seq d)\<rparr>],
      audit_seq := Suc (audit_seq d)\<rparr>"
    by (auto simp: insert_audit_def split: if_splits)
  have "audit_ok d'"
    using schema_parts(7) [OF s] unfolding audit_ok_def d'
    by (auto simp: sorted_wrt_append less_Suc_eq_le)
  then show ?thesis
    using schema_parts [OF s] unfolding d' by (intro schema_okI) simp_all
qed

lemma schema_upsert_grant:
  assumes s: "schema_ok d" and i: "upsert_grant r d = Inr d'"
  shows "schema_ok d'"
proof -
  have role: "g_role r = ''editor'' \<or> g_role r = ''viewer''"
      and ref: "\<exists>n\<in>set (nodes d). n_id n = g_node r" "\<exists>u\<in>set (users d). ur_id u = g_grantee r"
    using i by (auto simp: upsert_grant_def split: if_splits)
  have g: "grants_ok d" using s by (rule schema_parts)
  have "grants_ok d' \<and> (\<exists>gs. d' = d\<lparr>grants := gs\<rparr>)"
  proof (cases "\<exists>x\<in>set (grants d). g_node x = g_node r \<and> g_grantee x = g_grantee r")
    case True
    with i have d': "d' = d\<lparr>grants := update_where (\<lambda>x. g_node x = g_node r \<and> g_grantee x = g_grantee r)
        (\<lambda>x. x\<lparr>g_role := g_role r\<rparr>) (grants d)\<rparr>"
      by (auto simp: upsert_grant_def split: if_splits)
    have "grants_ok d'"
      using g role ref unfolding d' grants_ok_def
      by (simp add: ball_update_where map_update_where)
    with d' show ?thesis by blast
  next
    case False
    with i have d': "d' = d\<lparr>grants := grants d @ [r]\<rparr>"
      by (auto simp: upsert_grant_def split: if_splits)
    have "grants_ok d'"
      using g role ref False unfolding d' grants_ok_def by auto
    with d' show ?thesis by blast
  qed
  then show ?thesis
    using schema_parts [OF s] by (intro schema_okI) auto
qed

lemma add_refs_cases:
  assumes "add_refs delta h d = Inr d'"
  obtains (absent) "blob_by_hash h d = None" "d' = d"
  | (present) b where "blob_by_hash h d = Some b" "0 \<le> b_refs b + delta" "b_refs b + delta \<le> max_integer"
      "d' = d\<lparr>blobs := update_where (\<lambda>b. b_hash b = h) (\<lambda>b. b\<lparr>b_refs := b_refs b + delta\<rparr>) (blobs d)\<rparr>"
  using assms by (auto simp: add_refs_def blob_by_hash_def split: option.splits if_splits)

lemma schema_add_refs:
  assumes s: "schema_ok d" and i: "add_refs delta h d = Inr d'"
  shows "schema_ok d'"
  using i
proof (cases rule: add_refs_cases)
  case absent
  with s show ?thesis by simp
next
  case (present b)
  have b: "b \<in> set (blobs d)" "b_hash b = h"
    using query_row_Some [OF present(1) [unfolded blob_by_hash_def]] by simp_all
  have only: "x = b" if "x \<in> set (blobs d)" "b_hash x = h" for x
    using distinct_key_unique [of b_hash "blobs d" x b] that b schema_parts(3) [OF s]
    by (simp add: blobs_ok_def)
  have "blobs_ok d'"
    using schema_parts(3) [OF s] only present(2) unfolding present(4) blobs_ok_def
    by (auto simp: table_simps)
  moreover have "nodes_ok d'"
    using schema_parts(4) [OF s] unfolding present(4) nodes_ok_def
    by (simp add: bex_update_where if_distrib [of b_hash] cong: if_cong)
  ultimately show ?thesis
    using schema_parts [OF s] by (intro schema_okI) (simp_all add: present(4))
qed

lemma schema_delete_blob:
  assumes s: "schema_ok d" and i: "delete_blob h d = Inr d'"
  shows "schema_ok d'"
proof -
  from i have d': "d' = d\<lparr>blobs := delete_where (\<lambda>b. b_hash b = h) (blobs d)\<rparr>"
      and unused: "(\<forall>b\<in>set (blobs d). b_hash b \<noteq> h) \<or> (\<forall>n\<in>set (nodes d). n_blob n \<noteq> h)"
    by (auto simp: delete_blob_def split: if_splits)
  have "blobs_ok d'"
    using schema_parts(3) [OF s] unfolding d' blobs_ok_def by (simp add: table_simps)
  moreover have "nodes_ok d'"
    using schema_parts(4) [OF s] unused unfolding d' nodes_ok_def
    by (simp add: table_simps) metis
  ultimately show ?thesis
    using schema_parts [OF s] by (intro schema_okI) (simp_all add: d')
qed

lemma schema_delete_node:
  assumes s: "schema_ok d"
  shows "schema_ok (delete_node i d)"
proof -
  have "nodes_ok (delete_node i d)"
    using schema_parts(4) [OF s] by (simp add: delete_node_def nodes_ok_def table_simps)
  moreover have "grants_ok (delete_node i d)"
    using schema_parts(5) [OF s] by (simp add: delete_node_def grants_ok_def table_simps) metis
  ultimately show ?thesis
    using schema_parts [OF s] by (intro schema_okI) (simp_all add: delete_node_def)
qed

lemma schema_rename_node:
  assumes s: "schema_ok d" and i: "rename_node i nm t d = Inr d'"
  shows "schema_ok d'"
proof -
  from i have d': "d' = d\<lparr>nodes := update_where (\<lambda>n. n_id n = i) (\<lambda>n. n\<lparr>n_name := nm, n_updated := t\<rparr>)
      (nodes d)\<rparr>"
    by (auto simp: rename_node_def split: if_splits)
  have "nodes_ok d'"
    using schema_parts(4) [OF s] unfolding d' nodes_ok_def by (auto simp: table_simps)
  moreover have "grants_ok d'"
    using schema_parts(5) [OF s] unfolding grants_ok_def d'
    by (simp add: bex_update_where if_distrib [of n_id] cong: if_cong)
  ultimately show ?thesis
    using schema_parts [OF s] by (intro schema_okI) (simp_all add: d')
qed

lemma schema_failures [simp]: "schema_ok (failures_update f d) = schema_ok d"
  by (simp add: schema_ok_def)

lemmas schema_statements = schema_insert_user schema_insert_session schema_insert_failures
  schema_insert_blob schema_insert_node schema_insert_invite schema_insert_audit schema_upsert_grant
  schema_add_refs schema_delete_blob schema_delete_node schema_rename_node

end
