(* ===== verification/Audit_Log.thy ===== *)
theory Audit_Log
  imports Schema Object_Store
begin

text \<open>
  The world the services act on (database, object files, the process log), the ways a database
  call can fail, transactions, and the audit logger of \<^verbatim>\<open>internal/audit\<close>.
\<close>

section \<open>The world and its failures\<close>

text \<open>
  Every database round trip of the program has a name; which of them fail (connection lost,
  statement cancelled) is the argument \<open>en_fail\<close> of an operation's environment. A failed
  statement has no effect. The clock is read once per operation.
\<close>

datatype db_call =
    CallAuditInsert string
  | CallBegin | CallLockRegistration | CallCountUsers | CallSelectInvite | CallInsertUser | CallConsumeInvite
  | CallPruneFailures | CallCountFailures | CallSelectUser | CallInsertFailures | CallClearFailures
  | CallInsertSession | CallTouchSession | CallDeleteSession | CallUpdatePassword | CallRevokeSessions
  | CallInsertInvite | CallListInvites | CallRevokeInvite
  | CallSelectBlob | CallInsertBlob | CallIncrementRefs | CallInsertNode
  | CallList | CallLoadNode | CallLoadGrants | CallListGrants | CallRenameNode
  | CallDeleteNode | CallDereference | CallDeleteBlob | CallSelectGrantee | CallUpsertGrant | CallDeleteGrant
  | CallListUsers | CallListAudit

text \<open>
  A \<^verbatim>\<open>COMMIT\<close> succeeds, is refused (the transaction is rolled back), or takes effect while
  its reply is lost, so that the client sees an error.
\<close>

datatype commit_outcome = CommitDone | CommitRefused | CommitLost

record env =
  en_now :: time
  en_fail :: "db_call \<Rightarrow> bool"
  en_commit :: commit_outcome

record world =
  w_db :: db
  w_fs :: fsys
  w_log :: "string list"

definition exec :: "env \<Rightarrow> db_call \<Rightarrow> pg_error + 'a \<Rightarrow> pg_error + 'a" where
  "exec env call r = (if en_fail env call then Inl Unavailable else r)"

definition commit_tx :: "env \<Rightarrow> db \<Rightarrow> db \<Rightarrow> bool \<times> db" where
  "commit_tx env old new = (case en_commit env of
     CommitDone \<Rightarrow> (True, new) | CommitRefused \<Rightarrow> (False, old) | CommitLost \<Rightarrow> (False, new))"

lemma exec_Inr: "exec env call r = Inr x \<longleftrightarrow> \<not> en_fail env call \<and> r = Inr x"
  by (simp add: exec_def)

lemma exec_ok: "\<not> en_fail env call \<Longrightarrow> exec env call r = r"
  by (simp add: exec_def)

lemma commit_tx_db: "snd (commit_tx env old new) = old \<or> snd (commit_tx env old new) = new"
  by (simp add: commit_tx_def split: commit_outcome.split)

lemma commit_tx_True: "commit_tx env old new = (True, d) \<Longrightarrow> d = new"
  by (simp add: commit_tx_def split: commit_outcome.splits)

section \<open>audit.go\<close>

definition ResultOK :: string where "ResultOK = ''ok''"
definition ResultDenied :: string where "ResultDenied = ''denied''"
definition ResultError :: string where "ResultError = ''error''"

lemmas result_defs = ResultOK_def ResultDenied_def ResultError_def

record event =
  ev_ActorID :: string
  ev_ActorName :: string
  ev_Action :: string
  ev_Target :: string
  ev_Result :: string
  ev_Reason :: string
  ev_RequestID :: string

definition audit_row_of :: "time \<Rightarrow> event \<Rightarrow> audit_row" where
  "audit_row_of t e =
     \<lparr>a_id = 0, a_at = t, a_actor = (if ev_ActorID e \<noteq> [] then Some (ev_ActorID e) else None),
      a_name = ev_ActorName e, a_action = ev_Action e, a_target = ev_Target e,
      a_result = ev_Result e, a_reason = ev_Reason e, a_request = ev_RequestID e\<rparr>"

definition Record :: "env \<Rightarrow> event \<Rightarrow> world \<Rightarrow> world" where
  "Record env e w =
     (case exec env (CallAuditInsert (ev_Action e)) (insert_audit (audit_row_of (en_now env) e) (w_db w)) of
        Inl _ \<Rightarrow> w\<lparr>w_log := w_log w @ [''audit write failed'']\<rparr>
      | Inr d \<Rightarrow> w\<lparr>w_db := d\<rparr>)"

text \<open>Services leave \<open>RequestID\<close> empty.\<close>

definition service_event :: "string \<Rightarrow> string \<Rightarrow> string \<Rightarrow> string \<Rightarrow> string \<Rightarrow> string \<Rightarrow> event" where
  "service_event actor nm act target res reason =
     \<lparr>ev_ActorID = actor, ev_ActorName = nm, ev_Action = act, ev_Target = target,
      ev_Result = res, ev_Reason = reason, ev_RequestID = []\<rparr>"

section \<open>What recording leaves alone\<close>

named_theorems world_simps \<open>what an operation does to the parts of the world\<close>

lemma insert_audit_frame:
  "insert_audit r d = Inr d' \<Longrightarrow>
   users d' = users d \<and> sessions d' = sessions d \<and> failures d' = failures d \<and> blobs d' = blobs d \<and>
   nodes d' = nodes d \<and> grants d' = grants d \<and> invites d' = invites d"
  by (auto simp: insert_audit_def split: if_splits)

lemma Record_frame [simp]:
  "users (w_db (Record env e w)) = users (w_db w)" "sessions (w_db (Record env e w)) = sessions (w_db w)"
  "failures (w_db (Record env e w)) = failures (w_db w)" "blobs (w_db (Record env e w)) = blobs (w_db w)"
  "nodes (w_db (Record env e w)) = nodes (w_db w)" "grants (w_db (Record env e w)) = grants (w_db w)"
  "invites (w_db (Record env e w)) = invites (w_db w)" "w_fs (Record env e w) = w_fs w"
  using insert_audit_frame by (auto simp: Record_def exec_def split: sum.split)

text \<open>The database without its audit trail: what the services' own statements act on.\<close>

definition core :: "db \<Rightarrow> db" where
  "core d = d\<lparr>audit_events := [], audit_seq := 0\<rparr>"

lemma core_fields [simp]:
  "users (core d) = users d" "sessions (core d) = sessions d" "failures (core d) = failures d"
  "blobs (core d) = blobs d" "nodes (core d) = nodes d" "grants (core d) = grants d"
  "invites (core d) = invites d"
  by (simp_all add: core_def)

lemma core_eqD:
  assumes "core d' = core d"
  shows "users d' = users d" "sessions d' = sessions d" "failures d' = failures d" "blobs d' = blobs d"
    "nodes d' = nodes d" "grants d' = grants d" "invites d' = invites d"
  using assms by (metis core_fields)+

lemma core_eqI:
  "users d' = users d \<Longrightarrow> sessions d' = sessions d \<Longrightarrow> failures d' = failures d \<Longrightarrow> blobs d' = blobs d \<Longrightarrow>
   nodes d' = nodes d \<Longrightarrow> grants d' = grants d \<Longrightarrow> invites d' = invites d \<Longrightarrow> core d' = core d"
  by (simp add: core_def)

lemma core_Record [simp]: "core (w_db (Record env e w)) = core (w_db w)"
  by (rule core_eqI) simp_all

lemma Record_schema [simp]: "schema_ok (w_db w) \<Longrightarrow> schema_ok (w_db (Record env e w))"
  by (auto simp: Record_def exec_def schema_insert_audit split: sum.split)

text \<open>
  \<open>extends w w'\<close>: the audit trail of \<open>w'\<close> continues that of \<open>w\<close>. Every operation of the
  program is shown to have this property.
\<close>

definition extends :: "world \<Rightarrow> world \<Rightarrow> bool" where
  "extends w w' \<longleftrightarrow> (\<exists>es. audit_events (w_db w') = audit_events (w_db w) @ es)"

lemma extends_refl [simp]: "extends w w"
  by (simp add: extends_def)

lemma extends_trans [trans]: "extends w w' \<Longrightarrow> extends w' w'' \<Longrightarrow> extends w w''"
  by (auto simp: extends_def)

lemma extends_same: "audit_events (w_db w') = audit_events (w_db w) \<Longrightarrow> extends w w'"
  by (simp add: extends_def)

lemma extends_cong: "audit_events (w_db w1) = audit_events (w_db w) \<Longrightarrow> extends w1 w' \<Longrightarrow> extends w w'"
  by (simp add: extends_def)

lemma Record_extends [simp]: "extends w (Record env e w)"
  by (auto simp: extends_def Record_def exec_def insert_audit_def split: sum.split if_splits)

section \<open>Properties\<close>

definition demo_env :: env where
  "demo_env = \<lparr>en_now = 100 * hour, en_fail = (\<lambda>_. False), en_commit = CommitDone\<rparr>"

definition demo_world :: world where
  "demo_world = \<lparr>w_db = empty_db, w_fs = demo_fs, w_log = []\<rparr>"

text \<open>
  An event is never lost silently: recording either appends exactly one row, with the
  event's fields, an id above all earlier ones and the actor column null exactly for an
  anonymous actor, or it leaves the database as it was and puts an entry in the log. Either way no other table
  and no file changes.
\<close>

theorem record_appends_or_logs:
  assumes "schema_ok (w_db w)"
  shows "(\<exists>r. audit_events (w_db (Record env e w)) = audit_events (w_db w) @ [r] \<and>
       (\<forall>x\<in>set (audit_events (w_db w)). a_id x < a_id r) \<and> a_at r = en_now env \<and>
       a_actor r = (if ev_ActorID e = [] then None else Some (ev_ActorID e)) \<and>
       (a_name r, a_action r, a_target r, a_result r, a_reason r, a_request r) =
         (ev_ActorName e, ev_Action e, ev_Target e, ev_Result e, ev_Reason e, ev_RequestID e) \<and>
       w_log (Record env e w) = w_log w)
   \<or> (w_db (Record env e w) = w_db w \<and> w_log (Record env e w) = w_log w @ [''audit write failed''])"
proof (cases "exec env (CallAuditInsert (ev_Action e)) (insert_audit (audit_row_of (en_now env) e) (w_db w))")
  case (Inl x)
  then show ?thesis by (simp add: Record_def)
next
  case (Inr d)
  then have i: "insert_audit (audit_row_of (en_now env) e) (w_db w) = Inr d"
    by (simp add: exec_Inr)
  then have "audit_events d = audit_events (w_db w) @ [(audit_row_of (en_now env) e)\<lparr>a_id := Suc (audit_seq (w_db w))\<rparr>]"
    by (auto simp: insert_audit_def split: if_splits)
  moreover have "\<forall>x\<in>set (audit_events (w_db w)). a_id x < Suc (audit_seq (w_db w))"
    using schema_parts(7) [OF assms] by (auto simp: audit_ok_def less_Suc_eq_le)
  ultimately show ?thesis
    using Inr by (intro disjI1) (simp add: Record_def audit_row_of_def)
qed

theorem record_appends_or_logs_witness:
  "length (audit_events (w_db (Record demo_env
     (service_event [] ''eve'' ''auth.login'' ''eve'' ''denied'' ''throttled'') demo_world))) = 1"
proof -
  let ?e = "service_event [] ''eve'' ''auth.login'' ''eve'' ''denied'' ''throttled''"
  have "w_log (Record demo_env ?e demo_world) = []"
    by (simp add: Record_def exec_def insert_audit_def audit_row_of_def service_event_def demo_env_def
        demo_world_def pg_text_ascii ascii_def)
  then show ?thesis
    using record_appends_or_logs [of demo_world demo_env ?e] schema_ok_empty
    by (auto simp: demo_world_def empty_db_def)
qed

end
