(* ===== verification/Registration.thy ===== *)
theory Registration
  imports Authz Passwords Audit_Log
begin

text \<open>
  Account creation policy, \<^verbatim>\<open>internal/auth/registration.go\<close>: registration modes, the status
  an anonymous client may see, one-time invites (creation, listing, revocation, normalising a
  re-typed code) and the admission check inside the registration transaction.
\<close>

section \<open>Types and errors\<close>

datatype auth_error =
    ErrInvalidCredentials | ErrThrottled | ErrUsernameTaken | ErrSessionInvalid | ErrPasswordPolicy
  | ErrUsernamePolicy | ErrRegistrationClosed | ErrInviteRequired | ErrInviteInvalid | ErrUserLimitReached
  | ErrInviteNotFound | ErrInvitePolicy | ErrAdminRequired | ErrAuthOther string

type_synonym registration_mode = string

definition RegistrationOpen :: registration_mode where "RegistrationOpen = ''open''"
definition RegistrationInvite :: registration_mode where "RegistrationInvite = ''invite''"
definition RegistrationClosed :: registration_mode where "RegistrationClosed = ''closed''"

lemmas mode_defs = RegistrationOpen_def RegistrationInvite_def RegistrationClosed_def

definition ParseRegistrationMode :: "unicode \<Rightarrow> string \<Rightarrow> registration_mode option" where
  "ParseRegistrationMode u s =
     (let m = to_lower u (trim_space s) in
      if m = RegistrationOpen \<or> m = RegistrationInvite \<or> m = RegistrationClosed then Some m
      else if m = [] then Some RegistrationOpen
      else None)"

record registration_policy =
  rp_Mode :: registration_mode
  rp_MaxUsers :: int

record service =
  sv_idle :: time
  sv_absolute :: time
  sv_policy :: registration_policy

definition SetRegistrationPolicy :: "registration_policy \<Rightarrow> service \<Rightarrow> service" where
  "SetRegistrationPolicy p s =
     s\<lparr>sv_policy := (if rp_Mode p = [] then p\<lparr>rp_Mode := RegistrationOpen\<rparr> else p)\<rparr>"

definition inviteCodeBytes :: nat where "inviteCodeBytes = 16"
definition inviteDefaultTTL :: time where "inviteDefaultTTL = 7 * 24 * hour"
definition inviteMinTTL :: time where "inviteMinTTL = minute"
definition inviteMaxTTL :: time where "inviteMaxTTL = 30 * 24 * hour"
definition inviteNoteMaxLen :: nat where "inviteNoteMaxLen = 64"
definition inviteListMaxRows :: nat where "inviteListMaxRows = 200"

lemmas invite_const_defs = inviteCodeBytes_def inviteDefaultTTL_def inviteMinTTL_def inviteMaxTTL_def
  inviteNoteMaxLen_def inviteListMaxRows_def

section \<open>Status\<close>

record registration_status =
  rs_Mode :: registration_mode
  rs_Accepting :: bool
  rs_InviteRequired :: bool

definition RegistrationStatus ::
  "env \<Rightarrow> service \<Rightarrow> world \<Rightarrow> auth_error + registration_status" where
  "RegistrationStatus env s w =
     (case exec env CallCountUsers (Inr (int (length (users (w_db w))))) of
        Inl _ \<Rightarrow> Inl (ErrAuthOther ''auth: count users'')
      | Inr count \<Rightarrow>
          let st = \<lparr>rs_Mode = rp_Mode (sv_policy s), rs_Accepting = False, rs_InviteRequired = False\<rparr> in
          Inr (if count = 0 then st\<lparr>rs_Accepting := True\<rparr>
               else if rp_MaxUsers (sv_policy s) > 0 \<and> count \<ge> rp_MaxUsers (sv_policy s) then st
               else if rp_Mode (sv_policy s) = RegistrationClosed then st
               else st\<lparr>rs_Accepting := True,
                       rs_InviteRequired := (rp_Mode (sv_policy s) = RegistrationInvite)\<rparr>))"

section \<open>Invites\<close>

record invite =
  iv_ID :: string
  iv_Note :: string
  iv_CreatedBy :: string
  iv_CreatedAt :: time
  iv_ExpiresAt :: time
  iv_UsedBy :: string
  iv_UsedAt :: "time option"
  iv_RevokedAt :: "time option"

definition Status :: "time \<Rightarrow> invite \<Rightarrow> string" where
  "Status now i =
     (if iv_UsedAt i \<noteq> None then ''used''
      else if iv_RevokedAt i \<noteq> None then ''revoked''
      else if now > iv_ExpiresAt i then ''expired''
      else ''active'')"

definition is_admin :: "user option \<Rightarrow> bool" where
  "is_admin admin \<longleftrightarrow> (case admin of None \<Rightarrow> False | Some p \<Rightarrow> IsAdmin p)"

text \<open>
  The new row's id (\<^verbatim>\<open>gen_random_uuid()\<close>) is the argument \<open>uuid\<close>.
\<close>

definition CreateInvite ::
  "env \<Rightarrow> crypto \<Rightarrow> rand_source \<Rightarrow> string \<Rightarrow> user option \<Rightarrow> string \<Rightarrow> time \<Rightarrow> world
   \<Rightarrow> (auth_error + string \<times> invite) \<times> world" where
  "CreateInvite env c rnd uuid admin note ttl w =
     (case admin of None \<Rightarrow> (Inl ErrAdminRequired, w) | Some p \<Rightarrow>
      if \<not> IsAdmin p then (Inl ErrAdminRequired, w) else
      let ttl = (if ttl = 0 then inviteDefaultTTL else ttl); note = trim_space note in
      if ttl < inviteMinTTL \<or> ttl > inviteMaxTTL \<or> length note > inviteNoteMaxLen
      then (Inl ErrInvitePolicy, w) else
      case rand_read inviteCodeBytes rnd of
        None \<Rightarrow> (Inl (ErrAuthOther ''auth: generate invite code''), w)
      | Some raw \<Rightarrow>
      let code = base32_encode raw;
          row = \<lparr>i_id = uuid, i_code_hash = HashToken c code, i_note = note, i_by = u_ID p,
                 i_created = en_now env, i_expires = en_now env + ttl,
                 i_used_by = None, i_used_at = None, i_revoked_at = None\<rparr> in
      case exec env CallInsertInvite (insert_invite row (w_db w)) of
        Inl _ \<Rightarrow> (Inl (ErrAuthOther ''auth: create invite''), w)
      | Inr d \<Rightarrow>
          (Inr (code, \<lparr>iv_ID = uuid, iv_Note = note, iv_CreatedBy = u_Username p,
                       iv_CreatedAt = en_now env, iv_ExpiresAt = en_now env + ttl,
                       iv_UsedBy = [], iv_UsedAt = None, iv_RevokedAt = None\<rparr>),
           Record env (service_event (u_ID p) (u_Username p) ''invite.create'' uuid ResultOK [])
             (w\<lparr>w_db := d\<rparr>)))"

text \<open>
  The listing joins the issuing account and, when there is one, the redeeming account. Rows
  with equal time stamps come in table order.
\<close>

definition invite_view :: "db \<Rightarrow> invite_row \<Rightarrow> invite option" where
  "invite_view d r = (case user_by_id (i_by r) d of
     None \<Rightarrow> None
   | Some by \<Rightarrow> Some \<lparr>iv_ID = i_id r, iv_Note = i_note r, iv_CreatedBy = ur_username by,
       iv_CreatedAt = i_created r, iv_ExpiresAt = i_expires r,
       iv_UsedBy = (case i_used_by r of None \<Rightarrow> []
         | Some i \<Rightarrow> (case user_by_id i d of None \<Rightarrow> [] | Some x \<Rightarrow> ur_username x)),
       iv_UsedAt = i_used_at r, iv_RevokedAt = i_revoked_at r\<rparr>)"

definition ListInvites :: "env \<Rightarrow> user option \<Rightarrow> world \<Rightarrow> auth_error + invite list" where
  "ListInvites env admin w =
     (if \<not> is_admin admin then Inl ErrAdminRequired else
      case exec env CallListInvites (Inr ()) of
        Inl _ \<Rightarrow> Inl (ErrAuthOther ''auth: list invites'')
      | Inr _ \<Rightarrow> Inr (take inviteListMaxRows
          (sort_key (\<lambda>i. - iv_CreatedAt i) (List.map_filter (invite_view (w_db w)) (invites (w_db w))))))"

definition revoke_invite_row :: "string \<Rightarrow> time \<Rightarrow> db \<Rightarrow> db" where
  "revoke_invite_row i t d =
     d\<lparr>invites := update_where (\<lambda>r. i_id r = i \<and> i_used_at r = None \<and> i_revoked_at r = None)
                    (\<lambda>r. r\<lparr>i_revoked_at := Some t\<rparr>) (invites d)\<rparr>"

definition RevokeInvite ::
  "env \<Rightarrow> user option \<Rightarrow> string \<Rightarrow> world \<Rightarrow> (auth_error + unit) \<times> world" where
  "RevokeInvite env admin i w =
     (case admin of None \<Rightarrow> (Inl ErrAdminRequired, w) | Some p \<Rightarrow>
      if \<not> IsAdmin p then (Inl ErrAdminRequired, w) else
      case exec env CallRevokeInvite
             (if pg_uuid i then Inr (revoke_invite_row i (en_now env) (w_db w)) else Inl InvalidText) of
        Inl _ \<Rightarrow> (Inl (ErrAuthOther ''auth: revoke invite''), w)
      | Inr d \<Rightarrow>
          if count_where (\<lambda>r. i_id r = i \<and> i_used_at r = None \<and> i_revoked_at r = None)
               (invites (w_db w)) = 0
          then (Inl ErrInviteNotFound, w\<lparr>w_db := d\<rparr>)
          else (Inr (), Record env (service_event (u_ID p) (u_Username p) ''invite.revoke'' i ResultOK [])
                          (w\<lparr>w_db := d\<rparr>)))"

section \<open>Admission\<close>

definition normalizeInviteCode :: "unicode \<Rightarrow> string \<Rightarrow> string" where
  "normalizeInviteCode u code =
     filter (\<lambda>c. c \<noteq> CHR '' '' \<and> c \<noteq> CHR ''-'') (to_upper u (trim_space code))"

definition redeemable :: "time \<Rightarrow> bytes \<Rightarrow> invite_row \<Rightarrow> bool" where
  "redeemable now h r \<longleftrightarrow>
     i_code_hash r = h \<and> i_used_at r = None \<and> i_revoked_at r = None \<and> i_expires r > now"

definition deny_registration :: "env \<Rightarrow> string \<Rightarrow> string \<Rightarrow> world \<Rightarrow> world" where
  "deny_registration env username reason w =
     Record env (service_event [] username ''auth.register'' username ResultDenied reason) w"

text \<open>
  The denials go through the connection pool, not through the transaction: they stay when the
  transaction is rolled back. The result is the audit reason and the id of the invite to
  consume, or \<open>[]\<close>.
\<close>

definition admitRegistration ::
  "env \<Rightarrow> crypto \<Rightarrow> unicode \<Rightarrow> service \<Rightarrow> string \<Rightarrow> string \<Rightarrow> world
   \<Rightarrow> (auth_error + string \<times> string) \<times> world" where
  "admitRegistration env c u s username inviteCode w =
     (if en_fail env CallLockRegistration then (Inl (ErrAuthOther ''auth: lock registrations''), w) else
      case exec env CallCountUsers (Inr (int (length (users (w_db w))))) of
        Inl _ \<Rightarrow> (Inl (ErrAuthOther ''auth: count users''), w)
      | Inr count \<Rightarrow>
      if count = 0 then (Inr (''bootstrap'', []), w) else
      if rp_MaxUsers (sv_policy s) > 0 \<and> count \<ge> rp_MaxUsers (sv_policy s)
      then (Inl ErrUserLimitReached, deny_registration env username ''user_limit'' w) else
      if rp_Mode (sv_policy s) = RegistrationClosed
      then (Inl ErrRegistrationClosed, deny_registration env username ''registration_closed'' w) else
      if rp_Mode (sv_policy s) = RegistrationInvite then
        let code = normalizeInviteCode u inviteCode in
        if code = [] then (Inl ErrInviteRequired, deny_registration env username ''invite_required'' w) else
        case exec env CallSelectInvite
               (Inr (query_row (redeemable (en_now env) (HashToken c code)) (invites (w_db w)))) of
          Inl _ \<Rightarrow> (Inl (ErrAuthOther ''auth: look up invite''), w)
        | Inr None \<Rightarrow> (Inl ErrInviteInvalid, deny_registration env username ''invite_invalid'' w)
        | Inr (Some r) \<Rightarrow> (Inr (''invite'', i_id r), w)
      else (Inr (''open'', []), w))"

section \<open>Frames\<close>

lemma deny_frame [simp]:
  "users (w_db (deny_registration env n r w)) = users (w_db w)"
  "sessions (w_db (deny_registration env n r w)) = sessions (w_db w)"
  "failures (w_db (deny_registration env n r w)) = failures (w_db w)"
  "blobs (w_db (deny_registration env n r w)) = blobs (w_db w)"
  "nodes (w_db (deny_registration env n r w)) = nodes (w_db w)"
  "grants (w_db (deny_registration env n r w)) = grants (w_db w)"
  "invites (w_db (deny_registration env n r w)) = invites (w_db w)"
  "w_fs (deny_registration env n r w) = w_fs w"
  "extends w (deny_registration env n r w)"
  "core (w_db (deny_registration env n r w)) = core (w_db w)"
  by (simp_all add: deny_registration_def)

lemma deny_schema [simp]: "schema_ok (w_db w) \<Longrightarrow> schema_ok (w_db (deny_registration env n r w))"
  by (simp add: deny_registration_def)

text \<open>An admission changes nothing; a refusal at most adds the audit event.\<close>

lemma admit_world:
  assumes "admitRegistration env c u s nm code w = (res, w')"
  shows "w' = w \<or> (\<exists>reason e. res = Inl e \<and> w' = deny_registration env nm reason w)"
  using assms unfolding admitRegistration_def Let_def
  by (auto split: if_splits sum.splits option.splits)

lemma admit_Inr_world: "admitRegistration env c u s nm code w = (Inr x, w') \<Longrightarrow> w' = w"
  using admit_world by fastforce

lemma admit_Inr_cases:
  assumes "admitRegistration env c u s nm code w = (Inr (reason, i), w')"
  obtains (bootstrap) "users (w_db w) = []" "i = []" "reason = ''bootstrap''"
  | (invite) r where "rp_Mode (sv_policy s) = RegistrationInvite" "users (w_db w) \<noteq> []"
      "query_row (redeemable (en_now env) (HashToken c (normalizeInviteCode u code))) (invites (w_db w)) = Some r"
      "i = i_id r" "reason = ''invite''"
      "rp_MaxUsers (sv_policy s) > 0 \<longrightarrow> int (length (users (w_db w))) < rp_MaxUsers (sv_policy s)"
  | (anyone) "rp_Mode (sv_policy s) \<noteq> RegistrationInvite" "rp_Mode (sv_policy s) \<noteq> RegistrationClosed"
      "users (w_db w) \<noteq> []" "i = []" "reason = ''open''"
      "rp_MaxUsers (sv_policy s) > 0 \<longrightarrow> int (length (users (w_db w))) < rp_MaxUsers (sv_policy s)"
proof (cases "users (w_db w) = []")
  case True
  with assms bootstrap show thesis
    by (auto simp: admitRegistration_def exec_def split: if_splits)
next
  case False
  with assms have cap: "rp_MaxUsers (sv_policy s) > 0 \<longrightarrow> int (length (users (w_db w))) < rp_MaxUsers (sv_policy s)"
    and open_mode: "rp_Mode (sv_policy s) \<noteq> RegistrationClosed"
    by (auto simp: admitRegistration_def exec_def split: if_splits)
  show thesis
  proof (cases "rp_Mode (sv_policy s) = RegistrationInvite")
    case True
    with assms False open_mode obtain r where
        "query_row (redeemable (en_now env) (HashToken c (normalizeInviteCode u code))) (invites (w_db w)) = Some r"
        "i = i_id r" "reason = ''invite''"
      by (auto simp: admitRegistration_def exec_def Let_def split: if_splits option.splits)
    with True False cap show thesis
      by (intro invite)
  next
    case mode: False
    with assms False cap open_mode show thesis
      by (intro anyone) (auto simp: admitRegistration_def exec_def split: if_splits)
  qed
qed

section \<open>Lemmas on invites\<close>

lemma query_row_unique:
  assumes "r \<in> set t" and "P r" and "\<And>x. x \<in> set t \<Longrightarrow> P x \<Longrightarrow> x = r"
  shows "query_row P t = Some r"
proof (cases "query_row P t")
  case None
  with assms(1,2) show ?thesis by (auto simp: query_row_None)
next
  case (Some x)
  then have "x = r" using query_row_Some [OF Some] assms(3) by blast
  with Some show ?thesis by simp
qed

lemma admit_with_invite:
  assumes "\<not> en_fail env CallLockRegistration" "\<not> en_fail env CallCountUsers" "\<not> en_fail env CallSelectInvite"
    and "users (w_db w) \<noteq> []" and "rp_Mode (sv_policy s) = RegistrationInvite"
    and "rp_MaxUsers (sv_policy s) > 0 \<longrightarrow> int (length (users (w_db w))) < rp_MaxUsers (sv_policy s)"
    and "normalizeInviteCode u code \<noteq> []"
  shows "admitRegistration env c u s nm code w =
    (case query_row (redeemable (en_now env) (HashToken c (normalizeInviteCode u code))) (invites (w_db w)) of
       None \<Rightarrow> (Inl ErrInviteInvalid, deny_registration env nm ''invite_invalid'' w)
     | Some r \<Rightarrow> (Inr (''invite'', i_id r), w))"
proof -
  have mode: "\<not> rp_Mode (sv_policy s) = RegistrationClosed" "rp_Mode (sv_policy s) = RegistrationInvite"
    using assms(5) by (simp_all add: mode_defs)
  have cap: "\<not> (0 < rp_MaxUsers (sv_policy s) \<and> rp_MaxUsers (sv_policy s) \<le> int (length (users (w_db w))))"
    using assms(6) by auto
  have count: "int (length (users (w_db w))) \<noteq> 0"
    using assms(4) by simp
  show ?thesis
    unfolding admitRegistration_def Let_def exec_ok [OF assms(2)] exec_ok [OF assms(3)]
    by (simp only: sum.case if_not_P [OF assms(1)] if_not_P [OF count] if_not_P [OF cap] if_not_P [OF mode(1)]
        if_P [OF mode(2)] if_not_P [OF assms(7)])
qed

lemma CreateInvite_Inr:
  assumes "CreateInvite env c rnd uuid admin note ttl w = (Inr (code, v), w')"
  obtains p raw d where "admin = Some p" "IsAdmin p" "rand_read inviteCodeBytes rnd = Some raw"
    "code = base32_encode raw" "iv_ID v = uuid" "iv_ExpiresAt v = iv_CreatedAt v + (if ttl = 0 then inviteDefaultTTL else ttl)"
    "iv_CreatedAt v = en_now env" "inviteMinTTL \<le> (if ttl = 0 then inviteDefaultTTL else ttl)"
    "(if ttl = 0 then inviteDefaultTTL else ttl) \<le> inviteMaxTTL"
    "insert_invite \<lparr>i_id = uuid, i_code_hash = HashToken c code, i_note = trim_space note, i_by = u_ID p,
       i_created = en_now env, i_expires = iv_ExpiresAt v, i_used_by = None, i_used_at = None,
       i_revoked_at = None\<rparr> (w_db w) = Inr d"
    "w' = Record env (service_event (u_ID p) (u_Username p) ''invite.create'' uuid ResultOK []) (w\<lparr>w_db := d\<rparr>)"
  using assms unfolding CreateInvite_def Let_def
  by (auto simp: exec_Inr split: option.splits if_splits sum.splits)

lemma trim_list_drop_ends:
  assumes "\<forall>x\<in>set pre. P x" and "\<forall>x\<in>set post. P x"
  shows "trim_list P (pre @ mid @ post) = trim_list P mid"
proof -
  have "dropWhile P (pre @ mid @ post) = dropWhile P (mid @ post)"
    using assms(1) by (simp add: dropWhile_append2)
  also have "dropWhile P (rev (dropWhile P (mid @ post))) = dropWhile P (rev (dropWhile P mid))"
  proof (cases "\<forall>x\<in>set mid. P x")
    case True
    with assms(2) have "dropWhile P mid = []" "dropWhile P (mid @ post) = []"
      by (auto simp only: dropWhile_eq_Nil_conv set_append Un_iff)
    then show ?thesis by (simp only:)
  next
    case False
    then obtain x where "x \<in> set mid" "\<not> P x" by blast
    moreover have "dropWhile P (rev post @ ys) = dropWhile P ys" for ys
      using assms(2) by (subst dropWhile_append2) auto
    ultimately show ?thesis
      by (simp add: dropWhile_append1)
  qed
  finally show ?thesis by (simp add: trim_list_def)
qed

lemma filter_dropWhile_on:
  "(\<And>x. x \<in> set xs \<Longrightarrow> P x \<Longrightarrow> \<not> Q x) \<Longrightarrow> filter Q (dropWhile P xs) = filter Q xs"
  by (induction xs) auto

lemma filter_trim_list_on:
  assumes "\<And>x. x \<in> set xs \<Longrightarrow> P x \<Longrightarrow> \<not> Q x"
  shows "filter Q (trim_list P xs) = filter Q xs"
proof -
  have "filter Q (trim_list P xs) = rev (filter Q (dropWhile P (rev (dropWhile P xs))))"
    by (simp add: trim_list_def rev_filter)
  also have "\<dots> = rev (filter Q (rev (dropWhile P xs)))"
    using assms by (subst filter_dropWhile_on) (auto dest: set_dropWhileD)
  also have "\<dots> = filter Q xs"
    using assms by (simp add: rev_filter filter_dropWhile_on)
  finally show ?thesis .
qed

definition upper_char :: "char \<Rightarrow> char" where
  "upper_char c = (if 97 \<le> (of_char c :: nat) \<and> (of_char c :: nat) \<le> 122
                   then char_of ((of_char c :: nat) - 32) else c)"

lemma to_upper_upper_char: "ascii s \<Longrightarrow> to_upper u s = map upper_char s"
  by (auto simp: to_upper_ascii upper_rune_def upper_char_def ascii_def)

definition separator :: "char \<Rightarrow> bool" where
  "separator c \<longleftrightarrow> c = CHR '' '' \<or> c = CHR ''-''"

lemma separator_code: "separator c \<longleftrightarrow> (of_char c :: nat) = 32 \<or> (of_char c :: nat) = 45"
proof -
  have "c = d \<longleftrightarrow> (of_char c :: nat) = of_char d" for d
    by (metis char_of_char)
  from this [of "CHR '' ''"] this [of "CHR ''-''"] show ?thesis
    by (simp add: separator_def)
qed

lemma separator_upper [simp]: "separator (upper_char c) = separator c"
  by (auto simp: separator_code upper_char_def)

lemma base32_not_space: "c \<in> set (base32_encode raw) \<Longrightarrow> \<not> is_space (of_char c)"
  using set_base32_encode [of raw] by (auto simp: base32_alphabet_def is_space_def)

lemma upper_char_space: "is_space (of_char c) \<Longrightarrow> upper_char c = c"
  by (auto simp: is_space_def upper_char_def)

lemma normalize_retyped:
  assumes "\<forall>x\<in>set (pre @ post). is_space (of_char x)" and "ascii (pre @ mid @ post)"
    and "map upper_char (filter (\<lambda>x. \<not> separator x) mid) = base32_encode raw"
  shows "normalizeInviteCode u (pre @ mid @ post) = base32_encode raw"
proof -
  let ?P = "\<lambda>x :: char. is_space (of_char x)" and ?Q = "\<lambda>x. \<not> separator x"
  have "trim_space (pre @ mid @ post) = trim_list ?P mid"
    using assms(1) trim_list_drop_ends [of pre ?P post mid] trim_space_ascii [OF assms(2)] by simp
  moreover have "ascii (trim_list ?P mid)"
    using assms(2) set_trim_list [of ?P mid] by (auto simp: ascii_def)
  ultimately have "normalizeInviteCode u (pre @ mid @ post) = filter ?Q (map upper_char (trim_list ?P mid))"
    by (simp add: normalizeInviteCode_def to_upper_upper_char separator_def)
  also have "\<dots> = map upper_char (filter ?Q (trim_list ?P mid))"
    by (simp add: filter_map o_def)
  also have "filter ?Q (trim_list ?P mid) = filter ?Q mid"
  proof (rule filter_trim_list_on, rule notI)
    fix x assume x: "x \<in> set mid" "is_space (of_char x)" "\<not> separator x"
    then have "upper_char x \<in> set (base32_encode raw)"
      unfolding assms(3) [symmetric] by simp
    with x(2) show False
      using base32_not_space upper_char_space by metis
  qed
  finally show ?thesis using assms(3) by simp
qed

lemma normalize_code: "normalizeInviteCode u (base32_encode raw) = base32_encode raw"
proof -
  have "\<not> separator x \<and> upper_char x = x" if "x \<in> set (base32_encode raw)" for x
    using that set_base32_encode [of raw] by (auto simp: base32_alphabet_def separator_def upper_char_def)
  then have "filter (\<lambda>x. \<not> separator x) (base32_encode raw) = base32_encode raw"
    "map upper_char (base32_encode raw) = base32_encode raw"
    by (simp_all add: map_idI)
  moreover have "ascii (base32_encode raw)"
    using set_base32_encode [of raw] by (fastforce simp: ascii_def base32_alphabet_def)
  ultimately show ?thesis
    using normalize_retyped [of "[]" "[]" "base32_encode raw" raw u] by simp
qed

section \<open>A concrete deployment\<close>

definition demo_id :: "string \<Rightarrow> string" where
  "demo_id s = ''00000000-0000-4000-8000-0000000000'' @ s"

definition demo_user_row :: "string \<Rightarrow> string \<Rightarrow> string \<Rightarrow> user_row" where
  "demo_user_row s nm role = \<lparr>ur_id = demo_id s, ur_username = nm, ur_hash = ''x'', ur_role = role,
     ur_created = 0, ur_changed = 0\<rparr>"

definition demo_user :: "string \<Rightarrow> string \<Rightarrow> string \<Rightarrow> user" where
  "demo_user s nm role = \<lparr>u_ID = demo_id s, u_Username = nm, u_Role = role\<rparr>"

definition demo_db :: db where
  "demo_db = empty_db\<lparr>users := [demo_user_row ''01'' ''root'' ''admin'', demo_user_row ''02'' ''bob'' ''user'']\<rparr>"

definition demo_service :: "registration_mode \<Rightarrow> service" where
  "demo_service m = \<lparr>sv_idle = 30 * minute, sv_absolute = 4 * hour, sv_policy = \<lparr>rp_Mode = m, rp_MaxUsers = 0\<rparr>\<rparr>"

lemma demo_schema_ok: "schema_ok demo_db"
  by (simp add: schema_defs demo_db_def empty_db_def demo_user_row_def demo_id_def pg_uuid_def hex_alphabet_def)

section \<open>Properties\<close>

text \<open>
  A code is accepted however it is re-typed: white space around it, spaces and dashes
  anywhere inside and any letter case normalise to the code that was issued.
\<close>

theorem invite_code_retyped:
  assumes "\<forall>x\<in>set (pre @ post). is_space (of_char x)" and "ascii (pre @ mid @ post)"
    and "map upper_char (filter (\<lambda>x. \<not> separator x) mid) = base32_encode raw"
  shows "normalizeInviteCode u (pre @ mid @ post) = base32_encode raw"
  using assms by (rule normalize_retyped)

theorem invite_code_retyped_witness:
  "normalizeInviteCode demo_unicode '' me4-q '' = ''ME4Q''"
proof -
  have "base32_encode [97, 57] = ''ME4Q''" by code_simp
  moreover have "map upper_char (filter (\<lambda>x. \<not> separator x) ''me4-q'') = ''ME4Q''" by code_simp
  ultimately show ?thesis
    using invite_code_retyped [where pre = "'' ''" and mid = "''me4-q''" and post = "'' ''" and
        raw = "[97, 57]" and u = demo_unicode]
    by (simp add: is_space_def)
qed

text \<open>
  An issued invite is redeemable until it expires: the issuer is an administrator, the
  lifetime is between one minute and thirty days, the database holds the digest of the code
  only, and at any later moment before the expiry a registration in invite mode below the user
  cap that presents the code (however re-typed) is admitted under this invite's id.
\<close>

theorem issued_invite_is_redeemable:
  assumes "schema_ok (w_db w)" and "CreateInvite env c rnd uuid admin note ttl w = (Inr (code, v), w')"
    and "rp_Mode (sv_policy s) = RegistrationInvite" and "users (w_db w) \<noteq> []"
    and "rp_MaxUsers (sv_policy s) > 0 \<longrightarrow> int (length (users (w_db w))) < rp_MaxUsers (sv_policy s)"
    and "\<forall>call. \<not> en_fail env' call" and "en_now env' < iv_ExpiresAt v"
    and "normalizeInviteCode u typed = code"
  shows "is_admin admin \<and> iv_CreatedAt v + minute \<le> iv_ExpiresAt v \<and>
    iv_ExpiresAt v \<le> iv_CreatedAt v + 30 * 24 * hour \<and>
    (\<exists>r. invites (w_db w') = invites (w_db w) @ [r] \<and> i_id r = iv_ID v \<and> i_code_hash r = HashToken c code) \<and>
    admitRegistration env' c u s nm typed w' = (Inr (''invite'', iv_ID v), w')"
proof -
  from assms(2) obtain p raw d where p: "admin = Some p" "IsAdmin p"
    and raw: "rand_read inviteCodeBytes rnd = Some raw" "code = base32_encode raw"
    and v: "iv_ID v = uuid" "iv_ExpiresAt v = iv_CreatedAt v + (if ttl = 0 then inviteDefaultTTL else ttl)"
    and ttl: "inviteMinTTL \<le> (if ttl = 0 then inviteDefaultTTL else ttl)"
      "(if ttl = 0 then inviteDefaultTTL else ttl) \<le> inviteMaxTTL"
    and d: "insert_invite \<lparr>i_id = uuid, i_code_hash = HashToken c code, i_note = trim_space note, i_by = u_ID p,
       i_created = en_now env, i_expires = iv_ExpiresAt v, i_used_by = None, i_used_at = None,
       i_revoked_at = None\<rparr> (w_db w) = Inr d" (is "insert_invite ?r _ = _")
    and w': "w' = Record env (service_event (u_ID p) (u_Username p) ''invite.create'' uuid ResultOK []) (w\<lparr>w_db := d\<rparr>)"
    by (rule CreateInvite_Inr)
  have inv: "invites (w_db w') = invites (w_db w) @ [?r]"
    using invite_codes.insert_appends [OF d] by (simp add: w')
  have usr: "users (w_db w') = users (w_db w)"
    using d by (auto simp: w' insert_invite_def split: if_splits)
  have "code \<noteq> []"
    using rand_read_length [OF raw(1)] length_base32_encode [of raw] raw(2)
    by (auto simp: inviteCodeBytes_def)
  moreover have "query_row (redeemable (en_now env') (HashToken c code)) (invites (w_db w')) = Some ?r"
  proof (rule query_row_unique)
    show "redeemable (en_now env') (HashToken c code) ?r"
      using assms(7) by (simp add: redeemable_def)
    show "x = ?r" if "x \<in> set (invites (w_db w'))" "redeemable (en_now env') (HashToken c code) x" for x
      using that invite_codes.insert_fresh [OF d] unfolding inv by (auto simp: redeemable_def image_iff)
  qed (simp add: inv)
  ultimately have "admitRegistration env' c u s nm typed w' = (Inr (''invite'', iv_ID v), w')"
    using assms(3-6,8) usr v(1) by (subst admit_with_invite) auto
  with p inv v ttl show ?thesis
    by (auto simp: is_admin_def inviteMinTTL_def inviteMaxTTL_def)
qed

theorem issued_invite_is_redeemable_witness:
  "\<exists>code v w'. CreateInvite demo_env demo_crypto (Some (\<lambda>_. 65)) (demo_id ''09'')
       (Some (demo_user ''01'' ''root'' ''admin'')) ''for carol'' 0 (demo_world\<lparr>w_db := demo_db\<rparr>) = (Inr (code, v), w') \<and>
     admitRegistration demo_env demo_crypto demo_unicode (demo_service ''invite'') ''carol'' code w' =
       (Inr (''invite'', demo_id ''09''), w')"
proof -
  let ?w = "demo_world\<lparr>w_db := demo_db\<rparr>" and ?admin = "Some (demo_user ''01'' ''root'' ''admin'')"
  let ?x = "CreateInvite demo_env demo_crypto (Some (\<lambda>_. 65)) (demo_id ''09'') ?admin ''for carol'' 0 ?w"
  have "pg_uuid (demo_id ''09'')" by (simp add: demo_id_def pg_uuid_def hex_alphabet_def)
  moreover have "trim_space ''for carol'' = ''for carol''"
    by (simp add: trim_space_ascii trim_list_def is_space_def)
  ultimately have "\<exists>code v w'. ?x = (Inr (code, v), w')"
    by (simp add: CreateInvite_def demo_user_def IsAdmin_def roleAdmin_def invite_const_defs rand_read_def
        exec_def demo_env_def insert_invite_def demo_db_def empty_db_def demo_user_row_def pg_text_ascii Let_def)
  then obtain code v w' where x: "?x = (Inr (code, v), w')" by blast
  from x obtain raw where code: "code = base32_encode raw" and v: "iv_ID v = demo_id ''09''"
      "iv_ExpiresAt v = en_now demo_env + inviteDefaultTTL"
    by (rule CreateInvite_Inr) auto
  have "admitRegistration demo_env demo_crypto demo_unicode (demo_service ''invite'') ''carol'' code w' =
      (Inr (''invite'', iv_ID v), w')"
    using issued_invite_is_redeemable [where env' = demo_env and u = demo_unicode and typed = code and
        s = "demo_service ''invite''" and nm = "''carol''", OF _ x] demo_schema_ok v normalize_code code
    by (simp add: demo_service_def mode_defs demo_db_def demo_env_def inviteDefaultTTL_def)
  with x v show ?thesis by auto
qed

text \<open>
  What an administrator is shown about an invite is what redemption checks: a listed
  invite has status \<open>active\<close> and has not reached its expiry instant exactly when its code is redeemable.
\<close>

theorem listed_status_is_redeemability:
  assumes "invite_view d r = Some v"
  shows "redeemable now (i_code_hash r) r \<longleftrightarrow> Status now v = ''active'' \<and> now \<noteq> iv_ExpiresAt v"
  using assms by (auto simp: invite_view_def redeemable_def Status_def split: option.splits)

theorem listed_status_is_redeemability_witness:
  "let r = \<lparr>i_id = demo_id ''09'', i_code_hash = [1], i_note = [], i_by = demo_id ''01'', i_created = 0,
       i_expires = 50, i_used_by = None, i_used_at = None, i_revoked_at = None\<rparr>
   in redeemable 49 [1] r \<and> (\<exists>v. invite_view demo_db r = Some v \<and> Status 49 v = ''active'')"
proof -
  let ?r = "\<lparr>i_id = demo_id ''09'', i_code_hash = [1], i_note = [], i_by = demo_id ''01'', i_created = 0,
       i_expires = 50, i_used_by = None, i_used_at = None, i_revoked_at = None\<rparr>"
  have "\<exists>v. invite_view demo_db ?r = Some v"
    by (simp add: invite_view_def user_by_id_def demo_db_def empty_db_def demo_user_row_def table_simps)
  moreover have "redeemable 49 [1] ?r" by (simp add: redeemable_def)
  ultimately show ?thesis
    using listed_status_is_redeemability [of demo_db ?r _ 49] by (auto simp: Let_def)
qed

text \<open>
  Revocation: without a database failure an administrator's revocation of a well-formed identifier succeeds exactly
  when some invite with that id is neither used nor revoked; afterwards no invite with
  that id is redeemable at any time; used invites and all other invites are as before.
\<close>

theorem revoke_invite_semantics:
  assumes "is_admin admin" and "\<not> en_fail env CallRevokeInvite" and "pg_uuid i"
    and "RevokeInvite env admin i w = (res, w')"
  shows "(res = Inr () \<longleftrightarrow> (\<exists>r\<in>set (invites (w_db w)). i_id r = i \<and> i_used_at r = None \<and> i_revoked_at r = None)) \<and>
    (res \<noteq> Inr () \<longrightarrow> res = Inl ErrInviteNotFound) \<and>
    (\<forall>r\<in>set (invites (w_db w')). i_id r = i \<longrightarrow> (\<forall>now h. \<not> redeemable now h r)) \<and>
    filter (\<lambda>r. i_id r \<noteq> i \<or> i_used_at r \<noteq> None) (invites (w_db w')) =
      filter (\<lambda>r. i_id r \<noteq> i \<or> i_used_at r \<noteq> None) (invites (w_db w))"
proof -
  obtain p where p: "admin = Some p" "IsAdmin p"
    using assms(1) by (auto simp: is_admin_def split: option.splits)
  have inv: "invites (w_db w') = invites (revoke_invite_row i (en_now env) (w_db w))"
    using assms p by (auto simp: RevokeInvite_def exec_ok split: if_splits)
  have res: "res = Inr () \<longleftrightarrow> (\<exists>r\<in>set (invites (w_db w)). i_id r = i \<and> i_used_at r = None \<and> i_revoked_at r = None)"
    "res \<noteq> Inr () \<longrightarrow> res = Inl ErrInviteNotFound"
    using assms p by (auto simp: RevokeInvite_def exec_ok count_where_zero split: if_splits)
  have dead: "\<forall>r\<in>set (invites (w_db w')). i_id r = i \<longrightarrow> (\<forall>now h. \<not> redeemable now h r)"
    unfolding inv by (auto simp: revoke_invite_row_def ball_update_where redeemable_def)
  have "filter (\<lambda>r. i_id r \<noteq> i \<or> i_used_at r \<noteq> None) (update_where
      (\<lambda>r. i_id r = i \<and> i_used_at r = None \<and> i_revoked_at r = None) (\<lambda>r. r\<lparr>i_revoked_at := Some t\<rparr>) xs) =
    filter (\<lambda>r. i_id r \<noteq> i \<or> i_used_at r \<noteq> None) xs" for t xs
    by (induction xs) (auto simp: update_where_def)
  with res dead show ?thesis
    by (simp add: inv revoke_invite_row_def)
qed

theorem revoke_invite_semantics_witness:
  "let r = \<lparr>i_id = demo_id ''09'', i_code_hash = [1], i_note = [], i_by = demo_id ''01'', i_created = 0,
       i_expires = 500 * hour, i_used_by = None, i_used_at = None, i_revoked_at = None\<rparr>;
       x = RevokeInvite demo_env (Some (demo_user ''01'' ''root'' ''admin'')) (demo_id ''09'')
         (demo_world\<lparr>w_db := demo_db\<lparr>invites := [r]\<rparr>\<rparr>)
   in fst x = Inr () \<and> (\<forall>r'\<in>set (invites (w_db (snd x))). i_id r' = demo_id ''09'' \<longrightarrow> \<not> redeemable 0 [1] r')"
proof -
  let ?r = "\<lparr>i_id = demo_id ''09'', i_code_hash = [1], i_note = [], i_by = demo_id ''01'', i_created = 0,
       i_expires = 500 * hour, i_used_by = None, i_used_at = None, i_revoked_at = None\<rparr>"
  let ?a = "Some (demo_user ''01'' ''root'' ''admin'')"
  define w where "w = demo_world\<lparr>w_db := demo_db\<lparr>invites := [?r]\<rparr>\<rparr>"
  obtain res w' where x: "RevokeInvite demo_env ?a (demo_id ''09'') w = (res, w')"
    by fastforce
  have "is_admin ?a" by (simp add: is_admin_def demo_user_def IsAdmin_def roleAdmin_def)
  moreover have "\<not> en_fail demo_env CallRevokeInvite" "pg_uuid (demo_id ''09'')"
    by (simp_all add: demo_env_def demo_id_def pg_uuid_def hex_alphabet_def)
  moreover have "invites (w_db w) = [?r]" by (simp add: w_def)
  ultimately show ?thesis
    using revoke_invite_semantics [OF _ _ _ x] x unfolding w_def by (simp add: Let_def)
qed

end
