(* ===== verification/Auth_Service.thy ===== *)
theory Auth_Service
  imports Registration
begin

text \<open>
  The authentication service, \<^verbatim>\<open>internal/auth/service.go\<close>: registration, login with its
  throttling window, sessions, logout and password change. Every operation is a function of
  its environment (clock, database failures), the random values it draws and the world.
\<close>

section \<open>Constants\<close>

definition passwordMinLen :: nat where "passwordMinLen = 8"
definition passwordMaxLen :: nat where "passwordMaxLen = 128"

definition throttleWindow :: time where "throttleWindow = 15 * minute"
definition throttleUserMax :: nat where "throttleUserMax = 10"
definition throttleAddrMax :: nat where "throttleAddrMax = 30"
definition sessionIdleTTL :: time where "sessionIdleTTL = 30 * minute"
definition sessionAbsoluteTTL :: time where "sessionAbsoluteTTL = 4 * hour"

lemmas throttle_defs = throttleWindow_def throttleUserMax_def throttleAddrMax_def

definition NewService :: service where
  "NewService = \<lparr>sv_idle = sessionIdleTTL, sv_absolute = sessionAbsoluteTTL,
     sv_policy = \<lparr>rp_Mode = RegistrationOpen, rp_MaxUsers = 0\<rparr>\<rparr>"

text \<open>The regular expression \<^verbatim>\<open>^[a-z0-9][a-z0-9_.-]{2,31}$\<close>.\<close>

definition lower_alnum :: "char \<Rightarrow> bool" where
  "lower_alnum c \<longleftrightarrow> c \<in> set ''abcdefghijklmnopqrstuvwxyz0123456789''"

definition usernameRe :: "string \<Rightarrow> bool" where
  "usernameRe s \<longleftrightarrow> (case s of [] \<Rightarrow> False
     | c # r \<Rightarrow> lower_alnum c \<and> 2 \<le> length r \<and> length r \<le> 31 \<and>
         list_all (\<lambda>x. lower_alnum x \<or> x \<in> set ''_.-'') r)"

definition password_ok :: "string \<Rightarrow> bool" where
  "password_ok p \<longleftrightarrow> \<not> (length p < passwordMinLen \<or> length p > passwordMaxLen)"

section \<open>Register\<close>

definition consume_invite :: "string \<Rightarrow> string \<Rightarrow> time \<Rightarrow> db \<Rightarrow> db" where
  "consume_invite i uid t d =
     d\<lparr>invites := update_where (\<lambda>r. i_id r = i) (\<lambda>r. r\<lparr>i_used_by := Some uid, i_used_at := Some t\<rparr>)
                    (invites d)\<rparr>"

definition register_audit :: "env \<Rightarrow> user \<Rightarrow> string \<Rightarrow> string \<Rightarrow> world \<Rightarrow> world" where
  "register_audit env p reason inviteID w =
     (let w1 = Record env (service_event (u_ID p) (u_Username p) ''auth.register'' (u_Username p) ResultOK reason) w
      in if inviteID \<noteq> []
         then Record env (service_event (u_ID p) (u_Username p) ''invite.redeem'' inviteID ResultOK []) w1
         else w1)"

definition Register ::
  "env \<Rightarrow> crypto \<Rightarrow> unicode \<Rightarrow> rand_source \<Rightarrow> string \<Rightarrow> service \<Rightarrow> string \<Rightarrow> string \<Rightarrow> string
   \<Rightarrow> world \<Rightarrow> (auth_error + user) \<times> world" where
  "Register env c u rnd uuid s username password inviteCode w =
     (if \<not> usernameRe username then (Inl ErrUsernamePolicy, w) else
      if \<not> password_ok password then (Inl ErrPasswordPolicy, w) else
      case HashPassword c rnd password of
        Inl _ \<Rightarrow> (Inl (ErrAuthOther ''auth: generate salt''), w)
      | Inr hash \<Rightarrow>
      if en_fail env CallBegin then (Inl (ErrAuthOther ''auth: begin registration''), w) else
      case admitRegistration env c u s username inviteCode w of
        (Inl e, w1) \<Rightarrow> (Inl e, w1)
      | (Inr (reason, inviteID), w1) \<Rightarrow>
      case exec env CallInsertUser (insert_user \<lparr>ur_id = uuid, ur_username = username, ur_hash = hash,
             ur_role = roleUser, ur_created = en_now env, ur_changed = en_now env\<rparr> (w_db w1)) of
        Inl UniqueViolation \<Rightarrow> (Inl ErrUsernameTaken, w1)
      | Inl _ \<Rightarrow> (Inl (ErrAuthOther ''auth: create user''), w1)
      | Inr d2 \<Rightarrow>
      case (if inviteID \<noteq> [] then exec env CallConsumeInvite (Inr (consume_invite inviteID uuid (en_now env) d2))
            else Inr d2) of
        Inl _ \<Rightarrow> (Inl (ErrAuthOther ''auth: consume invite''), w1)
      | Inr d3 \<Rightarrow>
      case commit_tx env (w_db w1) d3 of
        (False, d) \<Rightarrow> (Inl (ErrAuthOther ''auth: commit registration''), w1\<lparr>w_db := d\<rparr>)
      | (True, d) \<Rightarrow>
          let p = \<lparr>u_ID = uuid, u_Username = username, u_Role = roleUser\<rparr>
          in (Inr p, register_audit env p reason inviteID (w1\<lparr>w_db := d\<rparr>)))"

section \<open>Login\<close>

definition userKey :: "string \<Rightarrow> string" where "userKey username = ''u:'' @ username"
definition addrKey :: "string \<Rightarrow> string" where "addrKey clientAddr = ''ip:'' @ clientAddr"

definition prune_failures :: "time \<Rightarrow> db \<Rightarrow> db" where
  "prune_failures now d = d\<lparr>failures := delete_where (\<lambda>f. lf_at f < now - throttleWindow) (failures d)\<rparr>"

definition recent_failures :: "time \<Rightarrow> string \<Rightarrow> db \<Rightarrow> nat" where
  "recent_failures now k d = count_where (\<lambda>f. lf_key f = k \<and> now - throttleWindow \<le> lf_at f) (failures d)"

definition isThrottled :: "env \<Rightarrow> string \<Rightarrow> string \<Rightarrow> world \<Rightarrow> (auth_error + bool) \<times> world" where
  "isThrottled env ukey akey w =
     (case exec env CallPruneFailures (Inr (prune_failures (en_now env) (w_db w))) of
        Inl _ \<Rightarrow> (Inl (ErrAuthOther ''auth: prune failures''), w)
      | Inr d \<Rightarrow>
      case exec env CallCountFailures
             (if pg_text ukey \<and> pg_text akey
              then Inr (recent_failures (en_now env) ukey d, recent_failures (en_now env) akey d)
              else Inl InvalidText) of
        Inl _ \<Rightarrow> (Inl (ErrAuthOther ''auth: count failures''), w\<lparr>w_db := d\<rparr>)
      | Inr (userFails, addrFails) \<Rightarrow>
          (Inr (userFails \<ge> throttleUserMax \<or> addrFails \<ge> throttleAddrMax), w\<lparr>w_db := d\<rparr>))"

definition loginFailed ::
  "env \<Rightarrow> string \<Rightarrow> string \<Rightarrow> string \<Rightarrow> string \<Rightarrow> world \<Rightarrow> auth_error \<times> world" where
  "loginFailed env username ukey akey reason w =
     (case exec env CallInsertFailures
             (insert_failures [\<lparr>lf_key = ukey, lf_at = en_now env\<rparr>, \<lparr>lf_key = akey, lf_at = en_now env\<rparr>]
                (w_db w)) of
        Inl _ \<Rightarrow> (ErrAuthOther ''auth: record failure'', w)
      | Inr d \<Rightarrow> (ErrInvalidCredentials,
          Record env (service_event [] username ''auth.login'' username ResultDenied reason) (w\<lparr>w_db := d\<rparr>)))"

definition createSession ::
  "env \<Rightarrow> crypto \<Rightarrow> rand_source \<Rightarrow> service \<Rightarrow> string \<Rightarrow> world \<Rightarrow> (auth_error + string) \<times> world" where
  "createSession env c rnd s uid w =
     (case NewSessionToken c rnd of
        None \<Rightarrow> (Inl (ErrAuthOther ''auth: generate session token''), w)
      | Some (token, hash) \<Rightarrow>
      case exec env CallInsertSession
             (insert_session \<lparr>se_user = uid, se_token_hash = hash, se_created = en_now env,
                se_expires = en_now env + sv_absolute s, se_last_seen = en_now env\<rparr> (w_db w)) of
        Inl _ \<Rightarrow> (Inl (ErrAuthOther ''auth: create session''), w)
      | Inr d \<Rightarrow> (Inr token, w\<lparr>w_db := d\<rparr>))"

text \<open>
  \<open>dummyHash\<close> is the package variable; \<^verbatim>\<open>EqualizeTiming\<close> has no effect on the world, and its
  call is where the code has it.
\<close>

definition Login ::
  "env \<Rightarrow> crypto \<Rightarrow> rand_source \<Rightarrow> string \<Rightarrow> service \<Rightarrow> string \<Rightarrow> string \<Rightarrow> string
   \<Rightarrow> world \<Rightarrow> (auth_error + string \<times> user) \<times> world" where
  "Login env c rnd dummyHash s username password clientAddr w =
     (let ukey = userKey username; akey = addrKey clientAddr in
      case isThrottled env ukey akey w of
        (Inl e, w1) \<Rightarrow> (Inl e, w1)
      | (Inr True, w1) \<Rightarrow>
          (Inl ErrThrottled, Record env (service_event [] username ''auth.login'' username ResultDenied ''throttled'') w1)
      | (Inr False, w1) \<Rightarrow>
      case exec env CallSelectUser (Inr (user_by_name username (w_db w1))) of
        Inl _ \<Rightarrow> (Inl (ErrAuthOther ''auth: look up user''), w1)
      | Inr None \<Rightarrow>
          let _ = EqualizeTiming c dummyHash password;
              (e, w2) = loginFailed env username ukey akey ''unknown_user'' w1
          in (Inl e, w2)
      | Inr (Some row) \<Rightarrow>
      case VerifyPassword c password (ur_hash row) of
        Inl _ \<Rightarrow> (Inl (ErrAuthOther ''auth: verify password''), w1)
      | Inr False \<Rightarrow>
          let (e, w2) = loginFailed env username ukey akey ''wrong_password'' w1 in (Inl e, w2)
      | Inr True \<Rightarrow>
      case exec env CallClearFailures
             (Inr ((w_db w1)\<lparr>failures := delete_where (\<lambda>f. lf_key f = ukey) (failures (w_db w1))\<rparr>)) of
        Inl _ \<Rightarrow> (Inl (ErrAuthOther ''auth: clear failures''), w1)
      | Inr d \<Rightarrow>
      case createSession env c rnd s (ur_id row) (w1\<lparr>w_db := d\<rparr>) of
        (Inl e, w2) \<Rightarrow> (Inl e, w2)
      | (Inr token, w2) \<Rightarrow>
          (Inr (token, \<lparr>u_ID = ur_id row, u_Username = username, u_Role = ur_role row\<rparr>),
           Record env (service_event (ur_id row) username ''auth.login'' username ResultOK []) w2))"

section \<open>Sessions\<close>

definition session_live :: "service \<Rightarrow> time \<Rightarrow> bytes \<Rightarrow> session_row \<Rightarrow> bool" where
  "session_live s now h r \<longleftrightarrow>
     se_token_hash r = h \<and> se_expires r > now \<and> se_last_seen r > now - sv_idle s"

definition ValidateSession ::
  "env \<Rightarrow> crypto \<Rightarrow> service \<Rightarrow> string \<Rightarrow> world \<Rightarrow> (auth_error + user) \<times> world" where
  "ValidateSession env c s token w =
     (if token = [] then (Inl ErrSessionInvalid, w) else
      if en_fail env CallTouchSession then (Inl (ErrAuthOther ''auth: validate session''), w) else
      let live = (\<lambda>r. session_live s (en_now env) (HashToken c token) r \<and> user_by_id (se_user r) (w_db w) \<noteq> None);
          w1 = w\<lparr>w_db := (w_db w)\<lparr>sessions := update_where live (\<lambda>r. r\<lparr>se_last_seen := en_now env\<rparr>)
                                            (sessions (w_db w))\<rparr>\<rparr>
      in case query_row live (sessions (w_db w)) of
           None \<Rightarrow> (Inl ErrSessionInvalid, w1)
         | Some r \<Rightarrow> (case user_by_id (se_user r) (w_db w) of
             None \<Rightarrow> (Inl ErrSessionInvalid, w1)
           | Some x \<Rightarrow> (Inr \<lparr>u_ID = ur_id x, u_Username = ur_username x, u_Role = ur_role x\<rparr>, w1)))"

definition Logout :: "env \<Rightarrow> crypto \<Rightarrow> string \<Rightarrow> user \<Rightarrow> world \<Rightarrow> (auth_error + unit) \<times> world" where
  "Logout env c token p w =
     (case exec env CallDeleteSession
             (Inr ((w_db w)\<lparr>sessions := delete_where (\<lambda>r. se_token_hash r = HashToken c token)
                                     (sessions (w_db w))\<rparr>)) of
        Inl _ \<Rightarrow> (Inl (ErrAuthOther ''auth: destroy session''), w)
      | Inr d \<Rightarrow> (Inr (), Record env (service_event (u_ID p) (u_Username p) ''auth.logout'' (u_Username p) ResultOK [])
                           (w\<lparr>w_db := d\<rparr>)))"

definition update_password :: "string \<Rightarrow> string \<Rightarrow> time \<Rightarrow> db \<Rightarrow> db" where
  "update_password uid hash t d =
     d\<lparr>users := update_where (\<lambda>x. ur_id x = uid) (\<lambda>x. x\<lparr>ur_hash := hash, ur_changed := t\<rparr>) (users d)\<rparr>"

definition ChangePassword ::
  "env \<Rightarrow> crypto \<Rightarrow> rand_source \<Rightarrow> rand_source \<Rightarrow> service \<Rightarrow> user \<Rightarrow> string \<Rightarrow> string
   \<Rightarrow> world \<Rightarrow> (auth_error + string) \<times> world" where
  "ChangePassword env c rndSalt rndToken s p current new w =
     (if \<not> password_ok new then (Inl ErrPasswordPolicy, w) else
      case exec env CallSelectUser (Inr (user_by_id (u_ID p) (w_db w))) of
        Inl _ \<Rightarrow> (Inl (ErrAuthOther ''auth: look up user''), w)
      | Inr None \<Rightarrow> (Inl (ErrAuthOther ''auth: look up user''), w)
      | Inr (Some row) \<Rightarrow>
      case VerifyPassword c current (ur_hash row) of
        Inl _ \<Rightarrow> (Inl (ErrAuthOther ''auth: malformed password hash''), w)
      | Inr False \<Rightarrow>
          (Inl ErrInvalidCredentials,
           Record env (service_event (u_ID p) (u_Username p) ''auth.password_change'' (u_Username p)
             ResultDenied ''wrong_password'') w)
      | Inr True \<Rightarrow>
      case HashPassword c rndSalt new of
        Inl _ \<Rightarrow> (Inl (ErrAuthOther ''auth: generate salt''), w)
      | Inr newHash \<Rightarrow>
      case exec env CallUpdatePassword (Inr (update_password (u_ID p) newHash (en_now env) (w_db w))) of
        Inl _ \<Rightarrow> (Inl (ErrAuthOther ''auth: update password''), w)
      | Inr d1 \<Rightarrow>
      case exec env CallRevokeSessions
             (Inr (d1\<lparr>sessions := delete_where (\<lambda>r. se_user r = u_ID p) (sessions d1)\<rparr>)) of
        Inl _ \<Rightarrow> (Inl (ErrAuthOther ''auth: revoke sessions''), w\<lparr>w_db := d1\<rparr>)
      | Inr d2 \<Rightarrow>
      case createSession env c rndToken s (u_ID p) (w\<lparr>w_db := d2\<rparr>) of
        (Inl e, w3) \<Rightarrow> (Inl e, w3)
      | (Inr token, w3) \<Rightarrow>
          (Inr token, Record env (service_event (u_ID p) (u_Username p) ''auth.password_change''
             (u_Username p) ResultOK []) w3))"

section \<open>Case analysis of the operations\<close>

lemma register_audit_frame [simp]:
  "core (w_db (register_audit env p reason i w)) = core (w_db w)"
  "w_fs (register_audit env p reason i w) = w_fs w"
  "extends w (register_audit env p reason i w)"
  "schema_ok (w_db w) \<Longrightarrow> schema_ok (w_db (register_audit env p reason i w))"
  using extends_trans [OF Record_extends Record_extends] by (simp_all add: register_audit_def Let_def)

definition new_user :: "env \<Rightarrow> string \<Rightarrow> string \<Rightarrow> string \<Rightarrow> user_row" where
  "new_user env uuid username hash =
     \<lparr>ur_id = uuid, ur_username = username, ur_hash = hash, ur_role = roleUser,
      ur_created = en_now env, ur_changed = en_now env\<rparr>"

lemma Register_stops:
  assumes "Register env c u rnd uuid s username password code w = (res, w')"
    and "\<not> (usernameRe username \<and> password_ok password \<and> \<not> en_fail env CallBegin \<and>
      (\<exists>hash reason i d2. HashPassword c rnd password = Inr hash \<and>
         admitRegistration env c u s username code w = (Inr (reason, i), w) \<and>
         exec env CallInsertUser (insert_user (new_user env uuid username hash) (w_db w)) = Inr d2 \<and>
         \<not> (i \<noteq> [] \<and> en_fail env CallConsumeInvite)))"
  shows "(\<exists>e. res = Inl e) \<and> core (w_db w') = core (w_db w) \<and> w_fs w' = w_fs w \<and> extends w w' \<and>
    (schema_ok (w_db w) \<longrightarrow> schema_ok (w_db w'))"
proof (cases "usernameRe username \<and> password_ok password \<and> \<not> en_fail env CallBegin \<and>
    (\<exists>hash. HashPassword c rnd password = Inr hash)")
  case False
  with assms(1) show ?thesis by (auto simp: Register_def split: if_splits sum.splits)
next
  case True
  then obtain hash where hash: "HashPassword c rnd password = Inr hash" by blast
  obtain r w1 where adm: "admitRegistration env c u s username code w = (r, w1)" by fastforce
  show ?thesis
  proof (cases r)
    case (Inl e)
    with assms(1) True hash adm admit_world [OF adm] show ?thesis by (auto simp: Register_def)
  next
    case (Inr ri)
    obtain reason i where ri: "ri = (reason, i)" by fastforce
    with adm Inr have w1: "w1 = w" using admit_Inr_world by blast
    show ?thesis
      using assms True hash adm Inr ri w1
      by (auto simp: Register_def new_user_def exec_Inr split: pg_error.splits sum.splits if_splits)
  qed
qed

lemma Register_cases:
  assumes run: "Register env c u rnd uuid s username password code w = (res, w')"
  obtains (refused) e where "res = Inl e" "core (w_db w') = core (w_db w)" "w_fs w' = w_fs w" "extends w w'"
      "schema_ok (w_db w) \<Longrightarrow> schema_ok (w_db w')"
  | (created) hash reason i d2 d3 where
      "usernameRe username" "password_ok password" "HashPassword c rnd password = Inr hash"
      "admitRegistration env c u s username code w = (Inr (reason, i), w)"
      "insert_user (new_user env uuid username hash) (w_db w) = Inr d2"
      "d3 = (if i \<noteq> [] then consume_invite i uuid (en_now env) d2 else d2)"
      "core (w_db w') = core d3" "w_fs w' = w_fs w" "extends w w'"
      "schema_ok d3 \<Longrightarrow> schema_ok (w_db w')"
      "res = Inr \<lparr>u_ID = uuid, u_Username = username, u_Role = roleUser\<rparr> \<or>
       res = Inl (ErrAuthOther ''auth: commit registration'') \<and> en_commit env = CommitLost"
proof (cases "usernameRe username \<and> password_ok password \<and> \<not> en_fail env CallBegin \<and>
      (\<exists>hash reason i d2. HashPassword c rnd password = Inr hash \<and>
         admitRegistration env c u s username code w = (Inr (reason, i), w) \<and>
         exec env CallInsertUser (insert_user (new_user env uuid username hash) (w_db w)) = Inr d2 \<and>
         \<not> (i \<noteq> [] \<and> en_fail env CallConsumeInvite))")
  case False
  from Register_stops [OF run this] refused show thesis by blast
next
  case True
  then obtain hash reason i d2 where ok: "usernameRe username" "password_ok password" "\<not> en_fail env CallBegin"
      "HashPassword c rnd password = Inr hash" "admitRegistration env c u s username code w = (Inr (reason, i), w)"
      "exec env CallInsertUser (insert_user (new_user env uuid username hash) (w_db w)) = Inr d2"
      "\<not> (i \<noteq> [] \<and> en_fail env CallConsumeInvite)" by blast
  then have row: "insert_user (new_user env uuid username hash) (w_db w) = Inr d2" by (simp add: exec_Inr)
  define d3 where "d3 = (if i \<noteq> [] then consume_invite i uuid (en_now env) d2 else d2)"
  let ?p = "\<lparr>u_ID = uuid, u_Username = username, u_Role = roleUser\<rparr>"
  have commit: "(case commit_tx env (w_db w) d3 of
        (False, d) \<Rightarrow> (Inl (ErrAuthOther ''auth: commit registration''), w\<lparr>w_db := d\<rparr>)
      | (True, d) \<Rightarrow> let p = ?p in (Inr p, register_audit env p reason i (w\<lparr>w_db := d\<rparr>))) = (res, w')"
    using run ok by (simp add: Register_def new_user_def exec_def d3_def split: if_splits)
  have ext: "extends w (w\<lparr>w_db := d3\<rparr>)"
    using row by (auto simp: extends_same d3_def insert_user_def consume_invite_def split: if_splits)
  note made = created [OF ok(1,2,4,5) row d3_def]
  show thesis
  proof (cases "en_commit env")
    case CommitRefused
    with commit show thesis by (intro refused) (auto simp: commit_tx_def Let_def)
  next
    case CommitLost
    with commit ext show thesis by (intro made) (auto simp: commit_tx_def Let_def)
  next
    case CommitDone
    with commit have w': "w' = register_audit env ?p reason i (w\<lparr>w_db := d3\<rparr>)" "res = Inr ?p"
      by (auto simp: commit_tx_def Let_def)
    then show thesis
      using extends_trans [OF ext register_audit_frame(3)] by (intro made) simp_all
  qed
qed

text \<open>The throttle check prunes the table and changes nothing else.\<close>

definition throttled :: "time \<Rightarrow> string \<Rightarrow> string \<Rightarrow> db \<Rightarrow> bool" where
  "throttled now username addr d \<longleftrightarrow>
     recent_failures now (userKey username) d \<ge> throttleUserMax \<or>
     recent_failures now (addrKey addr) d \<ge> throttleAddrMax"

lemma recent_after_prune: "recent_failures now k (prune_failures now d) = recent_failures now k d"
  by (simp add: recent_failures_def prune_failures_def count_where_delete)
    (rule count_where_cong, auto)

lemma prune_frame [simp]:
  "users (prune_failures now d) = users d" "sessions (prune_failures now d) = sessions d"
  "blobs (prune_failures now d) = blobs d" "nodes (prune_failures now d) = nodes d"
  "grants (prune_failures now d) = grants d" "invites (prune_failures now d) = invites d"
  "audit_events (prune_failures now d) = audit_events d" "audit_seq (prune_failures now d) = audit_seq d"
  by (simp_all add: prune_failures_def)

lemma isThrottled_cases:
  assumes "isThrottled env (userKey nm) (addrKey addr) w = (res, w')"
  obtains (error) e where "res = Inl (ErrAuthOther e)" "w' = w \<or> w' = w\<lparr>w_db := prune_failures (en_now env) (w_db w)\<rparr>"
  | (decided) "res = Inr (throttled (en_now env) nm addr (w_db w))"
      "w' = w\<lparr>w_db := prune_failures (en_now env) (w_db w)\<rparr>" "pg_text (userKey nm)" "pg_text (addrKey addr)"
proof (cases "en_fail env CallPruneFailures \<or> en_fail env CallCountFailures \<or>
    \<not> pg_text (userKey nm) \<or> \<not> pg_text (addrKey addr)")
  case True
  with assms error show thesis
    by (auto simp: isThrottled_def exec_def split: if_splits)
next
  case False
  then have "isThrottled env (userKey nm) (addrKey addr) w =
      (Inr (throttled (en_now env) nm addr (w_db w)), w\<lparr>w_db := prune_failures (en_now env) (w_db w)\<rparr>)"
    by (simp add: isThrottled_def throttled_def recent_after_prune exec_def)
  with False assms decided show thesis by simp
qed

lemma createSession_cases:
  assumes "createSession env c rnd s uid w = (res, w')"
  obtains (error) e where "res = Inl (ErrAuthOther e)" "w' = w"
  | (created) token h d where "NewSessionToken c rnd = Some (token, h)"
      "insert_session \<lparr>se_user = uid, se_token_hash = h, se_created = en_now env,
         se_expires = en_now env + sv_absolute s, se_last_seen = en_now env\<rparr> (w_db w) = Inr d"
      "res = Inr token" "w' = w\<lparr>w_db := d\<rparr>" "\<not> en_fail env CallInsertSession"
  using assms unfolding createSession_def
  by (auto simp: exec_def split: option.splits if_splits sum.splits)

lemma loginFailed_cases:
  assumes "loginFailed env nm ukey akey reason w = (e, w')"
  obtains (error) "e = ErrAuthOther ''auth: record failure''" "w' = w"
  | (recorded) "e = ErrInvalidCredentials" "pg_text ukey" "pg_text akey"
      "w' = Record env (service_event [] nm ''auth.login'' nm ResultDenied reason)
         (w\<lparr>w_db := (w_db w)\<lparr>failures := failures (w_db w) @
            [\<lparr>lf_key = ukey, lf_at = en_now env\<rparr>, \<lparr>lf_key = akey, lf_at = en_now env\<rparr>]\<rparr>\<rparr>)"
  using assms unfolding loginFailed_def
  by (auto simp: exec_def insert_failures_def split: if_splits sum.splits)

definition login_failures_rows :: "env \<Rightarrow> string \<Rightarrow> string \<Rightarrow> failure_row list" where
  "login_failures_rows env nm addr =
     [\<lparr>lf_key = userKey nm, lf_at = en_now env\<rparr>, \<lparr>lf_key = addrKey addr, lf_at = en_now env\<rparr>]"

lemma NewSessionToken_hash: "NewSessionToken c rnd = Some (t, h) \<Longrightarrow> h = HashToken c t"
  by (auto simp: NewSessionToken_def Let_def split: option.splits)

lemma insert_session_Inr:
  "insert_session r d = Inr d' \<Longrightarrow> d' = d\<lparr>sessions := sessions d @ [r]\<rparr> \<and>
   se_token_hash r \<notin> se_token_hash ` set (sessions d) \<and> (\<exists>x\<in>set (users d). ur_id x = se_user r)"
  by (auto simp: insert_session_def image_iff split: if_splits)

definition fresh_session :: "env \<Rightarrow> crypto \<Rightarrow> service \<Rightarrow> string \<Rightarrow> string \<Rightarrow> session_row" where
  "fresh_session env c s uid token =
     \<lparr>se_user = uid, se_token_hash = HashToken c token, se_created = en_now env,
      se_expires = en_now env + sv_absolute s, se_last_seen = en_now env\<rparr>"

text \<open>The statements of Login after the password check, and those after the throttle check.\<close>

definition login_success ::
  "env \<Rightarrow> crypto \<Rightarrow> rand_source \<Rightarrow> service \<Rightarrow> string \<Rightarrow> user_row
   \<Rightarrow> world \<Rightarrow> (auth_error + string \<times> user) \<times> world" where
  "login_success env c rnd s username row w1 =
     (case exec env CallClearFailures
             (Inr ((w_db w1)\<lparr>failures := delete_where (\<lambda>f. lf_key f = userKey username) (failures (w_db w1))\<rparr>)) of
        Inl _ \<Rightarrow> (Inl (ErrAuthOther ''auth: clear failures''), w1)
      | Inr d \<Rightarrow>
      case createSession env c rnd s (ur_id row) (w1\<lparr>w_db := d\<rparr>) of
        (Inl e, w2) \<Rightarrow> (Inl e, w2)
      | (Inr token, w2) \<Rightarrow>
          (Inr (token, \<lparr>u_ID = ur_id row, u_Username = username, u_Role = ur_role row\<rparr>),
           Record env (service_event (ur_id row) username ''auth.login'' username ResultOK []) w2))"

definition login_rest ::
  "env \<Rightarrow> crypto \<Rightarrow> rand_source \<Rightarrow> service \<Rightarrow> string \<Rightarrow> string \<Rightarrow> string
   \<Rightarrow> world \<Rightarrow> (auth_error + string \<times> user) \<times> world" where
  "login_rest env c rnd s username password clientAddr w1 =
     (let refuse = (\<lambda>reason. let (e, w2) = loginFailed env username (userKey username) (addrKey clientAddr) reason w1
                            in (Inl e, w2)) in
      case exec env CallSelectUser (Inr (user_by_name username (w_db w1))) of
        Inl _ \<Rightarrow> (Inl (ErrAuthOther ''auth: look up user''), w1)
      | Inr None \<Rightarrow> refuse ''unknown_user''
      | Inr (Some row) \<Rightarrow>
      case VerifyPassword c password (ur_hash row) of
        Inl _ \<Rightarrow> (Inl (ErrAuthOther ''auth: verify password''), w1)
      | Inr False \<Rightarrow> refuse ''wrong_password''
      | Inr True \<Rightarrow> login_success env c rnd s username row w1)"

lemma Login_split:
  "Login env c rnd dummy s nm pw addr w =
     (case isThrottled env (userKey nm) (addrKey addr) w of
        (Inl e, w1) \<Rightarrow> (Inl e, w1)
      | (Inr True, w1) \<Rightarrow>
          (Inl ErrThrottled, Record env (service_event [] nm ''auth.login'' nm ResultDenied ''throttled'') w1)
      | (Inr False, w1) \<Rightarrow> login_rest env c rnd s nm pw addr w1)"
  by (simp add: Login_def login_rest_def login_success_def Let_def cong: sum.case_cong option.case_cong bool.case_cong)

text \<open>What a login leaves behind: the failure and session tables named, the rest as it was.\<close>

definition login_effect :: "world \<Rightarrow> failure_row list \<Rightarrow> session_row list \<Rightarrow> world \<Rightarrow> bool" where
  "login_effect w fs ss w' \<longleftrightarrow>
     core (w_db w') = core ((w_db w)\<lparr>failures := fs, sessions := ss\<rparr>) \<and> w_fs w' = w_fs w \<and> extends w w' \<and>
     (schema_ok (w_db w) \<longrightarrow> schema_ok (w_db w'))"

lemma login_effect_refl: "login_effect w (failures (w_db w)) (sessions (w_db w)) w"
  by (simp add: login_effect_def)

lemma login_effect_trans:
  assumes "login_effect w fs ss w1" and "login_effect w1 fs' ss' w'"
  shows "login_effect w fs' ss' w'"
proof -
  have "core (w_db w1) = core ((w_db w)\<lparr>failures := fs, sessions := ss\<rparr>)"
    and "core (w_db w') = core ((w_db w1)\<lparr>failures := fs', sessions := ss'\<rparr>)"
    using assms by (simp_all add: login_effect_def)
  from core_eqD [OF this(1)] core_eqD [OF this(2)]
  have "core (w_db w') = core ((w_db w)\<lparr>failures := fs', sessions := ss'\<rparr>)"
    by (intro core_eqI) simp_all
  with assms show ?thesis by (auto simp: login_effect_def intro: extends_trans)
qed

lemma login_effect_Record: "login_effect w fs ss w1 \<Longrightarrow> login_effect w fs ss (Record env e w1)"
  by (auto simp: login_effect_def intro: extends_trans)

lemma login_effect_failures:
  "login_effect w fs (sessions (w_db w)) (w\<lparr>w_db := (w_db w)\<lparr>failures := fs\<rparr>\<rparr>)"
  by (simp add: login_effect_def extends_same)

lemma login_success_cases:
  assumes "login_success env c rnd s nm row w = (res, w')"
  obtains (error) e P where "res = Inl (ErrAuthOther e)"
      "login_effect w (filter P (failures (w_db w))) (sessions (w_db w)) w'"
  | (ok) token where "NewSessionToken c rnd = Some (token, HashToken c token)"
      "res = Inr (token, \<lparr>u_ID = ur_id row, u_Username = nm, u_Role = ur_role row\<rparr>)"
      "HashToken c token \<notin> se_token_hash ` set (sessions (w_db w))"
      "login_effect w (filter (\<lambda>f. lf_key f \<noteq> userKey nm) (failures (w_db w)))
         (sessions (w_db w) @ [fresh_session env c s (ur_id row) token]) w'"
proof -
  define v where "v = w\<lparr>w_db := (w_db w)\<lparr>failures := filter (\<lambda>f. lf_key f \<noteq> userKey nm) (failures (w_db w))\<rparr>\<rparr>"
  have v: "login_effect w (filter (\<lambda>f. lf_key f \<noteq> userKey nm) (failures (w_db w))) (sessions (w_db w)) v"
    unfolding v_def by (rule login_effect_failures)
  obtain r2 w2 where ses: "createSession env c rnd s (ur_id row) v = (r2, w2)" by fastforce
  note run = assms [unfolded login_success_def] ses
  show thesis
  proof (cases "en_fail env CallClearFailures")
    case True
    with run show thesis
      by (intro error [of "''auth: clear failures''" "\<lambda>_. True"]) (auto simp: exec_def login_effect_refl)
  next
    case False
    from ses show thesis
    proof (cases rule: createSession_cases)
      case (error e)
      with run v False show thesis
        by (intro that(1)) (auto simp: exec_def v_def delete_where_def)
    next
      case (created token h d)
      note ins = insert_session_Inr [OF created(2), simplified]
      have h: "h = HashToken c token" using NewSessionToken_hash [OF created(1)] .
      let ?e = "service_event (ur_id row) nm ''auth.login'' nm ResultOK []"
      have r: "res = Inr (token, \<lparr>u_ID = ur_id row, u_Username = nm, u_Role = ur_role row\<rparr>)" "w' = Record env ?e w2"
        using run False created(3) by (auto simp: exec_def v_def delete_where_def)
      have "login_effect v (failures (w_db v)) (sessions (w_db v) @ [fresh_session env c s (ur_id row) token]) w2"
        using ins created(4) schema_insert_session [OF _ created(2)]
        by (auto simp: login_effect_def fresh_session_def h intro: core_eqI extends_same)
      then have "login_effect w (failures (w_db v)) (sessions (w_db v) @ [fresh_session env c s (ur_id row) token]) w'"
        unfolding r(2) by (intro login_effect_Record login_effect_trans [OF v])
      with created(1) r(1) ins h show thesis by (intro ok [of token]) (simp_all add: v_def)
    qed
  qed
qed

lemma loginFailed_effect:
  assumes "loginFailed env nm (userKey nm) (addrKey addr) reason w = (e, w')"
  obtains (error) "e = ErrAuthOther ''auth: record failure''" "w' = w"
  | (recorded) "e = ErrInvalidCredentials"
      "login_effect w (failures (w_db w) @ login_failures_rows env nm addr) (sessions (w_db w)) w'"
  using assms
  by (cases rule: loginFailed_cases)
    (auto simp: login_failures_rows_def intro: that login_effect_Record login_effect_failures)

lemma login_rest_cases:
  assumes "login_rest env c rnd s nm pw addr w = (res, w')"
  obtains (error) e P where "res = Inl e" "e \<noteq> ErrInvalidCredentials"
      "login_effect w (filter P (failures (w_db w))) (sessions (w_db w)) w'"
  | (failed) "res = Inl ErrInvalidCredentials"
      "user_by_name nm (w_db w) = None \<or>
       (\<exists>row. user_by_name nm (w_db w) = Some row \<and> VerifyPassword c pw (ur_hash row) = Inr False)"
      "login_effect w (failures (w_db w) @ login_failures_rows env nm addr) (sessions (w_db w)) w'"
  | (ok) row token where "user_by_name nm (w_db w) = Some row" "VerifyPassword c pw (ur_hash row) = Inr True"
      "NewSessionToken c rnd = Some (token, HashToken c token)"
      "res = Inr (token, \<lparr>u_ID = ur_id row, u_Username = nm, u_Role = ur_role row\<rparr>)"
      "HashToken c token \<notin> se_token_hash ` set (sessions (w_db w))"
      "login_effect w (filter (\<lambda>f. lf_key f \<noteq> userKey nm) (failures (w_db w)))
         (sessions (w_db w) @ [fresh_session env c s (ur_id row) token]) w'"
proof -
  have give_up: thesis if "res = Inl (ErrAuthOther e)" "w' = w" for e
    using that error [of "ErrAuthOther e" "\<lambda>_. True"] by (simp add: login_effect_refl)
  have refused: thesis
    if c: "user_by_name nm (w_db w) = None \<or>
         (\<exists>row. user_by_name nm (w_db w) = Some row \<and> VerifyPassword c pw (ur_hash row) = Inr False)"
      and r: "(let (e, w2) = loginFailed env nm (userKey nm) (addrKey addr) reason w in (Inl e, w2)) = (res, w')"
    for reason
  proof -
    obtain e w2 where lf: "loginFailed env nm (userKey nm) (addrKey addr) reason w = (e, w2)" by fastforce
    with r have "res = Inl e" "w' = w2" by simp_all
    with lf show thesis
      by (cases rule: loginFailed_effect) (auto intro: give_up failed [OF _ c])
  qed
  note run = assms [unfolded login_rest_def Let_def]
  show thesis
  proof (cases "en_fail env CallSelectUser")
    case True
    with run show thesis by (intro give_up) (auto simp: exec_def)
  next
    case sel: False
    show thesis
    proof (cases "user_by_name nm (w_db w)")
      case None
      with run sel show thesis by (intro refused [of "''unknown_user''"]) (auto simp: exec_def)
    next
      case row: (Some row)
      consider e where "VerifyPassword c pw (ur_hash row) = Inl e" | "VerifyPassword c pw (ur_hash row) = Inr False"
        | "VerifyPassword c pw (ur_hash row) = Inr True" by (metis (full_types) sum.exhaust)
      then show thesis
      proof cases
        case 1
        with run sel row show thesis by (intro give_up) (auto simp: exec_def)
      next
        case 2
        with run sel row show thesis by (intro refused [of "''wrong_password''"]) (auto simp: exec_def)
      next
        case 3
        with run sel row have "login_success env c rnd s nm row w = (res, w')" by (simp add: exec_def)
        then show thesis
          by (cases rule: login_success_cases) (use row 3 in \<open>auto intro: that\<close>)
      qed
    qed
  qed
qed

lemma prune_effect:
  "login_effect w (failures (prune_failures t (w_db w))) (sessions (w_db w)) (w\<lparr>w_db := prune_failures t (w_db w)\<rparr>)"
  unfolding prune_failures_def by (simp add: login_effect_failures)

lemma Login_cases:
  assumes "Login env c rnd dummy s nm pw addr w = (res, w')"
  obtains (error) e P where "res = Inl e" "e \<noteq> ErrInvalidCredentials"
      "core (w_db w') = core ((w_db w)\<lparr>failures := filter P (failures (w_db w))\<rparr>)" "w_fs w' = w_fs w" "extends w w'"
      "schema_ok (w_db w) \<Longrightarrow> schema_ok (w_db w')"
  | (failed) "res = Inl ErrInvalidCredentials" "\<not> throttled (en_now env) nm addr (w_db w)"
      "user_by_name nm (w_db w) = None \<or>
       (\<exists>row. user_by_name nm (w_db w) = Some row \<and> VerifyPassword c pw (ur_hash row) = Inr False)"
      "core (w_db w') = core ((prune_failures (en_now env) (w_db w))
         \<lparr>failures := failures (prune_failures (en_now env) (w_db w)) @ login_failures_rows env nm addr\<rparr>)"
      "w_fs w' = w_fs w" "extends w w'" "schema_ok (w_db w) \<Longrightarrow> schema_ok (w_db w')"
  | (ok) row token where "\<not> throttled (en_now env) nm addr (w_db w)"
      "user_by_name nm (w_db w) = Some row" "VerifyPassword c pw (ur_hash row) = Inr True"
      "NewSessionToken c rnd = Some (token, HashToken c token)"
      "res = Inr (token, \<lparr>u_ID = ur_id row, u_Username = nm, u_Role = ur_role row\<rparr>)"
      "HashToken c token \<notin> se_token_hash ` set (sessions (w_db w))"
      "core (w_db w') = core ((w_db w)\<lparr>failures := filter (\<lambda>f. lf_key f \<noteq> userKey nm)
           (failures (prune_failures (en_now env) (w_db w))),
         sessions := sessions (w_db w) @ [\<lparr>se_user = ur_id row, se_token_hash = HashToken c token,
           se_created = en_now env, se_expires = en_now env + sv_absolute s, se_last_seen = en_now env\<rparr>]\<rparr>)"
      "w_fs w' = w_fs w" "extends w w'" "schema_ok (w_db w) \<Longrightarrow> schema_ok (w_db w')"
proof -
  have on_error: thesis
    if r: "res = Inl e" "e \<noteq> ErrInvalidCredentials"
      and x: "login_effect w (filter P (failures (w_db w))) (sessions (w_db w)) w'" for e P
  proof (rule error [OF r, of P])
    show "core (w_db w') = core ((w_db w)\<lparr>failures := filter P (failures (w_db w))\<rparr>)"
      using x by (simp add: login_effect_def)
  qed (use x in \<open>simp_all add: login_effect_def\<close>)
  define t where "t = en_now env"
  define wp where "wp = w\<lparr>w_db := prune_failures t (w_db w)\<rparr>"
  have wp: "login_effect w (failures (w_db wp)) (sessions (w_db w)) wp" "sessions (w_db wp) = sessions (w_db w)"
      "user_by_name nm (w_db wp) = user_by_name nm (w_db w)"
      "failures (w_db wp) = filter (\<lambda>f. \<not> lf_at f < t - throttleWindow) (failures (w_db w))"
    using prune_effect [of w t] by (simp_all add: wp_def user_by_name_def) (simp add: prune_failures_def delete_where_def)
  obtain r1 w1 where thr: "isThrottled env (userKey nm) (addrKey addr) w = (r1, w1)" by fastforce
  then show thesis
  proof (cases rule: isThrottled_cases)
    case (error e)
    then have r: "res = Inl (ErrAuthOther e)" and "w' = w \<or> w' = wp"
      using assms thr by (auto simp: Login_split wp_def t_def)
    from this(2) have "\<exists>P. login_effect w (filter P (failures (w_db w))) (sessions (w_db w)) w'"
    proof
      assume "w' = w"
      then show ?thesis by (intro exI [of _ "\<lambda>_. True"]) (simp add: login_effect_refl)
    next
      assume "w' = wp"
      with wp(1) [unfolded wp(4)] show ?thesis by blast
    qed
    with r show thesis by (auto intro: on_error)
  next
    case decided
    then have w1: "w1 = wp" by (simp add: wp_def t_def)
    show thesis
    proof (cases "throttled (en_now env) nm addr (w_db w)")
      case True
      with assms thr decided w1 wp show thesis
        by (intro on_error [of ErrThrottled]) (auto simp: Login_split intro: login_effect_Record)
    next
      case False
      with assms thr decided w1 have "login_rest env c rnd s nm pw addr wp = (res, w')" by (simp add: Login_split)
      then show thesis
      proof (cases rule: login_rest_cases)
        case (error e P)
        with login_effect_trans [OF wp(1) error(3)] show thesis
          by (intro on_error) (auto simp: wp)
      next
        case failed
        with login_effect_trans [OF wp(1) failed(3)] False wp show thesis
          by (intro that(2)) (auto simp: login_effect_def wp_def t_def prune_failures_def)
      next
        case (ok row token)
        note u = ok [unfolded wp(2,3)]
        have f: "failures (w_db wp) = failures (prune_failures (en_now env) (w_db w))"
          by (simp add: wp_def t_def)
        note e = login_effect_trans [OF wp(1) u(6), unfolded login_effect_def fresh_session_def f]
        show thesis
          by (rule that(3) [OF False u(1-5)]) (use e in simp_all)
      qed
    qed
  qed
qed

section \<open>The services' own updates keep the schema\<close>

lemma schema_touch:
  assumes "schema_ok d"
  shows "schema_ok (d\<lparr>sessions := update_where P (\<lambda>r. r\<lparr>se_last_seen := t\<rparr>) (sessions d)\<rparr>)"
proof -
  have "sessions_ok (d\<lparr>sessions := update_where P (\<lambda>r. r\<lparr>se_last_seen := t\<rparr>) (sessions d)\<rparr>)"
    using schema_parts(2) [OF assms] by (simp add: sessions_ok_def ball_update_where map_update_where)
  with schema_parts [OF assms] show ?thesis by (simp add: schema_ok_def)
qed

lemma schema_drop_sessions: "schema_ok d \<Longrightarrow> schema_ok (d\<lparr>sessions := delete_where P (sessions d)\<rparr>)"
  by (simp add: schema_ok_def) (simp add: sessions_ok_def table_simps)

lemma schema_update_password:
  assumes "schema_ok d"
  shows "schema_ok (update_password uid h t d)"
proof -
  have m: "(\<exists>x\<in>set (users (update_password uid h t d)). ur_id x = y) = (\<exists>x\<in>set (users d). ur_id x = y)" for y
    by (simp add: update_password_def bex_update_where if_distrib [of ur_id] cong: if_cong)
  have "users_ok (update_password uid h t d)"
    using schema_parts(1) [OF assms]
    by (auto simp: update_password_def users_ok_def ball_update_where map_update_where)
  moreover have "sessions_ok (update_password uid h t d)" "nodes_ok (update_password uid h t d)"
    "grants_ok (update_password uid h t d)"
    using schema_parts [OF assms] m
    by (simp_all add: sessions_ok_def nodes_ok_def grants_ok_def) (simp_all add: update_password_def)
  ultimately show ?thesis
    using schema_parts [OF assms] by (intro schema_okI) (simp_all add: update_password_def)
qed

lemma schema_invite_update:
  assumes "schema_ok d" and "\<And>r. i_id (f r) = i_id r" "\<And>r. i_code_hash (f r) = i_code_hash r"
  shows "schema_ok (d\<lparr>invites := update_where P f (invites d)\<rparr>)"
proof -
  have "invites_ok (d\<lparr>invites := update_where P f (invites d)\<rparr>)"
    using schema_parts(6) [OF assms(1)] assms(2,3)
    by (simp add: invites_ok_def ball_update_where map_update_where)
  with schema_parts [OF assms(1)] show ?thesis by (simp add: schema_ok_def)
qed

lemma schema_consume_invite: "schema_ok d \<Longrightarrow> schema_ok (consume_invite i uid t d)"
  by (simp add: consume_invite_def schema_invite_update)

lemma schema_revoke_invite_row: "schema_ok d \<Longrightarrow> schema_ok (revoke_invite_row i t d)"
  by (simp add: revoke_invite_row_def schema_invite_update)

section \<open>Sessions, logout, password change\<close>

lemma ValidateSession_cases:
  assumes "ValidateSession env c s token w = (res, w')"
  obtains (rejected) e where "res = Inl e" "w' = w"
  | (accepted) r x where "res = Inr \<lparr>u_ID = ur_id x, u_Username = ur_username x, u_Role = ur_role x\<rparr>"
      "r \<in> set (sessions (w_db w))" "session_live s (en_now env) (HashToken c token) r"
      "user_by_id (se_user r) (w_db w) = Some x" "\<not> en_fail env CallTouchSession" "token \<noteq> []"
      "w' = w\<lparr>w_db := (w_db w)\<lparr>sessions := update_where
          (\<lambda>r. session_live s (en_now env) (HashToken c token) r \<and> user_by_id (se_user r) (w_db w) \<noteq> None)
          (\<lambda>r. r\<lparr>se_last_seen := en_now env\<rparr>) (sessions (w_db w))\<rparr>\<rparr>"
proof (cases "token = [] \<or> en_fail env CallTouchSession")
  case True
  with assms rejected show thesis by (auto simp: ValidateSession_def split: if_splits)
next
  case False
  define live where "live = (\<lambda>r. session_live s (en_now env) (HashToken c token) r \<and> user_by_id (se_user r) (w_db w) \<noteq> None)"
  show thesis
  proof (cases "query_row live (sessions (w_db w))")
    case None
    then have "update_where live (\<lambda>r. r\<lparr>se_last_seen := en_now env\<rparr>) (sessions (w_db w)) = sessions (w_db w)"
      by (auto simp: query_row_None update_where_def intro: map_idI)
    with None False assms rejected show thesis
      by (auto simp: ValidateSession_def live_def [symmetric] Let_def simp del: not_None_eq)
  next
    case (Some r)
    note r = query_row_Some [OF Some]
    then obtain x where x: "user_by_id (se_user r) (w_db w) = Some x" by (auto simp: live_def)
    show thesis
    proof (rule accepted [of x r])
      show "res = Inr \<lparr>u_ID = ur_id x, u_Username = ur_username x, u_Role = ur_role x\<rparr>"
        using Some False x assms by (auto simp: ValidateSession_def live_def [symmetric] Let_def simp del: not_None_eq)
      show "w' = w\<lparr>w_db := (w_db w)\<lparr>sessions := update_where
          (\<lambda>r. session_live s (en_now env) (HashToken c token) r \<and> user_by_id (se_user r) (w_db w) \<noteq> None)
          (\<lambda>r. r\<lparr>se_last_seen := en_now env\<rparr>) (sessions (w_db w))\<rparr>\<rparr>"
        using Some False x assms by (auto simp: ValidateSession_def live_def [symmetric] Let_def simp del: not_None_eq)
    qed (use r x False in \<open>auto simp: live_def\<close>)
  qed
qed

lemma Logout_cases:
  assumes "Logout env c token p w = (res, w')"
  obtains (error) e where "res = Inl (ErrAuthOther e)" "w' = w"
  | (logged_out) "res = Inr ()" "w' = Record env (service_event (u_ID p) (u_Username p) ''auth.logout'' (u_Username p) ResultOK [])
      (w\<lparr>w_db := (w_db w)\<lparr>sessions := delete_where (\<lambda>r. se_token_hash r = HashToken c token) (sessions (w_db w))\<rparr>\<rparr>)"
  using assms by (auto simp: Logout_def exec_def split: if_splits)

lemma ChangePassword_cases:
  assumes "ChangePassword env c rs rt s p cur new w = (res, w')"
  obtains (refused) e where "res = Inl e" "core (w_db w') = core (w_db w)" "w_fs w' = w_fs w" "extends w w'"
      "schema_ok (w_db w) \<Longrightarrow> schema_ok (w_db w')"
  | (partial) e h P where "res = Inl (ErrAuthOther e)" "password_ok new" "HashPassword c rs new = Inr h"
      "w' = w\<lparr>w_db := (update_password (u_ID p) h (en_now env) (w_db w))\<lparr>sessions := delete_where P (sessions (w_db w))\<rparr>\<rparr>"
      "P = (\<lambda>r. se_user r = u_ID p) \<or> P = (\<lambda>_. False)"
  | (changed) token h where "res = Inr token" "password_ok new" "HashPassword c rs new = Inr h"
      "\<exists>row. user_by_id (u_ID p) (w_db w) = Some row \<and> VerifyPassword c cur (ur_hash row) = Inr True"
      "NewSessionToken c rt = Some (token, HashToken c token)"
      "insert_session (fresh_session env c s (u_ID p) token)
         ((update_password (u_ID p) h (en_now env) (w_db w))\<lparr>sessions := delete_where (\<lambda>r. se_user r = u_ID p) (sessions (w_db w))\<rparr>)
         = Inr ((update_password (u_ID p) h (en_now env) (w_db w))\<lparr>sessions :=
             delete_where (\<lambda>r. se_user r = u_ID p) (sessions (w_db w)) @ [fresh_session env c s (u_ID p) token]\<rparr>)"
      "w' = Record env (service_event (u_ID p) (u_Username p) ''auth.password_change'' (u_Username p) ResultOK [])
        (w\<lparr>w_db := (update_password (u_ID p) h (en_now env) (w_db w))\<lparr>sessions :=
          delete_where (\<lambda>r. se_user r = u_ID p) (sessions (w_db w)) @ [fresh_session env c s (u_ID p) token]\<rparr>\<rparr>)"
proof (cases "password_ok new \<and> \<not> en_fail env CallSelectUser \<and>
    (\<exists>row. user_by_id (u_ID p) (w_db w) = Some row \<and> VerifyPassword c cur (ur_hash row) = Inr True) \<and>
    (\<exists>h. HashPassword c rs new = Inr h) \<and> \<not> en_fail env CallUpdatePassword")
  case False
  with assms refused show thesis
    by (auto simp: ChangePassword_def exec_def split: if_splits option.splits sum.splits bool.splits)
next
  case True
  then obtain row h where row: "user_by_id (u_ID p) (w_db w) = Some row" "VerifyPassword c cur (ur_hash row) = Inr True"
      and h: "HashPassword c rs new = Inr h" by blast
  define d1 where "d1 = update_password (u_ID p) h (en_now env) (w_db w)"
  define d2 where "d2 = d1\<lparr>sessions := delete_where (\<lambda>r. se_user r = u_ID p) (sessions (w_db w))\<rparr>"
  have ses1: "sessions d1 = sessions (w_db w)" by (simp add: d1_def update_password_def)
  note dec = assms [unfolded ChangePassword_def] True row h
  show thesis
  proof (cases "en_fail env CallRevokeSessions")
    case True
    with dec have "res = Inl (ErrAuthOther ''auth: revoke sessions'')" "w' = w\<lparr>w_db := d1\<rparr>"
      by (auto simp: exec_def d1_def)
    moreover have "d1\<lparr>sessions := delete_where (\<lambda>_. False) (sessions (w_db w))\<rparr> = d1"
      by (simp add: delete_where_def flip: ses1)
    ultimately show thesis
      using h \<open>password_ok new \<and> _\<close> by (intro partial [of _ h "\<lambda>_. False"]) (auto simp: d1_def)
  next
    case False
    obtain r3 w3 where ses: "createSession env c rt s (u_ID p) (w\<lparr>w_db := d2\<rparr>) = (r3, w3)" by fastforce
    then show thesis
    proof (cases rule: createSession_cases)
      case (error e)
      with dec False ses have "res = Inl (ErrAuthOther e)" "w' = w\<lparr>w_db := d2\<rparr>"
        by (auto simp: exec_def d2_def d1_def ses1 [unfolded d1_def])
      then show thesis
        using h \<open>password_ok new \<and> _\<close> by (intro partial [of e h]) (auto simp: d1_def d2_def)
    next
      case (created token hs d3)
      have hs: "hs = HashToken c token" using NewSessionToken_hash [OF created(1)] .
      then have ins: "insert_session (fresh_session env c s (u_ID p) token) d2 = Inr d3"
        using created(2) by (simp add: fresh_session_def)
      note d3 = insert_session_Inr [OF ins]
      have "res = Inr token" "w' = Record env (service_event (u_ID p) (u_Username p) ''auth.password_change''
          (u_Username p) ResultOK []) (w\<lparr>w_db := d3\<rparr>)"
        using dec False ses created by (auto simp: exec_def d2_def d1_def ses1 [unfolded d1_def])
      then show thesis
        using h row created(1) hs ins d3 \<open>password_ok new \<and> _\<close>
        by (intro changed [of token h]) (auto simp: d1_def d2_def)
    qed
  qed
qed

end
