(* ===== verification/Files_Validate.thy ===== *)
theory Files_Validate
  imports Go_Mime Schema
begin

text \<open>
  Upload validation, \<^verbatim>\<open>internal/files/validate.go\<close>: sanitising a client-supplied file name into
  display metadata, and checking the declared media type against the one sniffed from the content.
  \<^verbatim>\<open>http.DetectContentType\<close> is the argument \<open>detect\<close>.
\<close>

section \<open>Errors\<close>

text \<open>
  The errors of the package. Those that wrap \<^verbatim>\<open>ErrValidation\<close> carry the reason their message
  states; \<open>FErrDb\<close> wraps a database error, whose SQLSTATE \<^verbatim>\<open>errors.As\<close> still finds.
\<close>

datatype validation_reason =
    MalformedContentType string
  | UndetectableContent
  | TypeMismatch string string
  | RoleNotGrantable
  | NoSuchUser
  | GrantToOwner
  | NoSuchGrant

datatype files_error =
    FErrNotFound
  | FErrIntegrity
  | FErrTooLarge
  | FErrValidation validation_reason
  | FErrReceive read_error
  | FErrDb pg_error
  | FErrOther string

section \<open>File names\<close>

definition maxFilenameLen :: nat where "maxFilenameLen = 255"

definition kept_rune :: "unicode \<Rightarrow> rune \<Rightarrow> bool" where
  "kept_rune u r \<longleftrightarrow> \<not> (r < 0x20 \<or> r = 0x7f \<or> \<not> is_print u r)"

definition SanitizeFilename :: "unicode \<Rightarrow> string \<Rightarrow> string" where
  "SanitizeFilename u name =
     (let n1 = after_last_any [CHR ''/'', CHR 0x5C] name;
          n2 = filter_runes (kept_rune u) n1;
          n3 = trim_space n2;
          n4 = (if trim_char (CHR ''.'') n3 = [] then [] else n3)
      in if n4 = [] then ''unnamed''
         else if length n4 > maxFilenameLen then take maxFilenameLen n4
         else n4)"

section \<open>Media types\<close>

definition zipContainerTypes :: "string list" where
  "zipContainerTypes =
     [''application/zip'', ''application/java-archive'', ''application/epub+zip'',
      ''application/vnd.openxmlformats-officedocument.wordprocessingml.document'',
      ''application/vnd.openxmlformats-officedocument.spreadsheetml.sheet'',
      ''application/vnd.openxmlformats-officedocument.presentationml.presentation'']"

definition sniffablePrefixes :: "string list" where
  "sniffablePrefixes = [''image/'', ''video/'', ''audio/'', ''text/'']"

definition sniffableExact :: "string list" where
  "sniffableExact = [''application/pdf'', ''application/zip'', ''application/gzip'']"

definition mismatch :: "string \<Rightarrow> string \<Rightarrow> files_error" where
  "mismatch declared detected = FErrValidation (TypeMismatch declared detected)"

definition ValidateContent ::
  "unicode \<Rightarrow> (bytes \<Rightarrow> string) \<Rightarrow> string \<Rightarrow> bytes \<Rightarrow> files_error + string" where
  "ValidateContent u detect declared head =
     (case ParseMediaType u declared of
        None \<Rightarrow> Inl (FErrValidation (MalformedContentType declared))
      | Some dt \<Rightarrow>
      if dt = [] then Inl (FErrValidation (MalformedContentType declared)) else
      let declaredType = to_lower u dt in
      case ParseMediaType u (detect head) of
        None \<Rightarrow> Inl (FErrValidation UndetectableContent)
      | Some detected \<Rightarrow>
          if detected = declaredType then Inr declaredType
          else if detected = ''application/zip'' \<and> declaredType \<in> set zipContainerTypes then Inr declaredType
          else if detected = ''text/plain'' \<and> has_prefix declaredType ''text/'' then Inr declaredType
          else if detected = ''application/octet-stream'' then
            (if declaredType \<in> set sniffableExact then Inl (mismatch declaredType detected)
             else if \<exists>p\<in>set sniffablePrefixes. has_prefix declaredType p
             then Inl (mismatch declaredType detected)
             else Inr declaredType)
          else Inl (mismatch declaredType detected))"

section \<open>Lemmas on names\<close>

lemma segment_nonempty: "(r, seg) \<in> set (utf8_segments s) \<Longrightarrow> seg \<noteq> []"
proof (induction s rule: utf8_segments.induct)
  case (1 s)
  show ?case
  proof (cases "s = []")
    case True
    with 1(2) show ?thesis by simp
  next
    case False
    obtain r' n where d: "decode_rune (codes s) = (r', n)" by fastforce
    have "1 \<le> n \<and> n \<le> length s"
      using decode_rune_width [of "codes s"] d False by (cases s) auto
    then have ne: "take n s \<noteq> []" using False by auto
    from 1(2) utf8_segments_step [OF False d] consider "(r, seg) = (r', take n s)" | "(r, seg) \<in> set (utf8_segments (drop n s))"
      by auto
    then show ?thesis
      using 1(1) [OF False] d ne by cases auto
  qed
qed

lemma filter_runes_valid: "\<forall>r\<in>set (filter P (runes s)). valid_rune r"
  using runes_valid by (fastforce simp: runes_def)

lemma of_runes_append: "of_runes (xs @ ys) = of_runes xs @ of_runes ys"
  by (simp add: of_runes_def)

lemma of_runes_Nil [simp]: "of_runes [] = []"
  by (simp add: of_runes_def)

lemma of_runes_eq_Nil: "of_runes rs = [] \<longleftrightarrow> rs = []"
  by (simp add: of_runes_def)

lemma trim_space_of_runes:
  assumes "\<forall>r\<in>set rs. valid_rune r"
  shows "trim_space (of_runes rs) = of_runes (trim_list is_space rs)"
  unfolding trim_space_def utf8_segments_of_runes [OF assms] trim_list_map
  by (simp add: o_def of_runes_def)

lemma trim_list_subset: "x \<in> set (trim_list P xs) \<Longrightarrow> x \<in> set xs"
  using set_trim_list by fast

text \<open>The bytes of an encoded rune: an ASCII rune is its own byte, all other bytes are above 127.\<close>

lemma encode_rune_bytes:
  assumes "valid_rune r" and "c \<in> set (encode_rune r)"
  shows "(r < 128 \<and> (of_char c :: nat) = r) \<or> 128 \<le> (of_char c :: nat)"
proof -
  have "of_char c \<in> set (codes (encode_rune r))"
    using assms(2) by (simp add: codes_def)
  then have "of_char c \<in> set (rune_bytes r)"
    by (simp only: codes_encode_rune [OF assms(1)])
  then show ?thesis
    by (auto simp: rune_bytes_def split: if_splits)
qed

text \<open>The name before truncation, in runes.\<close>

definition clean_runes :: "unicode \<Rightarrow> string \<Rightarrow> rune list" where
  "clean_runes u name = trim_list is_space (filter (kept_rune u) (runes (after_last_any [CHR ''/'', CHR 0x5C] name)))"

lemma clean_runes_props:
  "r \<in> set (clean_runes u name) \<Longrightarrow> valid_rune r \<and> kept_rune u r"
  using trim_list_subset [of r is_space] filter_runes_valid [of "kept_rune u"]
  by (fastforce simp: clean_runes_def)

lemma Sanitize_runes:
  "SanitizeFilename u name =
     (let n = of_runes (clean_runes u name) in
      if trim_char (CHR ''.'') n = [] then ''unnamed'' else take maxFilenameLen n)"
proof -
  have "trim_space (filter_runes (kept_rune u) s) =
      of_runes (trim_list is_space (filter (kept_rune u) (runes s)))" for s
    by (simp add: filter_runes_def trim_space_of_runes filter_runes_valid)
  moreover have "trim_char c [] = []" for c
    by (simp add: trim_char_def trim_list_def)
  ultimately show ?thesis
    unfolding SanitizeFilename_def clean_runes_def Let_def by auto
qed

lemma ascii_rune_byte:
  assumes "(r, seg) \<in> set (utf8_segments s)" and "r < 128"
  shows "char_of r \<in> set s"
  using assms(1)
proof (induction s rule: utf8_segments.induct)
  case (1 s)
  show ?case
  proof (cases "s = []")
    case True
    with 1(2) show ?thesis by simp
  next
    case False
    obtain q n where d: "decode_rune (codes s) = (q, n)" by fastforce
    from 1(2) utf8_segments_step [OF False d]
    consider "q = r" | "(r, seg) \<in> set (utf8_segments (drop n s))" by auto
    then show ?thesis
    proof cases
      case 1
      from d [unfolded 1] show ?thesis
      proof (cases rule: decode_rune_cases)
        case (Ascii b0 rest)
        with False show ?thesis by (cases s) auto
      next
        case Two
        with rune2_range [OF Two(2-4)] assms(2) show ?thesis by simp
      next
        case Three
        with rune3_range [OF Three(2-5)] assms(2) show ?thesis by simp
      next
        case Four
        with rune4_range [OF Four(2-6)] assms(2) show ?thesis by simp
      qed (use assms(2) in simp)
    next
      case 2
      from 1(1) [OF False d [symmetric] refl this] show ?thesis
        by (rule in_set_dropD)
    qed
  qed
qed

text \<open>The bytes a display name may consist of.\<close>

definition name_byte :: "char \<Rightarrow> bool" where
  "name_byte c \<longleftrightarrow> c \<noteq> CHR ''/'' \<and> c \<noteq> CHR 0x5C \<and> 0x20 \<le> (of_char c :: nat) \<and> (of_char c :: nat) \<noteq> 0x7f"

lemma clean_runes_no_separator:
  assumes "r \<in> set (clean_runes u name)"
  shows "r \<noteq> 0x2F \<and> r \<noteq> 0x5C"
proof -
  have seg: "r \<in> set (runes (after_last_any [CHR ''/'', CHR 0x5C] name))"
    using assms trim_list_subset [of r is_space] by (fastforce simp: clean_runes_def)
  then have byte: "char_of r \<in> set (after_last_any [CHR ''/'', CHR 0x5C] name)" if "r < 128"
    using ascii_rune_byte that by (fastforce simp: runes_def)
  have no: "c \<notin> set (after_last_any [CHR ''/'', CHR 0x5C] name)" if "c = CHR ''/'' \<or> c = CHR 0x5C" for c
    using set_after_last_any [of "[CHR ''/'', CHR 0x5C]" name] that by auto
  have codes: "char_of (0x2F :: nat) = CHR ''/''" "char_of (0x5C :: nat) = CHR 0x5C"
    by (simp_all add: char_of_def bit_simps)
  show ?thesis
    using byte no codes by fastforce
qed

lemma clean_name_bytes:
  assumes "c \<in> set (of_runes (clean_runes u name))"
  shows "name_byte c"
proof -
  obtain r where r: "r \<in> set (clean_runes u name)" "c \<in> set (encode_rune r)"
    using assms by (auto simp: of_runes_def)
  then have v: "valid_rune r" "kept_rune u r" using clean_runes_props by blast+
  have sep: "r \<noteq> 0x2F" "r \<noteq> 0x5C" using clean_runes_no_separator [OF r(1)] by blast+
  have "(of_char (CHR ''/'') :: nat) = 0x2F" "(of_char (CHR 0x5C) :: nat) = 0x5C" by simp_all
  with encode_rune_bytes [OF v(1) r(2)] v(2) sep show ?thesis
    unfolding name_byte_def kept_rune_def by (cases "r < 128") auto
qed

lemma clean_runes_stable:
  "clean_runes u (of_runes (clean_runes u name)) = clean_runes u name"
proof -
  let ?rs = "clean_runes u name"
  have sep: "set [CHR ''/'', CHR 0x5C] \<inter> set (of_runes ?rs) = {}"
    using clean_name_bytes [of _ u name] by (auto simp: name_byte_def)
  have "after_last_any [CHR ''/'', CHR 0x5C] (of_runes ?rs) = of_runes ?rs"
    by (rule after_last_any_none [OF sep])
  moreover have "runes (of_runes ?rs) = ?rs"
    by (rule runes_of_runes) (use clean_runes_props in blast)
  moreover have "filter (kept_rune u) ?rs = ?rs"
    by (rule filter_True) (use clean_runes_props in blast)
  ultimately have "clean_runes u (of_runes ?rs) = trim_list is_space ?rs"
    by (simp add: clean_runes_def [of u "of_runes ?rs"])
  then show ?thesis by (simp add: clean_runes_def)
qed

lemma of_runes_codes: "ascii s \<Longrightarrow> of_runes (map of_char s) = s"
  by (subst of_runes_ascii) (auto simp: ascii_def o_def)

lemma unnamed_props:
  "\<forall>c\<in>set ''unnamed''. name_byte c" "pg_text ''unnamed''"
  "SanitizeFilename u ''unnamed'' = ''unnamed''"
proof -
  show "\<forall>c\<in>set ''unnamed''. name_byte c" by (simp add: name_byte_def)
  have a: "ascii ''unnamed''" by (simp add: ascii_def)
  then show "pg_text ''unnamed''" by (simp add: pg_text_ascii)
  have "runes ''unnamed'' = map of_char ''unnamed''" by (rule runes_ascii [OF a])
  then have "clean_runes u ''unnamed'' = map of_char ''unnamed''"
    by (simp add: clean_runes_def after_last_any_def kept_rune_def is_print_def trim_list_def is_space_def)
  moreover have "of_runes (map of_char ''unnamed'') = ''unnamed''"
    by (rule of_runes_codes [OF a])
  ultimately show "SanitizeFilename u ''unnamed'' = ''unnamed''"
    by (simp add: Sanitize_runes trim_char_def trim_list_def maxFilenameLen_def Let_def)
qed

lemma Sanitize_cases:
  obtains (unnamed) "SanitizeFilename u name = ''unnamed''"
  | (kept) n where "n = of_runes (clean_runes u name)" "trim_char (CHR ''.'') n \<noteq> []"
      "SanitizeFilename u name = take maxFilenameLen n"
  by (cases "trim_char (CHR ''.'') (of_runes (clean_runes u name)) = []") (auto simp: Sanitize_runes)

lemma pg_text_clean: "pg_text (of_runes (clean_runes u name))"
proof -
  have "valid_utf8 (of_runes (clean_runes u name))"
    by (rule valid_utf8_of_runes) (use clean_runes_props in blast)
  then show ?thesis
    using clean_name_bytes [of "CHR 0x00" u name] by (auto simp: pg_text_def name_byte_def)
qed

text \<open>Lower-casing an accepted media type keeps it a media type.\<close>

definition lower_letter :: "char \<Rightarrow> bool" where
  "lower_letter c \<longleftrightarrow> 97 \<le> (of_char c :: nat) \<and> (of_char c :: nat) \<le> 122"

lemma tspecial_codes:
  "is_tspecial c \<Longrightarrow> (of_char c :: nat) \<in> {40, 41, 60, 62, 64, 44, 59, 58, 47, 91, 93, 63, 61, 92, 34}"
  by (auto simp: is_tspecial_def)

lemma lower_token_char:
  assumes "is_token_char c"
  shows "is_token_char (char_of (lower_rune u (of_char c)))"
proof (cases "65 \<le> (of_char c :: nat) \<and> (of_char c :: nat) \<le> 90")
  case True
  then have code: "(of_char (char_of (lower_rune u (of_char c)) :: char) :: nat) = of_char c + 32"
    by (simp add: lower_rune_def)
  then have "\<not> is_tspecial (char_of (lower_rune u (of_char c)))"
    using True tspecial_codes [of "char_of (lower_rune u (of_char c))"] by auto
  then show ?thesis unfolding is_token_char_def code using True by simp
next
  case False
  with assms have "lower_rune u (of_char c) = of_char c"
    by (auto simp: lower_rune_def is_token_char_def)
  with assms show ?thesis by simp
qed

lemma lower_media_type:
  assumes "ParseMediaType u v = Some m" and "c \<in> set (to_lower u m)"
  shows "is_token_char c \<or> c = CHR ''/''"
proof -
  have "to_lower u m = map (\<lambda>c. char_of (lower_rune u (of_char c))) m"
    by (rule to_lower_ascii [OF ParseMediaType_ascii [OF assms(1)]])
  with assms(2) obtain d where d: "d \<in> set m" "c = char_of (lower_rune u (of_char d))" by auto
  with ParseMediaType_chars [OF assms(1)] have "is_token_char d \<or> d = CHR ''/''" by blast
  then show ?thesis
  proof
    assume "d = CHR ''/''"
    then have "lower_rune u (of_char d) = of_char d" by (simp add: lower_rune_def)
    then have "c = d" by (simp add: d(2))
    with \<open>d = CHR ''/''\<close> show ?thesis by blast
  qed (simp add: d(2) lower_token_char)
qed

lemma ValidateContent_Inr:
  assumes "ValidateContent u detect declared head = Inr t"
  obtains dt s where "ParseMediaType u declared = Some dt" "dt \<noteq> []" "t = to_lower u dt"
    "ParseMediaType u (detect head) = Some s"
    "s = t \<or> s = ''application/zip'' \<and> t \<in> set zipContainerTypes \<or> s = ''text/plain'' \<and> has_prefix t ''text/'' \<or>
     s = ''application/octet-stream'' \<and> t \<notin> set sniffableExact \<and> (\<forall>p\<in>set sniffablePrefixes. \<not> has_prefix t p)"
  using assms by (auto simp: ValidateContent_def Let_def mismatch_def split: option.splits if_splits)

text \<open>The name of 256 bytes whose last rune takes two of them.\<close>

lemma ascii_prefix_segments:
  "ascii s \<Longrightarrow> utf8_segments (s @ t) = map (\<lambda>c. (of_char c, [c])) s @ utf8_segments t"
  by (induction s) (simp_all add: ascii_def utf8_segments_ascii_Cons)

lemma split_rune_invalid:
  assumes "ascii s"
  shows "\<not> valid_utf8 (s @ [CHR 0xC3])"
proof -
  have "utf8_segments [CHR 0xC3] = [(rune_error, [CHR 0xC3])]"
    by (subst utf8_segments_step) auto
  then have "(rune_error, [CHR 0xC3]) \<in> set (utf8_segments (s @ [CHR 0xC3]))"
    by (simp add: ascii_prefix_segments [OF assms])
  then show ?thesis unfolding valid_utf8_def by fastforce
qed

text \<open>A plain name, without spaces, separators and non-ASCII bytes, is kept as it is.\<close>

definition plain_name :: "string \<Rightarrow> bool" where
  "plain_name s \<longleftrightarrow> length s \<le> maxFilenameLen \<and> (\<exists>c\<in>set s. c \<noteq> CHR ''.'') \<and>
     (\<forall>c\<in>set s. 33 \<le> (of_char c :: nat) \<and> (of_char c :: nat) < 127)"

lemma trim_list_nonempty: "x \<in> set xs \<Longrightarrow> \<not> P x \<Longrightarrow> trim_list P xs \<noteq> []"
  by (auto simp: trim_list_def dropWhile_eq_Nil_conv dest: set_dropWhileD)
    (metis dropWhile_eq_Nil_conv hd_dropWhile list.set_sel(1))

lemma Sanitize_plain:
  assumes "after_last_any [CHR ''/'', CHR 0x5C] s = n" and n: "plain_name n"
  shows "SanitizeFilename u s = n"
proof -
  have range: "33 \<le> (of_char c :: nat) \<and> (of_char c :: nat) < 127" if "c \<in> set n" for c
    using n that by (auto simp: plain_name_def)
  then have a: "ascii n" by (fastforce simp: ascii_def)
  have "filter (kept_rune u) (map of_char n) = map of_char n"
    using range by (intro filter_True) (fastforce simp: kept_rune_def is_print_def)
  moreover have "trim_list is_space (map of_char n) = map of_char n"
    using range by (intro trim_list_none) (fastforce simp: is_space_def)
  ultimately have clean: "clean_runes u s = map of_char n"
    by (simp add: clean_runes_def assms(1) runes_ascii [OF a])
  obtain c where "c \<in> set n" "c \<noteq> CHR ''.''" using n by (auto simp: plain_name_def)
  then have "trim_char (CHR ''.'') n \<noteq> []"
    unfolding trim_char_def by (intro trim_list_nonempty)
  then show ?thesis
    using n by (simp add: Sanitize_runes clean of_runes_codes [OF a] plain_name_def Let_def)
qed

lemma has_prefix_compatible:
  "has_prefix s p \<Longrightarrow> has_prefix s q \<Longrightarrow> take (length q) p = take (length p) q"
  unfolding has_prefix_def by (metis min.commute take_take)

text \<open>The three ways around an exact match leave the sniffable families alone.\<close>

lemma zip_types_only:
  assumes "t \<in> set zipContainerTypes"
  shows "\<not> has_prefix t ''image/''" "\<not> has_prefix t ''video/''" "\<not> has_prefix t ''audio/''"
    "\<not> has_prefix t ''text/''" "t \<in> {''application/pdf'', ''application/zip'', ''application/gzip''} \<Longrightarrow> t = ''application/zip''"
  using assms by (auto simp: zipContainerTypes_def has_prefix_def)

lemma text_types_only:
  assumes "has_prefix t ''text/''"
  shows "\<not> has_prefix t ''image/''" "\<not> has_prefix t ''video/''" "\<not> has_prefix t ''audio/''"
    "t \<notin> {''application/pdf'', ''application/zip'', ''application/gzip''}"
proof -
  show "\<not> has_prefix t ''image/''" "\<not> has_prefix t ''video/''" "\<not> has_prefix t ''audio/''"
    using has_prefix_compatible [OF assms, of "''image/''"] has_prefix_compatible [OF assms, of "''video/''"]
      has_prefix_compatible [OF assms, of "''audio/''"] by auto
  show "t \<notin> {''application/pdf'', ''application/zip'', ''application/gzip''}"
    using assms by (auto simp: has_prefix_def)
qed

lemma unsniffable_types:
  assumes "t \<notin> set sniffableExact" and "\<forall>p\<in>set sniffablePrefixes. \<not> has_prefix t p"
  shows "\<not> has_prefix t ''image/''" "\<not> has_prefix t ''video/''" "\<not> has_prefix t ''audio/''"
    "\<not> has_prefix t ''text/''" "t \<notin> {''application/pdf'', ''application/zip'', ''application/gzip''}"
  using assms by (simp_all add: sniffableExact_def sniffablePrefixes_def)

lemma demo_types:
  "ParseMediaType demo_unicode ''text/csv'' = Some ''text/csv''"
  "ParseMediaType demo_unicode ''text/plain'' = Some ''text/plain''"
  "to_lower demo_unicode ''text/csv'' = ''text/csv''" "to_lower demo_unicode ''text/plain'' = ''text/plain''"
proof -
  have lower: "to_lower u s = s" if "\<forall>c\<in>set s. (of_char c :: nat) < 128 \<and> \<not> (65 \<le> (of_char c :: nat) \<and> (of_char c :: nat) \<le> 90)"
    for u s
  proof -
    have "ascii s" using that by (simp add: ascii_def)
    moreover have "map (\<lambda>c. char_of (lower_rune u (of_char c))) s = s"
      using that by (intro map_idI) (auto simp: lower_rune_def)
    ultimately show ?thesis by (simp add: to_lower_ascii)
  qed
  show l: "to_lower demo_unicode ''text/csv'' = ''text/csv''" "to_lower demo_unicode ''text/plain'' = ''text/plain''"
    by (rule lower, simp)+
  have "media_type_ok ''text/csv''" "media_type_ok ''text/plain''"
    by (simp_all add: media_type_ok_def consume_token_def is_token_char_def is_tspecial_def)
  with l show "ParseMediaType demo_unicode ''text/csv'' = Some ''text/csv''"
    "ParseMediaType demo_unicode ''text/plain'' = Some ''text/plain''"
    by (simp_all add: ParseMediaType_plain)
qed

section \<open>Properties\<close>

text \<open>
  C33 A sanitised name is safe to display and is never a path: it is not empty, has at most 255
  bytes, no separator, no control byte, and is neither \<^verbatim>\<open>.\<close> nor \<^verbatim>\<open>..\<close>. While it stays below the
  length limit it is also storable in the database and sanitising it again changes nothing.
\<close>

theorem sanitized_name_is_safe:
  "(let n = SanitizeFilename u name in
     n \<noteq> [] \<and> length n \<le> 255 \<and> (\<forall>c\<in>set n. name_byte c) \<and> n \<noteq> ''.'' \<and> n \<noteq> ''..'' \<and>
     (length n < 255 \<longrightarrow> pg_text n \<and> SanitizeFilename u n = n))"
proof (cases rule: Sanitize_cases [of u name])
  case unnamed
  then show ?thesis using unnamed_props by (simp add: Let_def)
next
  case (kept n)
  have ne: "n \<noteq> []" using kept(2) by (auto simp: trim_char_def trim_list_def)
  have bytes: "\<forall>c\<in>set (take 255 n). name_byte c"
    using clean_name_bytes kept(1) by (auto dest: in_set_takeD)
  have dots: "take 255 n \<noteq> ''.''" "take 255 n \<noteq> ''..''"
  proof -
    have "n \<noteq> ''.''" "n \<noteq> ''..''"
      using kept(2) by (auto simp: trim_char_def trim_list_def)
    moreover have "take 255 n = n" if "length (take 255 n) < 255" using that by simp
    moreover have "length ''.'' < 255" "length ''..'' < 255" by simp_all
    ultimately show "take 255 n \<noteq> ''.''" "take 255 n \<noteq> ''..''" by metis+
  qed
  have stable: "SanitizeFilename u n = take maxFilenameLen n"
    unfolding Sanitize_runes [of u n] Let_def using kept(2) by (simp add: kept(1) clean_runes_stable)
  have storable: "pg_text n" unfolding kept(1) by (rule pg_text_clean)
  have short: "pg_text (take 255 n) \<and> SanitizeFilename u (take 255 n) = take 255 n" if "length (take 255 n) < 255"
  proof -
    have "take 255 n = n" using that by simp
    with stable storable show ?thesis by (simp add: maxFilenameLen_def)
  qed
  have "take 255 n \<noteq> []" "length (take 255 n) \<le> 255" using ne by simp_all
  with bytes dots short show ?thesis
    unfolding kept(3) maxFilenameLen_def Let_def by blast
qed

theorem sanitized_name_is_safe_witness:
  "SanitizeFilename demo_unicode ''../a.txt'' = ''a.txt'' \<and> pg_text ''a.txt'' \<and>
   SanitizeFilename demo_unicode ''a.txt'' = ''a.txt''"
proof -
  have "SanitizeFilename demo_unicode (''../'' @ ''a.txt'') = ''a.txt''"
    by (rule Sanitize_plain) (simp_all add: after_last_any_def plain_name_def maxFilenameLen_def)
  then show ?thesis
    using sanitized_name_is_safe [of demo_unicode "''../a.txt''"] by (simp add: Let_def)
qed

text \<open>
  Truncation cuts bytes, not runes: a name of 254 plain ASCII letters followed by a two-byte
  letter is cut in the middle of that letter, and what is left is not valid UTF-8, so the
  database will refuse it.
\<close>

theorem sanitize_truncation_splits_rune:
  assumes "is_print u 0xE9" and "length s = 254" and "\<forall>c\<in>set s. lower_letter c"
  shows "SanitizeFilename u (s @ encode_rune 0xE9) = s @ [CHR 0xC3] \<and>
    \<not> pg_text (SanitizeFilename u (s @ encode_rune 0xE9))"
proof -
  have range: "97 \<le> (of_char c :: nat) \<and> (of_char c :: nat) \<le> 122" if "c \<in> set s" for c
    using assms(3) that by (auto simp: lower_letter_def)
  then have a: "ascii s" by (fastforce simp: ascii_def)
  let ?rs = "map of_char s @ [0xE9]"
  have name: "s @ encode_rune 0xE9 = of_runes ?rs"
    using of_runes_codes [OF a] by (simp add: of_runes_def)
  have e9: "encode_rune 0xE9 = [CHR 0xC3, CHR 0xA9]"
    by (simp add: encode_rune_def rune_bytes_def valid_rune_def char_of_def bit_simps)
  have valid: "\<forall>r\<in>set ?rs. valid_rune r"
    using range by (fastforce simp: valid_rune_def)
  have "CHR ''/'' \<notin> set s" "CHR 0x5C \<notin> set s" using range by force+
  then have "after_last_any [CHR ''/'', CHR 0x5C] (s @ encode_rune 0xE9) = s @ encode_rune 0xE9"
    by (intro after_last_any_none) (auto simp: e9)
  moreover have "filter (kept_rune u) ?rs = ?rs"
    using range assms(1) by (intro filter_True) (fastforce simp: kept_rune_def is_print_def)
  moreover have "trim_list is_space ?rs = ?rs"
    using range by (intro trim_list_none) (fastforce simp: is_space_def)
  ultimately have clean: "clean_runes u (s @ encode_rune 0xE9) = ?rs"
    using runes_of_runes [OF valid] by (simp add: clean_runes_def name [symmetric])
  have "trim_char (CHR ''.'') (s @ encode_rune 0xE9) = s @ encode_rune 0xE9"
    unfolding trim_char_def using range [of "CHR ''.''"] by (intro trim_list_none) (auto simp: e9)
  then have "SanitizeFilename u (s @ encode_rune 0xE9) = take 255 (s @ encode_rune 0xE9)"
    unfolding Sanitize_runes clean name [symmetric] Let_def by (simp add: e9 maxFilenameLen_def)
  also have "\<dots> = s @ [CHR 0xC3]" using assms(2) by (simp add: e9)
  finally show ?thesis
    using split_rune_invalid [OF a] by (simp add: pg_text_def)
qed

theorem sanitize_truncation_splits_rune_witness:
  "\<not> pg_text (SanitizeFilename demo_unicode (replicate 254 (CHR ''x'') @ encode_rune 0xE9))"
  by (rule sanitize_truncation_splits_rune [THEN conjunct2])
    (simp_all add: is_print_def demo_unicode_def lower_letter_def)

text \<open>
  C34 What an accepted declaration is worth: the stored type is made of header-safe characters
  only; it is what the sniffer saw whenever it is an image, video or audio type or one of the exactly
  recognised formats (so a gzip archive is accepted only if the sniffer names it
  \<^verbatim>\<open>application/gzip\<close>); a text type needs content sniffed as that type or as plain text.
\<close>

theorem accepted_type_is_credible:
  assumes "ValidateContent u detect declared head = Inr t"
  shows "t \<noteq> [] \<and> (\<forall>c\<in>set t. is_token_char c \<or> c = CHR ''/'') \<and>
    (has_prefix t ''image/'' \<or> has_prefix t ''video/'' \<or> has_prefix t ''audio/'' \<or>
       t \<in> {''application/pdf'', ''application/zip'', ''application/gzip''} \<longrightarrow>
     ParseMediaType u (detect head) = Some t) \<and>
    (has_prefix t ''text/'' \<longrightarrow>
     ParseMediaType u (detect head) = Some t \<or> ParseMediaType u (detect head) = Some ''text/plain'')"
  using assms
proof (rule ValidateContent_Inr)
  fix dt s
  assume p: "ParseMediaType u declared = Some dt" "dt \<noteq> []" "t = to_lower u dt"
    and s: "ParseMediaType u (detect head) = Some s"
    and cases: "s = t \<or> s = ''application/zip'' \<and> t \<in> set zipContainerTypes \<or> s = ''text/plain'' \<and> has_prefix t ''text/'' \<or>
     s = ''application/octet-stream'' \<and> t \<notin> set sniffableExact \<and> (\<forall>p\<in>set sniffablePrefixes. \<not> has_prefix t p)"
  have "to_lower u dt = map (\<lambda>c. char_of (lower_rune u (of_char c))) dt"
    by (rule to_lower_ascii [OF ParseMediaType_ascii [OF p(1)]])
  then have "t \<noteq> []" using p by simp
  moreover have "\<forall>c\<in>set t. is_token_char c \<or> c = CHR ''/''"
    unfolding p(3) using lower_media_type [OF p(1)] by blast
  moreover have "s = t" if X: "has_prefix t ''image/'' \<or> has_prefix t ''video/'' \<or> has_prefix t ''audio/'' \<or>
       t \<in> {''application/pdf'', ''application/zip'', ''application/gzip''}"
    using cases
  proof (elim disjE conjE)
    assume z: "s = ''application/zip''" and "t \<in> set zipContainerTypes"
    from zip_types_only [OF this(2)] X have "t = ''application/zip''" by simp
    with z show ?thesis by simp
  qed (use X text_types_only [of t] unsniffable_types [of t] in simp_all)
  moreover have "s = t \<or> s = ''text/plain''" if X: "has_prefix t ''text/''"
    using cases
  proof (elim disjE conjE)
    assume "t \<in> set zipContainerTypes"
    from zip_types_only(4) [OF this] X show ?thesis by simp
  qed (use X unsniffable_types [of t] in simp_all)
  ultimately show ?thesis unfolding s option.inject by (intro conjI impI) simp_all
qed

theorem accepted_type_is_credible_witness:
  "ValidateContent demo_unicode (\<lambda>_. ''text/plain'') ''text/csv'' [49, 44, 50] = Inr ''text/csv'' \<and>
   (''text/csv'' :: string) \<noteq> []"
proof -
  have v: "ValidateContent demo_unicode (\<lambda>_. ''text/plain'') ''text/csv'' [49, 44, 50] = Inr ''text/csv''"
    using demo_types by (simp add: ValidateContent_def has_prefix_def)
  show ?thesis
    by (rule conjI [OF v accepted_type_is_credible [OF v, THEN conjunct1]])
qed

end
