(* ===== verification/Files_Repo.thy ===== *)
theory Files_Repo
  imports Files_Validate Audit_Log Authz
begin

text \<open>
  The file repository, \<^verbatim>\<open>internal/files/files.go\<close>: upload with deduplication, listing, authorised
  access, sharing and reference-counted deletion. An operation is a function of its environment
  (clock, failing database calls and system calls), of the values it draws, and of the world.
  Where the code leaves a window between two of its steps, what other sessions commit in it is an
  argument of type \<open>rival\<close>.
\<close>

section \<open>Data\<close>

record node =
  nd_ID :: string
  nd_Name :: string
  nd_MimeType :: string
  nd_Size :: int
  nd_OwnerName :: string
  nd_MyRole :: string
  nd_CreatedAt :: time
  nd_UpdatedAt :: time

record grant_entry =
  gr_Username :: string
  gr_Role :: string

record repo =
  re_store :: store
  re_maxBytes :: int64

definition NewRepo :: "store \<Rightarrow> int64 \<Rightarrow> repo" where
  "NewRepo s maxBytes = \<lparr>re_store = s, re_maxBytes = maxBytes\<rparr>"

type_synonym rival = "world \<Rightarrow> world"

definition of_storage :: "storage_error \<Rightarrow> files_error" where
  "of_storage e = (case e of
     SErrTooLarge \<Rightarrow> FErrTooLarge
   | SErrReceive r \<Rightarrow> FErrReceive r
   | SErrNotFound \<Rightarrow> FErrOther ''storage: object not found''
   | SErrCorrupt m \<Rightarrow> FErrOther m
   | SErrOther m \<Rightarrow> FErrOther m)"

definition user_event :: "user \<Rightarrow> string \<Rightarrow> string \<Rightarrow> string \<Rightarrow> string \<Rightarrow> event" where
  "user_event p act target res reason = service_event (u_ID p) (u_Username p) act target res reason"

section \<open>Upload\<close>

text \<open>\<^verbatim>\<open>io.ReadFull\<close> into a buffer of \<open>n\<close> bytes. A short read at the end of the stream gives
  \<^verbatim>\<open>io.ErrUnexpectedEOF\<close> (or \<^verbatim>\<open>io.EOF\<close>), which the caller lets pass, and with it the same error of the
  stream itself; \<open>Stage\<close> meets that one again. \<^verbatim>\<open>io.MultiReader\<close> puts the head back in front.\<close>

definition read_full :: "nat \<Rightarrow> reader \<Rightarrow> read_error + bytes \<times> reader" where
  "read_full n r =
     (if n \<le> length (rd_data r) then Inr (take n (rd_data r), r\<lparr>rd_data := drop n (rd_data r)\<rparr>)
      else case rd_err r of
        Some MaxBytesError \<Rightarrow> Inl MaxBytesError
      | Some OtherReadError \<Rightarrow> Inl OtherReadError
      | _ \<Rightarrow> Inr (rd_data r, r\<lparr>rd_data := []\<rparr>))"

definition multi_reader :: "bytes \<Rightarrow> reader \<Rightarrow> reader" where
  "multi_reader head r = r\<lparr>rd_data := head @ rd_data r\<rparr>"

text \<open>
  One attempt at the metadata transaction: its own failures, what other sessions commit between
  its \<^verbatim>\<open>SELECT ... FOR UPDATE\<close> (which locks nothing when there is no row) and its \<^verbatim>\<open>INSERT\<close>, and
  the identifier \<^verbatim>\<open>gen_random_uuid()\<close> draws for the node.
\<close>

record attempt =
  at_env :: env
  at_flt :: fs_faults
  at_rival :: rival
  at_id :: string

definition finish_upload ::
  "attempt \<Rightarrow> user \<Rightarrow> string \<Rightarrow> string \<Rightarrow> staged \<Rightarrow> world \<Rightarrow> db \<Rightarrow> (files_error + node) \<times> world" where
  "finish_upload a p name mime st w d =
     (let now = en_now (at_env a) in
      case exec (at_env a) CallInsertNode (insert_node \<lparr>n_id = at_id a, n_owner = u_ID p, n_blob = sg_hash st,
             n_name = name, n_mime = mime, n_created = now, n_updated = now\<rparr> d) of
        Inl e \<Rightarrow> (Inl (FErrDb e), w)
      | Inr d' \<Rightarrow>
      case commit_tx (at_env a) (w_db w) d' of
        (False, d'') \<Rightarrow> (Inl (FErrDb Unavailable), w\<lparr>w_db := d''\<rparr>)
      | (True, d'') \<Rightarrow>
          (Inr \<lparr>nd_ID = at_id a, nd_Name = name, nd_MimeType = mime, nd_Size = sg_size st,
                nd_OwnerName = u_Username p, nd_MyRole = ''owner'', nd_CreatedAt = now, nd_UpdatedAt = now\<rparr>,
           w\<lparr>w_db := d''\<rparr>))"

text \<open>The two branches of the transaction: the content is new, or it is stored already.\<close>

definition first_reference ::
  "attempt \<Rightarrow> repo \<Rightarrow> user \<Rightarrow> string \<Rightarrow> string \<Rightarrow> staged \<Rightarrow> world
   \<Rightarrow> (files_error + node) \<times> staged \<times> world" where
  "first_reference a r p name mime st w =
     (case exec (at_env a) CallInsertBlob (insert_blob \<lparr>b_hash = sg_hash st, b_size = sg_size st,
             b_wrapped = sg_wrapped st, b_refs = 1\<rparr> (w_db w)) of
        Inl e \<Rightarrow> (Inl (FErrDb e), st, w)
      | Inr d \<Rightarrow>
      case Commit (re_store r) (at_flt a) st (w_fs w) of
        (Inl e, st', fs) \<Rightarrow> (Inl (of_storage e), st', w\<lparr>w_fs := fs\<rparr>)
      | (Inr _, st', fs) \<Rightarrow>
          let (res, w2) = finish_upload a p name mime st' (w\<lparr>w_fs := fs\<rparr>) d in (res, st', w2))"

definition further_reference ::
  "attempt \<Rightarrow> user \<Rightarrow> string \<Rightarrow> string \<Rightarrow> staged \<Rightarrow> world \<Rightarrow> (files_error + node) \<times> staged \<times> world" where
  "further_reference a p name mime st w =
     (case exec (at_env a) CallIncrementRefs (add_refs 1 (sg_hash st) (w_db w)) of
        Inl e \<Rightarrow> (Inl (FErrDb e), st, w)
      | Inr d \<Rightarrow>
          let (st', fs) = Abort (at_flt a) st (w_fs w);
              (res, w2) = finish_upload a p name mime st' (w\<lparr>w_fs := fs\<rparr>) d
          in (res, st', w2))"

definition insertUpload ::
  "attempt \<Rightarrow> repo \<Rightarrow> user \<Rightarrow> string \<Rightarrow> string \<Rightarrow> staged \<Rightarrow> world
   \<Rightarrow> (files_error + node) \<times> staged \<times> world" where
  "insertUpload a r p name mime st w =
     (if en_fail (at_env a) CallBegin then (Inl (FErrDb Unavailable), st, w) else
      case exec (at_env a) CallSelectBlob (Inr (blob_by_hash (sg_hash st) (w_db w))) of
        Inl e \<Rightarrow> (Inl (FErrDb e), st, w)
      | Inr None \<Rightarrow> first_reference a r p name mime st (at_rival a w)
      | Inr (Some _) \<Rightarrow> further_reference a p name mime st w)"

text \<open>The loop of at most two attempts; only a unique violation (SQLSTATE 23505) is retried.\<close>

definition upload_attempts ::
  "(nat \<Rightarrow> attempt) \<Rightarrow> repo \<Rightarrow> user \<Rightarrow> string \<Rightarrow> string \<Rightarrow> staged \<Rightarrow> world
   \<Rightarrow> (files_error + node) \<times> staged \<times> world" where
  "upload_attempts att r p name mime st w =
     (case insertUpload (att 0) r p name mime st w of
        (Inl (FErrDb UniqueViolation), st', w') \<Rightarrow> insertUpload (att 1) r p name mime st' w'
      | x \<Rightarrow> x)"

definition Upload ::
  "env \<Rightarrow> fs_faults \<Rightarrow> crypto \<Rightarrow> unicode \<Rightarrow> (bytes \<Rightarrow> string) \<Rightarrow> repo \<Rightarrow> stage_random \<Rightarrow> (nat \<Rightarrow> attempt)
   \<Rightarrow> user \<Rightarrow> string \<Rightarrow> string \<Rightarrow> reader \<Rightarrow> world \<Rightarrow> (files_error + node) \<times> world" where
  "Upload env flt c u detect r rnd att p filename declaredMIME body w =
     (let name = SanitizeFilename u filename in
      case read_full 512 body of
        Inl e \<Rightarrow> (Inl (FErrReceive e), w)
      | Inr (head, rest) \<Rightarrow>
      case ValidateContent u detect declaredMIME head of
        Inl e \<Rightarrow> (Inl e, Record env (user_event p ''file.upload'' name ResultDenied ''type_mismatch'') w)
      | Inr mime \<Rightarrow>
      case Stage c (re_store r) rnd flt (multi_reader head rest) (re_maxBytes r) (w_fs w) of
        (Inl e, fs) \<Rightarrow>
          (Inl (of_storage e),
           if e = SErrTooLarge
           then Record env (user_event p ''file.upload'' name ResultDenied ''too_large'') (w\<lparr>w_fs := fs\<rparr>)
           else w\<lparr>w_fs := fs\<rparr>)
      | (Inr st, fs) \<Rightarrow>
      case upload_attempts att r p name mime st (w\<lparr>w_fs := fs\<rparr>) of
        (res, st', w1) \<Rightarrow>
          let w2 = (case res of
                 Inl _ \<Rightarrow> w1
               | Inr nd \<Rightarrow> Record env (user_event p ''file.upload'' (nd_ID nd) ResultOK []) w1)
          in (res, w2\<lparr>w_fs := snd (Abort flt st' (w_fs w2))\<rparr>))"

section \<open>List\<close>

definition grant_of :: "string \<Rightarrow> string \<Rightarrow> db \<Rightarrow> grant_row option" where
  "grant_of i uid d = query_row (\<lambda>g. g_node g = i \<and> g_grantee g = uid) (grants d)"

definition node_view :: "node_row \<Rightarrow> blob_row \<Rightarrow> user_row \<Rightarrow> string \<Rightarrow> node" where
  "node_view n b ou role =
     \<lparr>nd_ID = n_id n, nd_Name = n_name n, nd_MimeType = n_mime n, nd_Size = b_size b,
      nd_OwnerName = ur_username ou, nd_MyRole = role, nd_CreatedAt = n_created n, nd_UpdatedAt = n_updated n\<rparr>"

definition list_row :: "string \<Rightarrow> db \<Rightarrow> node_row \<Rightarrow> node option" where
  "list_row uid d n =
     (case (blob_by_hash (n_blob n) d, user_by_id (n_owner n) d) of
        (Some b, Some ou) \<Rightarrow>
          if n_owner n = uid then Some (node_view n b ou ''owner'')
          else map_option (\<lambda>g. node_view n b ou (g_role g)) (grant_of (n_id n) uid d)
      | _ \<Rightarrow> None)"

text \<open>\<^verbatim>\<open>ORDER BY n.created_at DESC\<close>; rows of one instant are kept in table order.\<close>

definition List :: "env \<Rightarrow> user \<Rightarrow> world \<Rightarrow> (files_error + node list) \<times> world" where
  "List env p w =
     (case exec env CallList (Inr (List.map_filter (list_row (u_ID p) (w_db w)) (nodes (w_db w)))) of
        Inl e \<Rightarrow> (Inl (FErrDb e), w)
      | Inr ns \<Rightarrow> (Inr (sort_key (\<lambda>n. - nd_CreatedAt n) ns), w))"

section \<open>Loading and authorising\<close>

record node_state =
  ns_node :: node
  ns_ownerID :: string
  ns_blobHash :: bytes
  ns_wrappedDEK :: bytes
  ns_acl :: node_acl

definition load_grants :: "string \<Rightarrow> db \<Rightarrow> string \<rightharpoonup> string" where
  "load_grants i d =
     foldl (\<lambda>m g. m(g_grantee g \<mapsto> g_role g)) Map.empty (select_where (\<lambda>g. g_node g = i) (grants d))"

definition loadNode :: "env \<Rightarrow> string \<Rightarrow> world \<Rightarrow> files_error + node_state" where
  "loadNode env nodeID w =
     (let d = w_db w in
      case exec env CallLoadNode (if pg_uuid nodeID then Inr (node_by_id nodeID d) else Inl InvalidText) of
        Inl e \<Rightarrow> Inl (FErrDb e)
      | Inr None \<Rightarrow> Inl FErrNotFound
      | Inr (Some n) \<Rightarrow>
      case (blob_by_hash (n_blob n) d, user_by_id (n_owner n) d) of
        (Some b, Some ou) \<Rightarrow>
          (case exec env CallLoadGrants (Inr (load_grants nodeID d)) of
             Inl e \<Rightarrow> Inl (FErrDb e)
           | Inr gs \<Rightarrow> Inr \<lparr>ns_node = node_view n b ou [], ns_ownerID = n_owner n, ns_blobHash = n_blob n,
                ns_wrappedDEK = b_wrapped b, ns_acl = \<lparr>acl_OwnerID = n_owner n, acl_Grants = gs\<rparr>\<rparr>)
      | _ \<Rightarrow> Inl FErrNotFound)"

definition authorize ::
  "env \<Rightarrow> user \<Rightarrow> string \<Rightarrow> action \<Rightarrow> world \<Rightarrow> (files_error + node_state) \<times> world" where
  "authorize env p nodeID action w =
     (case loadNode env nodeID w of
        Inl FErrNotFound \<Rightarrow>
          (Inl FErrNotFound, Record env (user_event p (''file.'' @ action) nodeID ResultDenied ''not_found'') w)
      | Inl e \<Rightarrow> (Inl e, w)
      | Inr st \<Rightarrow>
          if \<not> Can (Some p) (ns_acl st) action then
            (Inl FErrNotFound, Record env (user_event p (''file.'' @ action) nodeID ResultDenied ''no_grant'') w)
          else
            (Inr (st\<lparr>ns_node := (ns_node st)\<lparr>nd_MyRole :=
                   (if u_ID p = ns_ownerID st then ''owner''
                    else case acl_Grants (ns_acl st) (u_ID p) of Some role \<Rightarrow> role | None \<Rightarrow> [])\<rparr>\<rparr>), w))"

section \<open>Stat and Download\<close>

text \<open>\<open>collate\<close> is the sort key of a user name under the database's collation.\<close>

definition Stat ::
  "env \<Rightarrow> (string \<Rightarrow> nat) \<Rightarrow> user \<Rightarrow> string \<Rightarrow> world \<Rightarrow> (files_error + node \<times> grant_entry list) \<times> world" where
  "Stat env collate p nodeID w =
     (case authorize env p nodeID ActionView w of
        (Inl e, w1) \<Rightarrow> (Inl e, w1)
      | (Inr st, w1) \<Rightarrow>
          if Can (Some p) (ns_acl st) ActionShare then
            (case exec env CallListGrants (Inr (List.map_filter
                 (\<lambda>g. map_option (\<lambda>us. \<lparr>gr_Username = ur_username us, gr_Role = g_role g\<rparr>)
                        (user_by_id (g_grantee g) (w_db w1)))
                 (select_where (\<lambda>g. g_node g = nodeID) (grants (w_db w1))))) of
               Inl e \<Rightarrow> (Inl (FErrDb e), w1)
             | Inr gs \<Rightarrow> (Inr (ns_node st, sort_key (\<lambda>g. collate (gr_Username g)) gs), w1))
          else (Inr (ns_node st, []), w1))"

definition Download ::
  "env \<Rightarrow> fs_faults \<Rightarrow> crypto \<Rightarrow> repo \<Rightarrow> user \<Rightarrow> string \<Rightarrow> world \<Rightarrow> (files_error + node \<times> bytes) \<times> world" where
  "Download env flt c r p nodeID w =
     (case authorize env p nodeID ActionDownload w of
        (Inl e, w1) \<Rightarrow> (Inl e, w1)
      | (Inr st, w1) \<Rightarrow>
      case Open c (re_store r) flt (w_fs w1) (ns_blobHash st) (ns_wrappedDEK st) of
        Inl e \<Rightarrow>
          let reason = (case e of SErrCorrupt _ \<Rightarrow> ''integrity_failure'' | SErrNotFound \<Rightarrow> ''integrity_failure''
                        | _ \<Rightarrow> ''storage_error'')
          in (Inl FErrIntegrity, Record env (user_event p ''file.download'' nodeID ResultError reason) w1)
      | Inr plain \<Rightarrow>
          (Inr (ns_node st, plain), Record env (user_event p ''file.download'' nodeID ResultOK []) w1))"

section \<open>Rename\<close>

definition Rename ::
  "env \<Rightarrow> unicode \<Rightarrow> user \<Rightarrow> string \<Rightarrow> string \<Rightarrow> world \<Rightarrow> (files_error + node) \<times> world" where
  "Rename env u p nodeID newName w =
     (case authorize env p nodeID ActionRename w of
        (Inl e, w1) \<Rightarrow> (Inl e, w1)
      | (Inr st, w1) \<Rightarrow>
      let name = SanitizeFilename u newName in
      case exec env CallRenameNode (rename_node nodeID name (en_now env) (w_db w1)) of
        Inl e \<Rightarrow> (Inl (FErrDb e), w1)
      | Inr d \<Rightarrow>
          if node_by_id nodeID (w_db w1) = None then (Inl (FErrOther ''files: rename''), w1\<lparr>w_db := d\<rparr>)
          else (Inr ((ns_node st)\<lparr>nd_UpdatedAt := en_now env, nd_Name := name\<rparr>),
                Record env (user_event p ''file.rename'' nodeID ResultOK []) (w1\<lparr>w_db := d\<rparr>)))"

section \<open>Delete\<close>

text \<open>
  \<open>rv1\<close> is what other sessions commit between the authorisation and the transaction, \<open>rv2\<close> what they
  do between the commit and the removal of the object file.
\<close>

definition delete_tx :: "env \<Rightarrow> string \<Rightarrow> bytes \<Rightarrow> db \<Rightarrow> files_error + int \<times> db" where
  "delete_tx env nodeID hash d =
     (case exec env CallDeleteNode (Inr (delete_node nodeID d)) of
        Inl e \<Rightarrow> Inl (FErrDb e)
      | Inr d1 \<Rightarrow>
      case exec env CallDereference (add_refs (- 1) hash d1) of
        Inl e \<Rightarrow> Inl (FErrDb e)
      | Inr d2 \<Rightarrow>
      case blob_by_hash hash d2 of
        None \<Rightarrow> Inl (FErrOther ''files: dereference blob'')
      | Some b \<Rightarrow>
          if b_refs b = 0 then
            (case exec env CallDeleteBlob (delete_blob hash d2) of
               Inl e \<Rightarrow> Inl (FErrDb e)
             | Inr d3 \<Rightarrow> Inr (b_refs b, d3))
          else Inr (b_refs b, d2))"

text \<open>After the metadata commit: a crash here leaves an orphan file.\<close>

definition finish_delete ::
  "env \<Rightarrow> fs_faults \<Rightarrow> repo \<Rightarrow> rival \<Rightarrow> user \<Rightarrow> string \<Rightarrow> bytes \<Rightarrow> int \<Rightarrow> world \<Rightarrow> (files_error + unit) \<times> world" where
  "finish_delete env flt r rv2 p nodeID hash refs w =
     (let done_event = user_event p ''file.delete'' nodeID ResultOK [] in
      if refs = 0 then
        let w1 = rv2 w in
        (case Remove (re_store r) flt hash (w_fs w1) of
           (Inl e, fs) \<Rightarrow> (Inl (of_storage e), w1\<lparr>w_fs := fs\<rparr>)
         | (Inr _, fs) \<Rightarrow> (Inr (), Record env done_event (w1\<lparr>w_fs := fs\<rparr>)))
      else (Inr (), Record env done_event w))"

definition Delete ::
  "env \<Rightarrow> fs_faults \<Rightarrow> repo \<Rightarrow> rival \<Rightarrow> rival \<Rightarrow> user \<Rightarrow> string \<Rightarrow> world \<Rightarrow> (files_error + unit) \<times> world" where
  "Delete env flt r rv1 rv2 p nodeID w =
     (case authorize env p nodeID ActionDelete w of
        (Inl e, w1) \<Rightarrow> (Inl e, w1)
      | (Inr st, w1) \<Rightarrow>
      let w2 = rv1 w1 in
      if en_fail env CallBegin then (Inl (FErrDb Unavailable), w2) else
      case delete_tx env nodeID (ns_blobHash st) (w_db w2) of
        Inl e \<Rightarrow> (Inl e, w2)
      | Inr (refs, d) \<Rightarrow>
      case commit_tx env (w_db w2) d of
        (False, d') \<Rightarrow> (Inl (FErrDb Unavailable), w2\<lparr>w_db := d'\<rparr>)
      | (True, d') \<Rightarrow> finish_delete env flt r rv2 p nodeID (ns_blobHash st) refs (w2\<lparr>w_db := d'\<rparr>))"

section \<open>Share and Revoke\<close>

definition Share ::
  "env \<Rightarrow> user \<Rightarrow> string \<Rightarrow> string \<Rightarrow> string \<Rightarrow> world \<Rightarrow> (files_error + unit) \<times> world" where
  "Share env p nodeID granteeName role w =
     (if role \<noteq> RoleEditor \<and> role \<noteq> RoleViewer then (Inl (FErrValidation RoleNotGrantable), w) else
      case authorize env p nodeID ActionShare w of
        (Inl e, w1) \<Rightarrow> (Inl e, w1)
      | (Inr st, w1) \<Rightarrow>
      case exec env CallSelectGrantee
             (if pg_text granteeName then Inr (user_by_name granteeName (w_db w1)) else Inl InvalidText) of
        Inl e \<Rightarrow> (Inl (FErrDb e), w1)
      | Inr None \<Rightarrow> (Inl (FErrValidation NoSuchUser), w1)
      | Inr (Some g) \<Rightarrow>
      if ur_id g = ns_ownerID st then (Inl (FErrValidation GrantToOwner), w1) else
      case exec env CallUpsertGrant (upsert_grant \<lparr>g_node = nodeID, g_grantee = ur_id g, g_role = role,
             g_by = u_ID p\<rparr> (w_db w1)) of
        Inl e \<Rightarrow> (Inl (FErrDb e), w1)
      | Inr d \<Rightarrow> (Inr (), Record env (user_event p ''share.grant'' nodeID ResultOK (role @ '':'' @ granteeName))
                          (w1\<lparr>w_db := d\<rparr>)))"

definition names_grantee :: "string \<Rightarrow> string \<Rightarrow> db \<Rightarrow> grant_row \<Rightarrow> bool" where
  "names_grantee nodeID granteeName d g \<longleftrightarrow> g_node g = nodeID \<and>
     (\<exists>us\<in>set (users d). g_grantee g = ur_id us \<and> ur_username us = granteeName)"

definition Revoke :: "env \<Rightarrow> user \<Rightarrow> string \<Rightarrow> string \<Rightarrow> world \<Rightarrow> (files_error + unit) \<times> world" where
  "Revoke env p nodeID granteeName w =
     (case authorize env p nodeID ActionShare w of
        (Inl e, w1) \<Rightarrow> (Inl e, w1)
      | (Inr st, w1) \<Rightarrow>
      let d = w_db w1; hit = names_grantee nodeID granteeName d in
      case exec env CallDeleteGrant
             (if pg_text granteeName then Inr (count_where hit (grants d), delete_where hit (grants d))
              else Inl InvalidText) of
        Inl e \<Rightarrow> (Inl (FErrDb e), w1)
      | Inr (affected, gs) \<Rightarrow>
          if affected = 0 then (Inl (FErrValidation NoSuchGrant), w1)
          else (Inr (), Record env (user_event p ''share.revoke'' nodeID ResultOK granteeName)
                          (w1\<lparr>w_db := d\<lparr>grants := gs\<rparr>\<rparr>)))"

end
