(* ===== verification/Api_Server.thy ===== *)
theory Api_Server
  imports Go_Http Auth_Service Files_Repo
begin

text \<open>
  The HTTP layer, \<^verbatim>\<open>internal/api/server.go\<close> and \<^verbatim>\<open>middleware.go\<close>: requests, the server, cookies,
  responses, the mapping of service errors and the middleware. A handler is a function of the request
  and the world; what a request context carries (user, request id, path values) are fields of the request.
\<close>

section \<open>Requests and the server\<close>

text \<open>
  \<open>rq_Segments\<close> are the decoded segments of the path as the multiplexer splits it (a trailing
  slash gives an empty last segment); requests that \<^verbatim>\<open>net/http\<close> itself redirects never get here.
\<close>

record request =
  rq_Method :: string
  rq_Path :: string
  rq_Segments :: "string list"
  rq_PathValue :: "string \<Rightarrow> string"
  rq_Cookies :: "(string \<times> string) list"
  rq_Header :: "string \<Rightarrow> string"
  rq_Query :: "string \<Rightarrow> string"
  rq_RemoteAddr :: string
  rq_Json :: json_body
  rq_Multipart :: "upload_body option"
  rq_User :: "user option"
  rq_RequestID :: string

type_synonym handler = "request \<Rightarrow> world \<Rightarrow> outcome \<times> world"

text \<open>
  The embedded web interface, a build artifact: the paths that open, the content of \<^verbatim>\<open>index.html\<close>, and
  what \<^verbatim>\<open>http.FileServerFS\<close> replies for a path that opens.
\<close>

record web_ui =
  ui_opens :: "string \<Rightarrow> bool"
  ui_index :: "bytes option"
  ui_static :: "request \<Rightarrow> response"

record server =
  srv_auth :: service
  srv_files :: repo
  srv_devMode :: bool
  srv_maxUpload :: int64
  srv_ui :: "web_ui option"

definition NewServer :: "service \<Rightarrow> repo \<Rightarrow> bool \<Rightarrow> int64 \<Rightarrow> web_ui option \<Rightarrow> server" where
  "NewServer authSvc r devMode maxUpload ui =
     \<lparr>srv_auth = authSvc, srv_files = r, srv_devMode = devMode, srv_maxUpload = maxUpload, srv_ui = ui\<rparr>"

text \<open>
  Everything a request meets that the program does not decide: the clock and the failing calls, the
  primitives, the random values, the identifiers the database makes, what other sessions do in the
  windows of an operation, and after how many rows a query of the administration breaks off.
\<close>

record ambience =
  am_env :: env
  am_flt :: fs_faults
  am_crypto :: crypto
  am_unicode :: unicode
  am_detect :: "bytes \<Rightarrow> string"
  am_collate :: "string \<Rightarrow> nat"
  am_dummyHash :: string
  am_requestID :: rand_source
  am_salt :: rand_source
  am_token :: rand_source
  am_csrf :: rand_source
  am_invite :: rand_source
  am_uuid :: string
  am_stage :: stage_random
  am_attempts :: "nat \<Rightarrow> attempt"
  am_rival1 :: rival
  am_rival2 :: rival
  am_rows :: "nat option"

definition sessionCookie :: string where "sessionCookie = ''sv_session''"
definition csrfCookie :: string where "csrfCookie = ''sv_csrf''"

lemmas cookie_name_defs = sessionCookie_def csrfCookie_def

section \<open>Responses\<close>

definition writeJSON :: "nat \<Rightarrow> json \<Rightarrow> response" where
  "writeJSON status v =
     \<lparr>rs_Status = status, rs_Headers = [(''Content-Type'', ''application/json'')], rs_Cookies = [], rs_Body = BodyJson v\<rparr>"

definition writeError :: "nat \<Rightarrow> string \<Rightarrow> response" where
  "writeError status msg = writeJSON status (JObject [(''error'', JString msg)])"

definition status_reply :: "string \<Rightarrow> response" where
  "status_reply msg = writeJSON 200 (JObject [(''status'', JString msg)])"

definition auth_message :: "auth_error \<Rightarrow> string" where
  "auth_message e = (case e of
     ErrInvalidCredentials \<Rightarrow> ''invalid username or password''
   | ErrThrottled \<Rightarrow> ''too many failed attempts; try again later''
   | ErrUsernameTaken \<Rightarrow> ''username is already taken''
   | ErrSessionInvalid \<Rightarrow> ''session is invalid or expired''
   | ErrPasswordPolicy \<Rightarrow> ''password must be between 8 and 128 characters''
   | ErrUsernamePolicy \<Rightarrow>
       ''username must be 3-32 characters: lowercase letters, digits, '' @ CHR 0x27 # ''_'' @ CHR 0x27 # '', '' @
       CHR 0x27 # ''.'' @ CHR 0x27 # '', '' @ CHR 0x27 # ''-'' @ [CHR 0x27]
   | ErrRegistrationClosed \<Rightarrow> ''registration is closed''
   | ErrInviteRequired \<Rightarrow> ''an invite code is required to register''
   | ErrInviteInvalid \<Rightarrow> ''invite code is invalid, expired, or already used''
   | ErrUserLimitReached \<Rightarrow> ''the account limit has been reached''
   | ErrInviteNotFound \<Rightarrow> ''invite not found''
   | ErrInvitePolicy \<Rightarrow> ''invite lifetime must be 1 minute to 30 days and the note at most 64 characters''
   | ErrAdminRequired \<Rightarrow> ''administrator role required''
   | ErrAuthOther m \<Rightarrow> m)"

definition validation_message :: "unicode \<Rightarrow> validation_reason \<Rightarrow> string" where
  "validation_message u v = ''validation failed: '' @ (case v of
     MalformedContentType d \<Rightarrow> ''malformed content type '' @ quote u d
   | UndetectableContent \<Rightarrow> ''undetectable content''
   | TypeMismatch d s \<Rightarrow>
       ''declared type '' @ quote u d @ '' does not match detected signature '' @ quote u s
   | RoleNotGrantable \<Rightarrow> ''role must be editor or viewer''
   | NoSuchUser \<Rightarrow> ''no such user''
   | GrantToOwner \<Rightarrow> ''cannot grant to the owner''
   | NoSuchGrant \<Rightarrow> ''no such grant'')"

definition file_not_found :: string where
  "file_not_found = ''file not found''"

datatype service_error = AuthError auth_error | FilesError files_error | OtherError

definition internal_error :: "world \<Rightarrow> response \<times> world" where
  "internal_error w = (writeError 500 ''internal error'', w\<lparr>w_log := w_log w @ [''internal error'']\<rparr>)"

definition writeServiceError :: "unicode \<Rightarrow> service_error \<Rightarrow> world \<Rightarrow> response \<times> world" where
  "writeServiceError u err w = (case err of
     AuthError e \<Rightarrow>
       (if e = ErrInvalidCredentials then (writeError 401 (auth_message e), w)
        else if e = ErrThrottled then (writeError 429 (auth_message e), w)
        else if e = ErrSessionInvalid then (writeError 401 (auth_message e), w)
        else if e = ErrUsernameTaken then (writeError 409 (auth_message e), w)
        else if e \<in> {ErrUsernamePolicy, ErrPasswordPolicy, ErrInvitePolicy} then (writeError 400 (auth_message e), w)
        else if e \<in> {ErrRegistrationClosed, ErrInviteRequired, ErrInviteInvalid, ErrUserLimitReached}
        then (writeError 403 (auth_message e), w)
        else if e = ErrInviteNotFound then (writeError 404 (auth_message e), w)
        else if e = ErrAdminRequired then (writeError 404 ''not found'', w)
        else internal_error w)
   | FilesError e \<Rightarrow>
       (case e of
          FErrValidation v \<Rightarrow> (writeError 400 (validation_message u v), w)
        | FErrNotFound \<Rightarrow> (writeError 404 file_not_found, w)
        | FErrTooLarge \<Rightarrow> (writeError 413 ''file exceeds the upload size limit'', w)
        | FErrIntegrity \<Rightarrow> (writeError 500 ''stored object failed integrity verification'', w)
        | _ \<Rightarrow> internal_error w)
   | OtherError \<Rightarrow> internal_error w)"

text \<open>Replying without touching the world, and replying to a service error.\<close>

definition reply :: "response \<Rightarrow> world \<Rightarrow> outcome \<times> world" where
  "reply resp w = (Reply resp, w)"

definition reply_error :: "ambience \<Rightarrow> service_error \<Rightarrow> world \<Rightarrow> outcome \<times> world" where
  "reply_error am e w = (case writeServiceError (am_unicode am) e w of (resp, w') \<Rightarrow> (Reply resp, w'))"

section \<open>Cookies\<close>

definition cookieMaxAge :: int where
  "cookieMaxAge = 4 * 60 * 60"

text \<open>The cookies set, and whether the random source delivered the CSRF token.\<close>

definition setSessionCookies :: "server \<Rightarrow> rand_source \<Rightarrow> string \<Rightarrow> bool \<times> cookie list" where
  "setSessionCookies s rnd token =
     (let session = \<lparr>ck_Name = sessionCookie, ck_Value = token, ck_Path = ''/'', ck_HttpOnly = True,
            ck_Secure = (\<not> srv_devMode s), ck_SameSiteStrict = True, ck_MaxAge = cookieMaxAge\<rparr>
      in case rand_read 32 rnd of
           None \<Rightarrow> (False, [session])
         | Some buf \<Rightarrow> (True, [session,
             \<lparr>ck_Name = csrfCookie, ck_Value = base64_url_encode buf, ck_Path = ''/'', ck_HttpOnly = False,
              ck_Secure = (\<not> srv_devMode s), ck_SameSiteStrict = True, ck_MaxAge = cookieMaxAge\<rparr>]))"

definition clearSessionCookies :: "server \<Rightarrow> cookie list" where
  "clearSessionCookies s = map (\<lambda>nm. \<lparr>ck_Name = nm, ck_Value = [], ck_Path = ''/'',
     ck_HttpOnly = (nm = sessionCookie), ck_Secure = (\<not> srv_devMode s), ck_SameSiteStrict = True, ck_MaxAge = - 1\<rparr>)
     [sessionCookie, csrfCookie]"

section \<open>Request helpers\<close>

definition uuid_digit :: "char \<Rightarrow> bool" where
  "uuid_digit c \<longleftrightarrow> c \<in> set hex_alphabet"

text \<open>
  The regular expression \<^verbatim>\<open>^[0-9a-f]{8}-[0-9a-f]{4}-[0-9a-f]{4}-[0-9a-f]{4}-[0-9a-f]{12}$\<close>: between the
  dashes, five groups of digits of these lengths.
\<close>

definition uuidRe :: "string \<Rightarrow> bool" where
  "uuidRe s \<longleftrightarrow> map length (split_char (CHR ''-'') s) = [8, 4, 4, 4, 12] \<and>
     list_all (\<lambda>c. c = CHR ''-'' \<or> uuid_digit c) s"

text \<open>What gets past the path check is what the database takes for a \<^verbatim>\<open>uuid\<close>.\<close>

lemma uuidRe_pg: "uuidRe s = pg_uuid s"
proof -
  have "list_all (\<lambda>c. c = CHR ''-'' \<or> uuid_digit c) s \<longleftrightarrow> set s \<subseteq> set (CHR ''-'' # hex_alphabet)"
    by (auto simp: list_all_iff uuid_digit_def)
  then show ?thesis by (simp add: uuidRe_def pg_uuid_def)
qed

definition pathUUID :: "unicode \<Rightarrow> request \<Rightarrow> string \<Rightarrow> string option" where
  "pathUUID u r nm = (let v = to_lower u (rq_PathValue r nm) in if uuidRe v then Some v else None)"

definition decodeJSON :: "fields \<Rightarrow> request \<Rightarrow> (string \<Rightarrow> json) option" where
  "decodeJSON fs r =
     (case json_decode fs (rq_Json r) of
        None \<Rightarrow> None
      | Some m \<Rightarrow> if json_more (rq_Json r) then None else Some m)"

definition malformed_body :: response where
  "malformed_body = writeError 400 ''malformed request body''"

definition auditDenied :: "env \<Rightarrow> request \<Rightarrow> string \<Rightarrow> string \<Rightarrow> world \<Rightarrow> world" where
  "auditDenied env r act target w =
     Record env \<lparr>ev_ActorID = (case rq_User r of Some u \<Rightarrow> u_ID u | None \<Rightarrow> []),
       ev_ActorName = (case rq_User r of Some u \<Rightarrow> u_Username u | None \<Rightarrow> []),
       ev_Action = act, ev_Target = target, ev_Result = ResultDenied, ev_Reason = ''no_grant'',
       ev_RequestID = rq_RequestID r\<rparr> w"

definition clientAddr :: "request \<Rightarrow> string" where
  "clientAddr r = (case SplitHostPort (rq_RemoteAddr r) of None \<Rightarrow> rq_RemoteAddr r | Some host \<Rightarrow> host)"

section \<open>Guards\<close>

definition requireAuth :: "server \<Rightarrow> ambience \<Rightarrow> handler \<Rightarrow> handler" where
  "requireAuth s am next_h r w =
     (case map_of (rq_Cookies r) sessionCookie of
        None \<Rightarrow> reply (writeError 401 ''authentication required'') w
      | Some token \<Rightarrow>
      case ValidateSession (am_env am) (am_crypto am) (srv_auth s) token w of
        (Inl _, w1) \<Rightarrow> reply (writeError 401 ''authentication required'') w1
      | (Inr u, w1) \<Rightarrow> next_h (r\<lparr>rq_User := Some u\<rparr>) w1)"

definition requireCSRF :: "handler \<Rightarrow> handler" where
  "requireCSRF next_h r w =
     (case map_of (rq_Cookies r) csrfCookie of
        None \<Rightarrow> reply (writeError 403 ''missing CSRF token'') w
      | Some v \<Rightarrow>
          if v = [] then reply (writeError 403 ''missing CSRF token'') w
          else if v \<noteq> rq_Header r ''X-CSRF-Token'' then reply (writeError 403 ''invalid CSRF token'') w
          else next_h r w)"

definition requireAdmin :: "ambience \<Rightarrow> handler \<Rightarrow> handler" where
  "requireAdmin am next_h r w =
     (case rq_User r of
        Some u \<Rightarrow>
          if IsAdmin u then next_h r w
          else reply (writeError 404 ''not found'') (auditDenied (am_env am) r ''admin.access'' (rq_Path r) w)
      | None \<Rightarrow> reply (writeError 404 ''not found'') (auditDenied (am_env am) r ''admin.access'' (rq_Path r) w))"

section \<open>The chain around the route table\<close>

definition add_headers :: "(string \<times> string) list \<Rightarrow> outcome \<Rightarrow> outcome" where
  "add_headers hs out = (case out of
     Reply resp \<Rightarrow> Reply (resp\<lparr>rs_Headers := rs_Headers resp @ hs\<rparr>)
   | Panic xs \<Rightarrow> Panic (xs @ hs))"

text \<open>A failing random source leaves the buffer of zero bytes as it is.\<close>

definition withRequestID :: "ambience \<Rightarrow> handler \<Rightarrow> handler" where
  "withRequestID am next_h r w =
     (let buf = (case rand_read 8 (am_requestID am) of Some b \<Rightarrow> b | None \<Rightarrow> replicate 8 0);
          i = hex_encode buf;
          (out, w1) = next_h (r\<lparr>rq_RequestID := i\<rparr>) w
      in (add_headers [(''X-Request-Id'', i)] out, w1))"

definition withRecovery :: "handler \<Rightarrow> handler" where
  "withRecovery next_h r w =
     (case next_h r w of
        (Panic hs, w1) \<Rightarrow>
          (let resp = writeError 500 ''internal error''
           in (Reply (resp\<lparr>rs_Headers := rs_Headers resp @ hs\<rparr>), w1\<lparr>w_log := w_log w1 @ [''panic recovered'']\<rparr>))
      | (Reply resp, w1) \<Rightarrow> (Reply resp, w1))"

definition withLogging :: "handler \<Rightarrow> handler" where
  "withLogging next_h r w =
     (case next_h r w of
        (Panic hs, w1) \<Rightarrow> (Panic hs, w1)
      | (Reply resp, w1) \<Rightarrow> (Reply resp, w1\<lparr>w_log := w_log w1 @ [''request'']\<rparr>))"

definition security_headers :: "(string \<times> string) list" where
  "security_headers =
     [(''Content-Security-Policy'',
         ''default-src '' @ CHR 0x27 # ''self'' @ CHR 0x27 # ''; script-src '' @ CHR 0x27 # ''self'' @ CHR 0x27 #
         ''; style-src '' @ CHR 0x27 # ''self'' @ CHR 0x27 # ''; img-src '' @ CHR 0x27 # ''self'' @ CHR 0x27 #
         '' data:; connect-src '' @ CHR 0x27 # ''self'' @ CHR 0x27 # ''; object-src '' @ CHR 0x27 # ''none'' @ CHR 0x27 #
         ''; base-uri '' @ CHR 0x27 # ''none'' @ CHR 0x27 # ''; frame-ancestors '' @ CHR 0x27 # ''none'' @ CHR 0x27 #
         ''; form-action '' @ CHR 0x27 # ''self'' @ [CHR 0x27]),
      (''X-Content-Type-Options'', ''nosniff''),
      (''Referrer-Policy'', ''no-referrer''),
      (''Cross-Origin-Opener-Policy'', ''same-origin''),
      (''Cross-Origin-Resource-Policy'', ''same-origin''),
      (''Cross-Origin-Embedder-Policy'', ''require-corp''),
      (''Permissions-Policy'', ''camera=(), microphone=(), geolocation=()'')]"

definition withSecurityHeaders :: "handler \<Rightarrow> handler" where
  "withSecurityHeaders next_h r w = (case next_h r w of (out, w1) \<Rightarrow> (add_headers security_headers out, w1))"

end
