(* ===== verification/Api_Handlers.thy ===== *)
theory Api_Handlers
  imports Api_Server
begin

text \<open>
  The handlers for accounts and files, \<^verbatim>\<open>internal/api/handlers_auth.go\<close> and the first part of
  \<^verbatim>\<open>handlers_files.go\<close>. A handler that needs the authenticated user panics without one, as the nil pointer does.
\<close>

section \<open>handlers_auth.go\<close>

definition credentialsRequest :: fields where
  "credentialsRequest = [(''username'', StringField), (''password'', StringField)]"

definition registerRequest :: fields where
  "registerRequest = credentialsRequest @ [(''inviteCode'', StringField)]"

definition userResponse :: "user \<Rightarrow> json" where
  "userResponse p = JObject [(''id'', JString (u_ID p)), (''username'', JString (u_Username p)), (''role'', JString (u_Role p))]"

definition handleRegister :: "server \<Rightarrow> ambience \<Rightarrow> handler" where
  "handleRegister s am r w =
     (case decodeJSON registerRequest r of
        None \<Rightarrow> reply malformed_body w
      | Some m \<Rightarrow>
      case Register (am_env am) (am_crypto am) (am_unicode am) (am_salt am) (am_uuid am) (srv_auth s)
             (json_string (m ''username'')) (json_string (m ''password'')) (json_string (m ''inviteCode'')) w of
        (Inl e, w1) \<Rightarrow> reply_error am (AuthError e) w1
      | (Inr p, w1) \<Rightarrow> reply (writeJSON 201 (userResponse p)) w1)"

definition handleRegistrationStatus :: "server \<Rightarrow> ambience \<Rightarrow> handler" where
  "handleRegistrationStatus s am r w =
     (case RegistrationStatus (am_env am) (srv_auth s) w of
        Inl e \<Rightarrow> reply_error am (AuthError e) w
      | Inr st \<Rightarrow> reply (writeJSON 200 (JObject
          [(''mode'', JString (rs_Mode st)), (''acceptingRegistrations'', JBool (rs_Accepting st)),
           (''inviteRequired'', JBool (rs_InviteRequired st))])) w)"

text \<open>A session cookie that is already set stays set when the CSRF token cannot be made.\<close>

definition reply_with_session :: "server \<Rightarrow> ambience \<Rightarrow> string \<Rightarrow> response \<Rightarrow> world \<Rightarrow> outcome \<times> world" where
  "reply_with_session s am token resp w =
     (case setSessionCookies s (am_csrf am) token of
        (True, cks) \<Rightarrow> reply (resp\<lparr>rs_Cookies := cks\<rparr>) w
      | (False, cks) \<Rightarrow>
          (case writeServiceError (am_unicode am) OtherError w of (err, w1) \<Rightarrow> reply (err\<lparr>rs_Cookies := cks\<rparr>) w1))"

definition handleLogin :: "server \<Rightarrow> ambience \<Rightarrow> handler" where
  "handleLogin s am r w =
     (case decodeJSON credentialsRequest r of
        None \<Rightarrow> reply malformed_body w
      | Some m \<Rightarrow>
      case Login (am_env am) (am_crypto am) (am_token am) (am_dummyHash am) (srv_auth s)
             (json_string (m ''username'')) (json_string (m ''password'')) (clientAddr r) w of
        (Inl e, w1) \<Rightarrow> reply_error am (AuthError e) w1
      | (Inr (token, p), w1) \<Rightarrow> reply_with_session s am token (writeJSON 200 (userResponse p)) w1)"

definition handleLogout :: "server \<Rightarrow> ambience \<Rightarrow> handler" where
  "handleLogout s am r w =
     (case (map_of (rq_Cookies r) sessionCookie, rq_User r) of
        (Some token, Some p) \<Rightarrow>
          (case Logout (am_env am) (am_crypto am) token p w of
             (Inl e, w1) \<Rightarrow> reply_error am (AuthError e) w1
           | (Inr _, w1) \<Rightarrow> reply ((status_reply ''logged out'')\<lparr>rs_Cookies := clearSessionCookies s\<rparr>) w1)
      | _ \<Rightarrow> (Panic [], w))"

definition handleMe :: handler where
  "handleMe r w = (case rq_User r of Some p \<Rightarrow> reply (writeJSON 200 (userResponse p)) w | None \<Rightarrow> (Panic [], w))"

definition handleChangePassword :: "server \<Rightarrow> ambience \<Rightarrow> handler" where
  "handleChangePassword s am r w =
     (case decodeJSON [(''currentPassword'', StringField), (''newPassword'', StringField)] r of
        None \<Rightarrow> reply malformed_body w
      | Some m \<Rightarrow>
      case rq_User r of None \<Rightarrow> (Panic [], w) | Some p \<Rightarrow>
      case ChangePassword (am_env am) (am_crypto am) (am_salt am) (am_token am) (srv_auth s) p
             (json_string (m ''currentPassword'')) (json_string (m ''newPassword'')) w of
        (Inl e, w1) \<Rightarrow> reply_error am (AuthError e) w1
      | (Inr token, w1) \<Rightarrow> reply_with_session s am token (status_reply ''password changed'') w1)"

section \<open>handlers_files.go: files\<close>

definition node_json :: "node \<Rightarrow> json" where
  "node_json n = JObject
     [(''id'', JString (nd_ID n)), (''name'', JString (nd_Name n)), (''mimeType'', JString (nd_MimeType n)),
      (''size'', JNumber (int_literal (nd_Size n))), (''owner'', JString (nd_OwnerName n)), (''myRole'', JString (nd_MyRole n)),
      (''createdAt'', JTime (nd_CreatedAt n)), (''updatedAt'', JTime (nd_UpdatedAt n))]"

definition grant_json :: "grant_entry \<Rightarrow> json" where
  "grant_json g = JObject [(''username'', JString (gr_Username g)), (''role'', JString (gr_Role g))]"

definition missing_file :: response where
  "missing_file = writeError 404 file_not_found"

definition handleList :: "ambience \<Rightarrow> handler" where
  "handleList am r w =
     (case rq_User r of None \<Rightarrow> (Panic [], w) | Some p \<Rightarrow>
      case List (am_env am) p w of
        (Inl e, w1) \<Rightarrow> reply_error am (FilesError e) w1
      | (Inr ns, w1) \<Rightarrow> reply (writeJSON 200 (JObject [(''files'', JArray (map node_json ns))])) w1)"

text \<open>\<^verbatim>\<open>http.MaxBytesReader\<close> takes a negative limit for zero.\<close>

definition request_limit :: "server \<Rightarrow> nat" where
  "request_limit s = nat (sint (srv_maxUpload s + 0x10000))"

text \<open>How many bytes of the body arrive, and the error that follows them.\<close>

definition body_budget :: "server \<Rightarrow> upload_body \<Rightarrow> nat \<times> read_error" where
  "body_budget s b = (case up_break b of
     None \<Rightarrow> (request_limit s, MaxBytesError)
   | Some (n, short) \<Rightarrow>
       if n \<le> request_limit s then (n, if short then UnexpectedEOF else OtherReadError)
       else (request_limit s, MaxBytesError))"

definition part_error :: "read_error option \<Rightarrow> response" where
  "part_error e = (if e = Some MaxBytesError then writeError 413 ''file exceeds the upload size limit''
                   else writeError 400 ''no file field in upload'')"

text \<open>The loop over the parts; \<open>left\<close> is the number of bytes that still arrive.\<close>

fun upload_parts ::
  "server \<Rightarrow> ambience \<Rightarrow> user \<Rightarrow> nat \<Rightarrow> read_error \<Rightarrow> nat \<Rightarrow> part list \<Rightarrow> world \<Rightarrow> outcome \<times> world" where
  "upload_parts s am p fin stop left [] w = reply (part_error (if left < fin then Some stop else None)) w"
| "upload_parts s am p fin stop left (pt # pts) w =
     (if left < pt_head pt then reply (part_error (Some stop)) w
      else let here = left - pt_head pt; size = length (pt_content pt) + pt_close pt in
      if pt_FormName pt \<noteq> ''file'' then
        (if here < size then reply (part_error (Some stop)) w
         else upload_parts s am p fin stop (here - size) pts w)
      else
        let rd = (if here < size then \<lparr>rd_data = take here (pt_content pt), rd_err = Some stop\<rparr>
                  else \<lparr>rd_data = pt_content pt, rd_err = None\<rparr>) in
        case Upload (am_env am) (am_flt am) (am_crypto am) (am_unicode am) (am_detect am) (srv_files s) (am_stage am)
               (am_attempts am) p (pt_FileName pt) (pt_ContentType pt) rd w of
          (Inl e, w1) \<Rightarrow> reply_error am (FilesError (if e = FErrReceive MaxBytesError then FErrTooLarge else e)) w1
        | (Inr n, w1) \<Rightarrow> reply (writeJSON 201 (node_json n)) w1)"

definition handleUpload :: "server \<Rightarrow> ambience \<Rightarrow> handler" where
  "handleUpload s am r w =
     (case rq_Multipart r of
        None \<Rightarrow> reply (writeError 400 ''expected multipart/form-data'') w
      | Some b \<Rightarrow>
      case rq_User r of None \<Rightarrow> (Panic [], w) | Some p \<Rightarrow>
      case body_budget s b of (left, stop) \<Rightarrow> upload_parts s am p (up_end b) stop left (up_parts b) w)"

definition handleStat :: "ambience \<Rightarrow> handler" where
  "handleStat am r w =
     (case pathUUID (am_unicode am) r ''id'' of
        None \<Rightarrow> reply missing_file w
      | Some i \<Rightarrow>
      case rq_User r of None \<Rightarrow> (Panic [], w) | Some p \<Rightarrow>
      case Stat (am_env am) (am_collate am) p i w of
        (Inl e, w1) \<Rightarrow> reply_error am (FilesError e) w1
      | (Inr (n, gs), w1) \<Rightarrow>
          reply (writeJSON 200 (JObject ((''file'', node_json n) #
            (if gs \<noteq> [] then [(''shares'', JArray (map grant_json gs))] else [])))) w1)"

definition handleDownload :: "server \<Rightarrow> ambience \<Rightarrow> handler" where
  "handleDownload s am r w =
     (case pathUUID (am_unicode am) r ''id'' of
        None \<Rightarrow> reply missing_file w
      | Some i \<Rightarrow>
      case rq_User r of None \<Rightarrow> (Panic [], w) | Some p \<Rightarrow>
      case Download (am_env am) (am_flt am) (am_crypto am) (srv_files s) p i w of
        (Inl e, w1) \<Rightarrow> reply_error am (FilesError e) w1
      | (Inr (n, plain), w1) \<Rightarrow>
          reply \<lparr>rs_Status = 200,
            rs_Headers = [(''Cache-Control'', ''no-store''), (''Content-Length'', decimal (length plain)),
              (''Content-Disposition'', FormatMediaType ''attachment'' ''filename'' (nd_Name n)),
              (''Content-Type'', nd_MimeType n)],
            rs_Cookies = [], rs_Body = BodyBytes plain\<rparr> w1)"

definition handleRename :: "ambience \<Rightarrow> handler" where
  "handleRename am r w =
     (case pathUUID (am_unicode am) r ''id'' of
        None \<Rightarrow> reply missing_file w
      | Some i \<Rightarrow>
      case decodeJSON [(''name'', StringField)] r of
        None \<Rightarrow> reply malformed_body w
      | Some m \<Rightarrow>
      if json_string (m ''name'') = [] then reply (writeError 400 ''name is required'') w else
      case rq_User r of None \<Rightarrow> (Panic [], w) | Some p \<Rightarrow>
      case Rename (am_env am) (am_unicode am) p i (json_string (m ''name'')) w of
        (Inl e, w1) \<Rightarrow> reply_error am (FilesError e) w1
      | (Inr n, w1) \<Rightarrow> reply (writeJSON 200 (node_json n)) w1)"

definition handleDelete :: "server \<Rightarrow> ambience \<Rightarrow> handler" where
  "handleDelete s am r w =
     (case pathUUID (am_unicode am) r ''id'' of
        None \<Rightarrow> reply missing_file w
      | Some i \<Rightarrow>
      case rq_User r of None \<Rightarrow> (Panic [], w) | Some p \<Rightarrow>
      case Delete (am_env am) (am_flt am) (srv_files s) (am_rival1 am) (am_rival2 am) p i w of
        (Inl e, w1) \<Rightarrow> reply_error am (FilesError e) w1
      | (Inr _, w1) \<Rightarrow> reply (status_reply ''deleted'') w1)"

definition handleShare :: "ambience \<Rightarrow> handler" where
  "handleShare am r w =
     (case pathUUID (am_unicode am) r ''id'' of
        None \<Rightarrow> reply missing_file w
      | Some i \<Rightarrow>
      case decodeJSON [(''username'', StringField), (''role'', StringField)] r of
        None \<Rightarrow> reply malformed_body w
      | Some m \<Rightarrow>
      case rq_User r of None \<Rightarrow> (Panic [], w) | Some p \<Rightarrow>
      case Share (am_env am) p i (json_string (m ''username'')) (json_string (m ''role'')) w of
        (Inl e, w1) \<Rightarrow> reply_error am (FilesError e) w1
      | (Inr _, w1) \<Rightarrow> reply (status_reply ''shared'') w1)"

definition handleRevoke :: "ambience \<Rightarrow> handler" where
  "handleRevoke am r w =
     (case pathUUID (am_unicode am) r ''id'' of
        None \<Rightarrow> reply missing_file w
      | Some i \<Rightarrow>
      if length (rq_PathValue r ''username'') > 64 then reply (writeError 400 ''malformed username'') w else
      case rq_User r of None \<Rightarrow> (Panic [], w) | Some p \<Rightarrow>
      case Revoke (am_env am) p i (rq_PathValue r ''username'') w of
        (Inl e, w1) \<Rightarrow> reply_error am (FilesError e) w1
      | (Inr _, w1) \<Rightarrow> reply (status_reply ''revoked'') w1)"

end
