(* ===== verification/Api_Routes.thy ===== *)
theory Api_Routes
  imports Api_Handlers
begin

text \<open>
  The administration handlers (\<^verbatim>\<open>handlers_admin.go\<close> and the end of \<^verbatim>\<open>handlers_files.go\<close>), the route
  table with its guards, the multiplexer and the complete handler of \<^verbatim>\<open>server.go\<close>.
\<close>

section \<open>Invites\<close>

definition time_json :: "time option \<Rightarrow> json" where
  "time_json t = (case t of None \<Rightarrow> JNull | Some x \<Rightarrow> JTime x)"

definition toInviteResponse :: "time \<Rightarrow> invite \<Rightarrow> json" where
  "toInviteResponse now i = JObject
     [(''id'', JString (iv_ID i)), (''note'', JString (iv_Note i)), (''createdBy'', JString (iv_CreatedBy i)),
      (''createdAt'', JTime (iv_CreatedAt i)), (''expiresAt'', JTime (iv_ExpiresAt i)), (''usedBy'', JString (iv_UsedBy i)),
      (''usedAt'', time_json (iv_UsedAt i)), (''revokedAt'', time_json (iv_RevokedAt i)), (''status'', JString (Status now i))]"

definition handleAdminInvites :: "ambience \<Rightarrow> handler" where
  "handleAdminInvites am r w =
     (case ListInvites (am_env am) (rq_User r) w of
        Inl e \<Rightarrow> reply_error am (AuthError e) w
      | Inr xs \<Rightarrow> reply (writeJSON 200 (JObject
          [(''invites'', JArray (map (toInviteResponse (en_now (am_env am))) xs))])) w)"

text \<open>\<^verbatim>\<open>time.Duration(req.TTLHours) * time.Hour\<close>, a product of two \<^verbatim>\<open>int64\<close>.\<close>

definition ttl_of_hours :: "int \<Rightarrow> time" where
  "ttl_of_hours n = sint (word_of_int n * word_of_int hour :: int64)"

definition handleAdminCreateInvite :: "ambience \<Rightarrow> handler" where
  "handleAdminCreateInvite am r w =
     (case decodeJSON [(''note'', StringField), (''ttlHours'', IntField)] r of
        None \<Rightarrow> reply malformed_body w
      | Some m \<Rightarrow>
      if json_int (m ''ttlHours'') < 0 then reply (writeError 400 (auth_message ErrInvitePolicy)) w else
      case CreateInvite (am_env am) (am_crypto am) (am_invite am) (am_uuid am) (rq_User r) (json_string (m ''note''))
             (ttl_of_hours (json_int (m ''ttlHours''))) w of
        (Inl e, w1) \<Rightarrow> reply_error am (AuthError e) w1
      | (Inr (code, iv), w1) \<Rightarrow> reply (writeJSON 201 (JObject
          [(''code'', JString code), (''invite'', toInviteResponse (en_now (am_env am)) iv)])) w1)"

definition handleAdminRevokeInvite :: "ambience \<Rightarrow> handler" where
  "handleAdminRevokeInvite am r w =
     (case pathUUID (am_unicode am) r ''id'' of
        None \<Rightarrow> reply (writeError 404 (auth_message ErrInviteNotFound)) w
      | Some i \<Rightarrow>
      case RevokeInvite (am_env am) (rq_User r) i w of
        (Inl e, w1) \<Rightarrow> reply_error am (AuthError e) w1
      | (Inr _, w1) \<Rightarrow> reply (status_reply ''revoked'') w1)"

section \<open>Accounts and audit review\<close>

text \<open>
  The rows a query delivers before the connection breaks; neither handler asks the row set for its error,
  so a broken result looks like a shorter one.
\<close>

definition delivered :: "nat option \<Rightarrow> 'r list \<Rightarrow> 'r list" where
  "delivered k t = (case k of None \<Rightarrow> t | Some n \<Rightarrow> take n t)"

definition account_json :: "user_row \<Rightarrow> json" where
  "account_json x = JObject [(''id'', JString (ur_id x)), (''username'', JString (ur_username x)),
     (''role'', JString (ur_role x)), (''createdAt'', JTime (ur_created x))]"

definition handleAdminUsers :: "ambience \<Rightarrow> handler" where
  "handleAdminUsers am r w =
     (case exec (am_env am) CallListUsers (Inr (sort_key ur_created (users (w_db w)))) of
        Inl e \<Rightarrow> reply_error am OtherError w
      | Inr t \<Rightarrow> reply (writeJSON 200 (JObject [(''users'', JArray (map account_json (delivered (am_rows am) t)))])) w)"

definition event_json :: "audit_row \<Rightarrow> json" where
  "event_json e = JObject
     [(''id'', JNumber (decimal (a_id e))), (''at'', JTime (a_at e)), (''actor'', JString (a_name e)),
      (''action'', JString (a_action e)), (''target'', JString (a_target e)), (''result'', JString (a_result e)),
      (''reason'', JString (a_reason e)), (''requestId'', JString (a_request e))]"

definition select_audit :: "int \<Rightarrow> nat \<Rightarrow> audit_row list \<Rightarrow> audit_row list" where
  "select_audit before n t =
     take n (sort_key (\<lambda>e. - int (a_id e)) (select_where (\<lambda>e. before = 0 \<or> int (a_id e) < before) t))"

text \<open>One row more than the limit is fetched to learn whether there is an older page.\<close>

definition audit_page :: "nat \<Rightarrow> audit_row list \<Rightarrow> audit_row list \<times> nat option" where
  "audit_page limit t =
     (if length t > limit then (take limit t, Some (a_id (last (take limit t)))) else (t, None))"

definition query_number :: "int \<Rightarrow> int option \<Rightarrow> string \<Rightarrow> int \<Rightarrow> int option" where
  "query_number lo hi v dflt =
     (if v = [] then Some dflt
      else case parse_int64 v of
        None \<Rightarrow> None
      | Some n \<Rightarrow> if n < lo \<or> (\<exists>h\<in>set_option hi. h < n) then None else Some n)"

definition handleAdminAudit :: "ambience \<Rightarrow> handler" where
  "handleAdminAudit am r w =
     (case query_number 1 (Some 1000) (rq_Query r ''limit'') 50 of
        None \<Rightarrow> reply (writeError 400 ''limit must be 1-1000'') w
      | Some limit \<Rightarrow>
      case query_number 1 None (rq_Query r ''before'') 0 of
        None \<Rightarrow> reply (writeError 400 ''before must be a positive event id'') w
      | Some before \<Rightarrow>
      case exec (am_env am) CallListAudit (Inr (select_audit before (nat (limit + 1)) (audit_events (w_db w)))) of
        Inl e \<Rightarrow> reply_error am OtherError w
      | Inr t \<Rightarrow>
          (case audit_page (nat limit) (delivered (am_rows am) t) of (es, nxt) \<Rightarrow>
             reply (writeJSON 200 (JObject [(''events'', JArray (map event_json es)),
               (''nextBefore'', case nxt of None \<Rightarrow> JNull | Some i \<Rightarrow> JNumber (decimal i))])) w))"

section \<open>The route table\<close>

datatype segment = Lit string | Wild string

fun match_path :: "segment list \<Rightarrow> string list \<Rightarrow> (string \<times> string) list option" where
  "match_path [] [] = Some []"
| "match_path (Lit l # ps) (x # xs) = (if l = x then match_path ps xs else None)"
| "match_path (Wild n # ps) (x # xs) = (if x = [] then None else map_option ((#) (n, x)) (match_path ps xs))"
| "match_path _ _ = None"

text \<open>A \<^verbatim>\<open>GET\<close> pattern also takes \<^verbatim>\<open>HEAD\<close> requests.\<close>

definition method_matches :: "string \<Rightarrow> string \<Rightarrow> bool" where
  "method_matches pat m \<longleftrightarrow> m = pat \<or> pat = ''GET'' \<and> m = ''HEAD''"

type_synonym route = "string \<times> segment list \<times> handler"

definition handleHealth :: handler where
  "handleHealth r w = reply (status_reply ''ok'') w"

definition public_routes :: "server \<Rightarrow> ambience \<Rightarrow> route list" where
  "public_routes s am =
     [(''GET'', [Lit ''api'', Lit ''health''], handleHealth),
      (''GET'', [Lit ''api'', Lit ''auth'', Lit ''registration''], handleRegistrationStatus s am),
      (''POST'', [Lit ''api'', Lit ''auth'', Lit ''register''], handleRegister s am),
      (''POST'', [Lit ''api'', Lit ''auth'', Lit ''login''], handleLogin s am)]"

definition account_routes :: "server \<Rightarrow> ambience \<Rightarrow> route list" where
  "account_routes s am =
     [(''POST'', [Lit ''api'', Lit ''auth'', Lit ''logout''], requireAuth s am (handleLogout s am)),
      (''POST'', [Lit ''api'', Lit ''auth'', Lit ''password''], requireAuth s am (requireCSRF (handleChangePassword s am))),
      (''GET'', [Lit ''api'', Lit ''auth'', Lit ''me''], requireAuth s am handleMe)]"

definition file_routes :: "server \<Rightarrow> ambience \<Rightarrow> route list" where
  "file_routes s am =
     [(''GET'', [Lit ''api'', Lit ''files''], requireAuth s am (handleList am)),
      (''POST'', [Lit ''api'', Lit ''files''], requireAuth s am (requireCSRF (handleUpload s am))),
      (''GET'', [Lit ''api'', Lit ''files'', Wild ''id''], requireAuth s am (handleStat am)),
      (''GET'', [Lit ''api'', Lit ''files'', Wild ''id'', Lit ''download''], requireAuth s am (handleDownload s am)),
      (''PATCH'', [Lit ''api'', Lit ''files'', Wild ''id''], requireAuth s am (requireCSRF (handleRename am))),
      (''DELETE'', [Lit ''api'', Lit ''files'', Wild ''id''], requireAuth s am (requireCSRF (handleDelete s am))),
      (''PUT'', [Lit ''api'', Lit ''files'', Wild ''id'', Lit ''shares''], requireAuth s am (requireCSRF (handleShare am))),
      (''DELETE'', [Lit ''api'', Lit ''files'', Wild ''id'', Lit ''shares'', Wild ''username''],
         requireAuth s am (requireCSRF (handleRevoke am)))]"

definition admin_routes :: "server \<Rightarrow> ambience \<Rightarrow> route list" where
  "admin_routes s am =
     [(''GET'', [Lit ''api'', Lit ''admin'', Lit ''users''], requireAuth s am (requireAdmin am (handleAdminUsers am))),
      (''GET'', [Lit ''api'', Lit ''admin'', Lit ''audit''], requireAuth s am (requireAdmin am (handleAdminAudit am))),
      (''GET'', [Lit ''api'', Lit ''admin'', Lit ''invites''], requireAuth s am (requireAdmin am (handleAdminInvites am))),
      (''POST'', [Lit ''api'', Lit ''admin'', Lit ''invites''],
         requireAuth s am (requireAdmin am (requireCSRF (handleAdminCreateInvite am)))),
      (''DELETE'', [Lit ''api'', Lit ''admin'', Lit ''invites'', Wild ''id''],
         requireAuth s am (requireAdmin am (requireCSRF (handleAdminRevokeInvite am))))]"

definition routes :: "server \<Rightarrow> ambience \<Rightarrow> route list" where
  "routes s am = public_routes s am @ account_routes s am @ file_routes s am @ admin_routes s am"

section \<open>The multiplexer and the complete handler\<close>

text \<open>No two patterns of the table match one request, so the order of the rows does not matter.\<close>

fun find_route :: "route list \<Rightarrow> request \<Rightarrow> (handler \<times> (string \<times> string) list) option" where
  "find_route [] r = None"
| "find_route ((m, pat, h) # rts) r =
     (if method_matches m (rq_Method r)
      then (case match_path pat (rq_Segments r) of
              Some vals \<Rightarrow> Some (h, vals)
            | None \<Rightarrow> find_route rts r)
      else find_route rts r)"

definition path_values :: "(string \<times> string) list \<Rightarrow> string \<Rightarrow> string" where
  "path_values vals n = (case map_of vals n of Some v \<Rightarrow> v | None \<Rightarrow> [])"

text \<open>Paths below \<^verbatim>\<open>/api/\<close>.\<close>

definition api_path :: "string list \<Rightarrow> bool" where
  "api_path segs \<longleftrightarrow> 2 \<le> length segs \<and> hd segs = ''api''"

text \<open>Static assets when they exist, \<^verbatim>\<open>index.html\<close> for everything else.\<close>

definition spaHandler :: "web_ui \<Rightarrow> handler" where
  "spaHandler ui r w =
     (let path = (if has_prefix (rq_Path r) ''/'' then tl (rq_Path r) else rq_Path r) in
      if path \<noteq> [] \<and> ui_opens ui path then reply (ui_static ui r) w
      else case ui_index ui of
        None \<Rightarrow> reply (writeError 500 ''internal error'') w
      | Some index \<Rightarrow>
          reply \<lparr>rs_Status = 200,
            rs_Headers = [(''Content-Type'', ''text/html; charset=utf-8''), (''Cache-Control'', ''no-store'')],
            rs_Cookies = [], rs_Body = BodyBytes index\<rparr> w)"

definition mux :: "server \<Rightarrow> ambience \<Rightarrow> handler" where
  "mux s am r w =
     (case find_route (routes s am) r of
        Some (h, vals) \<Rightarrow> h (r\<lparr>rq_PathValue := path_values vals\<rparr>) w
      | None \<Rightarrow>
          if api_path (rq_Segments r) then reply (writeError 404 ''not found'') w
          else case srv_ui s of
            Some ui \<Rightarrow> spaHandler ui r w
          | None \<Rightarrow> reply (writeError 404 ''no embedded UI in this build; use the Vite dev server (make web-dev)'') w)"

definition Handler :: "server \<Rightarrow> ambience \<Rightarrow> handler" where
  "Handler s am = withRequestID am (withRecovery (withLogging (withSecurityHeaders (mux s am))))"

end
