(* ===== verification/Auth_Properties.thy ===== *)
theory Auth_Properties
  imports Auth_Service
begin

text \<open>
  What the authentication service guarantees: the invariants of the failure and session
  tables with their preservation by every operation, and the properties of registration,
  login, sessions, logout and password change.
\<close>

section \<open>The throttling window\<close>

definition throttle_ok :: "time \<Rightarrow> db \<Rightarrow> bool" where
  "throttle_ok now d \<longleftrightarrow> (\<forall>f\<in>set (failures d). lf_at f \<le> now) \<and>
     (\<forall>n. recent_failures now (userKey n) d \<le> throttleUserMax) \<and>
     (\<forall>a. recent_failures now (addrKey a) d \<le> throttleAddrMax)"

lemma keys_distinct [simp]:
  "userKey n \<noteq> addrKey a" "addrKey a \<noteq> userKey n" "userKey n = userKey m \<longleftrightarrow> n = m"
  "addrKey a = addrKey b \<longleftrightarrow> a = b"
  by (simp_all add: userKey_def addrKey_def)

lemma recent_later: "t \<le> t' \<Longrightarrow> recent_failures t' k d \<le> recent_failures t k d"
  unfolding recent_failures_def by (rule count_where_mono) auto

lemma recent_filter:
  assumes "failures d' = filter P (failures d)"
  shows "recent_failures t k d' \<le> recent_failures t k d"
proof -
  have "count_where Q (filter P fs) = count_where (\<lambda>f. Q f \<and> P f) fs" for Q and fs :: "failure_row list"
    by (simp add: count_where_def conj_commute)
  then show ?thesis
    unfolding recent_failures_def assms by (simp only:) (rule count_where_mono, blast)
qed

lemma throttle_later:
  assumes "throttle_ok t d" and "t \<le> t'"
  shows "throttle_ok t' d"
  unfolding throttle_ok_def
proof (intro conjI ballI allI)
  show "lf_at f \<le> t'" if "f \<in> set (failures d)" for f
    using assms that by (auto simp: throttle_ok_def)
  show "recent_failures t' (userKey n) d \<le> throttleUserMax" for n
    using assms recent_later [OF assms(2)] order_trans unfolding throttle_ok_def by blast
  show "recent_failures t' (addrKey a) d \<le> throttleAddrMax" for a
    using assms recent_later [OF assms(2)] order_trans unfolding throttle_ok_def by blast
qed

lemma throttle_filter:
  assumes "throttle_ok t d" and "failures d' = filter P (failures d)"
  shows "throttle_ok t d'"
  unfolding throttle_ok_def
proof (intro conjI ballI allI)
  show "lf_at f \<le> t" if "f \<in> set (failures d')" for f
    using assms that by (auto simp: throttle_ok_def)
  show "recent_failures t (userKey n) d' \<le> throttleUserMax" for n
    using assms recent_filter [OF assms(2)] order_trans unfolding throttle_ok_def by blast
  show "recent_failures t (addrKey a) d' \<le> throttleAddrMax" for a
    using assms recent_filter [OF assms(2)] order_trans unfolding throttle_ok_def by blast
qed

lemma throttle_same: "throttle_ok t d \<Longrightarrow> failures d' = failures d \<Longrightarrow> throttle_ok t d'"
  by (simp add: throttle_ok_def recent_failures_def)

lemma throttle_record:
  assumes ok: "throttle_ok (en_now env) d" and low: "\<not> throttled (en_now env) nm addr d"
    and d': "failures d' = failures (prune_failures (en_now env) d) @ login_failures_rows env nm addr"
  shows "throttle_ok (en_now env) d'"
proof -
  have r: "recent_failures (en_now env) k d' = recent_failures (en_now env) k d +
      of_bool (k = userKey nm) + of_bool (k = addrKey addr)" for k
    using recent_after_prune [of "en_now env" k d]
    by (simp add: recent_failures_def d' count_where_append login_failures_rows_def table_simps throttleWindow_def)
  show ?thesis
    using ok low unfolding throttle_ok_def r throttled_def
    by (auto simp: d' prune_failures_def login_failures_rows_def table_simps not_le)
qed

section \<open>The session table\<close>

definition sessions_bounded :: "service \<Rightarrow> time \<Rightarrow> db \<Rightarrow> bool" where
  "sessions_bounded s now d \<longleftrightarrow> (\<forall>r\<in>set (sessions d).
     se_expires r \<le> se_created r + sv_absolute s \<and> se_created r \<le> se_last_seen r \<and> se_last_seen r \<le> now)"

lemma sessions_bounded_later: "sessions_bounded s t d \<Longrightarrow> t \<le> t' \<Longrightarrow> sessions_bounded s t' d"
  unfolding sessions_bounded_def by force

lemma sessions_bounded_same: "sessions_bounded s t d \<Longrightarrow> sessions d' = sessions d \<Longrightarrow> sessions_bounded s t d'"
  by (simp add: sessions_bounded_def)

definition auth_inv :: "service \<Rightarrow> time \<Rightarrow> world \<Rightarrow> bool" where
  "auth_inv s now w \<longleftrightarrow> schema_ok (w_db w) \<and> throttle_ok now (w_db w) \<and> sessions_bounded s now (w_db w)"

lemma auth_inv_later: "auth_inv s t w \<Longrightarrow> t \<le> t' \<Longrightarrow> auth_inv s t' w"
  unfolding auth_inv_def by (auto intro: throttle_later sessions_bounded_later)

lemma auth_inv_core:
  "auth_inv s t w \<Longrightarrow> schema_ok (w_db w') \<Longrightarrow> failures (w_db w') = failures (w_db w) \<Longrightarrow>
   sessions (w_db w') = sessions (w_db w) \<Longrightarrow> auth_inv s t w'"
  unfolding auth_inv_def using throttle_same sessions_bounded_same by blast

section \<open>Every operation keeps the invariant\<close>

lemma insert_user_frame:
  "insert_user r d = Inr d' \<Longrightarrow> sessions d' = sessions d \<and> failures d' = failures d \<and> blobs d' = blobs d \<and>
   nodes d' = nodes d \<and> grants d' = grants d \<and> invites d' = invites d \<and> users d' = users d @ [r]"
  by (auto simp: insert_user_def split: if_splits)

lemma consume_frame [simp]:
  "users (consume_invite i uid t d) = users d" "sessions (consume_invite i uid t d) = sessions d"
  "failures (consume_invite i uid t d) = failures d" "blobs (consume_invite i uid t d) = blobs d"
  "nodes (consume_invite i uid t d) = nodes d" "grants (consume_invite i uid t d) = grants d"
  by (simp_all add: consume_invite_def)

lemma Register_schema:
  assumes "schema_ok (w_db w)"
  shows "schema_ok (w_db (snd (Register env c u rnd uuid s nm pw code w)))"
proof -
  obtain res w' where x: "Register env c u rnd uuid s nm pw code w = (res, w')" by fastforce
  from x have "schema_ok (w_db w')"
  proof (cases rule: Register_cases)
    case refused
    then show ?thesis using assms by simp
  next
    case (created hash reason i d2 d3)
    have "schema_ok d3"
      using schema_insert_user [OF assms created(5)] by (simp add: created(6) schema_consume_invite)
    then show ?thesis by (rule created(10))
  qed
  then show ?thesis by (simp add: x)
qed

lemma Register_inv:
  assumes "auth_inv s t w"
  shows "auth_inv s t (snd (Register env c u rnd uuid s' nm pw code w))"
proof -
  obtain res w' where x: "Register env c u rnd uuid s' nm pw code w = (res, w')" by fastforce
  from x have "failures (w_db w') = failures (w_db w) \<and> sessions (w_db w') = sessions (w_db w)"
  proof (cases rule: Register_cases)
    case refused
    then show ?thesis using core_eqD by blast
  next
    case (created hash reason i d2 d3)
    with insert_user_frame [OF created(5)] core_eqD [OF created(7)] show ?thesis by simp
  qed
  moreover have "schema_ok (w_db w')"
    using Register_schema [of w env c u rnd uuid s' nm pw code] assms by (simp add: x auth_inv_def)
  ultimately show ?thesis
    using assms by (simp add: x auth_inv_core)
qed

lemma Login_inv:
  assumes inv: "auth_inv s (en_now env) w"
  shows "auth_inv s (en_now env) (snd (Login env c rnd dummy s nm pw addr w))"
proof -
  obtain res w' where x: "Login env c rnd dummy s nm pw addr w = (res, w')" by fastforce
  note parts = inv [unfolded auth_inv_def]
  from x have "auth_inv s (en_now env) w'"
  proof (cases rule: Login_cases)
    case (error e P)
    have f: "failures (w_db w') = filter P (failures (w_db w))" and s: "sessions (w_db w') = sessions (w_db w)"
      using core_eqD(2,3) [OF error(3)] by simp_all
    have "throttle_ok (en_now env) (w_db w')" "sessions_bounded s (en_now env) (w_db w')"
      using parts throttle_filter [OF _ f] sessions_bounded_same [OF _ s] by simp_all
    with parts error(6) show ?thesis
      by (simp add: auth_inv_def)
  next
    case failed
    have "throttle_ok (en_now env) (w_db w')"
    proof (rule throttle_record [OF _ failed(2)])
      show "throttle_ok (en_now env) (w_db w)" using parts by simp
      show "failures (w_db w') = failures (prune_failures (en_now env) (w_db w)) @ login_failures_rows env nm addr"
        using core_eqD(3) [OF failed(4)] by simp
    qed
    moreover have "sessions (w_db w') = sessions (w_db w)"
      using core_eqD(2) [OF failed(4)] by simp
    ultimately show ?thesis
      unfolding auth_inv_def using parts failed(7) sessions_bounded_same by blast
  next
    case (ok row token)
    have "failures (w_db w') = filter (\<lambda>f. lf_key f \<noteq> userKey nm \<and> \<not> lf_at f < en_now env - throttleWindow)
        (failures (w_db w))"
      using core_eqD(3) [OF ok(7)] by (simp add: prune_failures_def delete_where_def conj_commute)
    from throttle_filter [OF _ this] have "throttle_ok (en_now env) (w_db w')"
      using parts by simp
    moreover have "sessions_bounded s (en_now env) (w_db w')"
      using parts core_eqD(2) [OF ok(7)] by (auto simp: sessions_bounded_def)
    ultimately show ?thesis
      using parts ok(10) by (simp add: auth_inv_def)
  qed
  then show ?thesis by (simp add: x)
qed

lemma ValidateSession_inv:
  assumes inv: "auth_inv s (en_now env) w"
  shows "auth_inv s (en_now env) (snd (ValidateSession env c s token w))"
proof -
  obtain res w' where x: "ValidateSession env c s token w = (res, w')" by fastforce
  note parts = inv [unfolded auth_inv_def]
  from x have "auth_inv s (en_now env) w'"
  proof (cases rule: ValidateSession_cases)
    case rejected
    with inv show ?thesis by simp
  next
    case (accepted r x)
    have "sessions_bounded s (en_now env) (w_db w')"
      using parts unfolding accepted(7) sessions_bounded_def
      by (simp add: ball_update_where) fastforce
    then show ?thesis
      using parts unfolding accepted(7) auth_inv_def
      by (simp add: schema_touch throttle_same [of _ "w_db w"])
  qed
  then show ?thesis by (simp add: x)
qed

lemma Logout_inv:
  assumes inv: "auth_inv s t w"
  shows "auth_inv s t (snd (Logout env c token p w))"
proof -
  obtain res w' where x: "Logout env c token p w = (res, w')" by fastforce
  from x have "auth_inv s t w'"
  proof (cases rule: Logout_cases)
    case error
    with inv show ?thesis by simp
  next
    case logged_out
    show ?thesis
      using inv unfolding logged_out(2) auth_inv_def
      by (auto simp: schema_drop_sessions sessions_bounded_def table_simps throttle_ok_def recent_failures_def)
  qed
  then show ?thesis by (simp add: x)
qed

lemma update_password_frame [simp]:
  "sessions (update_password uid h t d) = sessions d" "failures (update_password uid h t d) = failures d"
  "blobs (update_password uid h t d) = blobs d" "nodes (update_password uid h t d) = nodes d"
  "grants (update_password uid h t d) = grants d" "invites (update_password uid h t d) = invites d"
  "audit_events (update_password uid h t d) = audit_events d" "audit_seq (update_password uid h t d) = audit_seq d"
  by (simp_all add: update_password_def)

lemma ChangePassword_inv:
  assumes inv: "auth_inv s (en_now env) w"
  shows "auth_inv s (en_now env) (snd (ChangePassword env c rs rt s p cur new w))"
proof -
  obtain res w' where x: "ChangePassword env c rs rt s p cur new w = (res, w')" by fastforce
  note parts = inv [unfolded auth_inv_def]
  have sch: "schema_ok ((update_password (u_ID p) h (en_now env) (w_db w))
      \<lparr>sessions := delete_where P (sessions (w_db w))\<rparr>)" for h P
    using parts schema_drop_sessions [OF schema_update_password [where d = "w_db w"], where P = P] by simp
  from x have "auth_inv s (en_now env) w'"
  proof (cases rule: ChangePassword_cases)
    case refused
    then show ?thesis
      using core_eqD(2,3) [OF refused(2)] inv parts by (intro auth_inv_core [OF inv]) blast+
  next
    case (partial e h P)
    with parts sch [where h = h and P = P] show ?thesis
      by (auto simp: auth_inv_def throttle_ok_def recent_failures_def sessions_bounded_def table_simps)
  next
    case (changed token h)
    have "schema_ok (w_db w')"
      unfolding changed(7) using schema_insert_session [OF sch changed(6)] by simp
    with parts show ?thesis
      unfolding changed(7)
      by (auto simp: auth_inv_def throttle_ok_def recent_failures_def sessions_bounded_def table_simps
          fresh_session_def)
  qed
  then show ?thesis by (simp add: x)
qed

section \<open>Registration: lemmas\<close>

lemma usernameRe_text: "usernameRe nm \<Longrightarrow> pg_text nm"
proof -
  assume u: "usernameRe nm"
  have "of_char x < (128::nat) \<and> x \<noteq> CHR 0x00" if "lower_alnum x \<or> x \<in> set ''_.-''" for x
    using that by (auto simp: lower_alnum_def)
  with u have "\<forall>x\<in>set nm. of_char x < (128::nat) \<and> x \<noteq> CHR 0x00"
    by (auto simp: usernameRe_def list_all_iff split: list.splits)
  then show "pg_text nm"
    by (intro pg_text_ascii) (auto simp: ascii_def)
qed

lemma hashed_text:
  assumes "HashPassword c rnd pw = Inr h"
  shows "pg_text h"
proof (rule pg_text_ascii [OF ascii_hashed [OF assms]])
  have b: "CHR 0x00 \<notin> set (base64_raw_encode bs)" for bs
    using set_base64_raw_encode [of bs] by (auto simp: base64_std_alphabet_def)
  have d: "CHR 0x00 \<notin> set (decimal n)" for n
    using decimal_digits [of n] by (auto simp: list_all_iff is_digit_def)
  from assms show "CHR 0x00 \<notin> set h"
    by (rule HashPassword_Inr) (simp add: phc_string_def b d)
qed

text \<open>An invite code is spent when its invite has been used; then it is not redeemable.\<close>

definition spent :: "bytes \<Rightarrow> db \<Rightarrow> bool" where
  "spent h d \<longleftrightarrow> (\<exists>r\<in>set (invites d). i_code_hash r = h \<and> i_used_at r \<noteq> None)"

lemma spent_not_redeemable:
  assumes "schema_ok d" and "spent h d" and "r \<in> set (invites d)"
  shows "\<not> redeemable now h r"
proof
  assume "redeemable now h r"
  moreover obtain r' where r': "r' \<in> set (invites d)" "i_code_hash r' = h" "i_used_at r' \<noteq> None"
    using assms(2) by (auto simp: spent_def)
  moreover have "distinct (map i_code_hash (invites d))"
    using schema_parts(6) [OF assms(1)] by (simp add: invites_ok_def)
  ultimately have "r' = r"
    using assms(3) by (intro distinct_key_unique [of i_code_hash "invites d"]) (auto simp: redeemable_def)
  with r'(3) \<open>redeemable now h r\<close> show False by (simp add: redeemable_def)
qed

lemma spent_no_admission:
  assumes "schema_ok (w_db w)" and "spent (HashToken c (normalizeInviteCode u code)) (w_db w)"
    and "rp_Mode (sv_policy s) = RegistrationInvite" and "users (w_db w) \<noteq> []"
  shows "fst (Register env c u rnd uuid s nm pw code w) \<noteq> Inr p"
proof
  assume r: "fst (Register env c u rnd uuid s nm pw code w) = Inr p"
  obtain res w' where x: "Register env c u rnd uuid s nm pw code w = (res, w')" by fastforce
  then show False
  proof (cases rule: Register_cases)
    case refused
    with r x show False by simp
  next
    case (created hash reason i d2 d3)
    from created(4) show False
    proof (cases rule: admit_Inr_cases)
      case (invite r)
      with query_row_Some [OF invite(3)] spent_not_redeemable [OF assms(1,2)] show False by blast
    qed (use assms in auto)
  qed
qed

text \<open>What a successful registration did.\<close>

lemma Register_Inr:
  assumes "Register env c u rnd uuid s nm pw code w = (Inr p, w')"
  obtains hash reason i d2 where "HashPassword c rnd pw = Inr hash" "password_ok pw" "usernameRe nm"
    "admitRegistration env c u s nm code w = (Inr (reason, i), w)"
    "insert_user (new_user env uuid nm hash) (w_db w) = Inr d2"
    "users (w_db w') = users (w_db w) @ [new_user env uuid nm hash]"
    "invites (w_db w') = invites (if i \<noteq> [] then consume_invite i uuid (en_now env) (w_db w) else w_db w)"
    "sessions (w_db w') = sessions (w_db w)" "blobs (w_db w') = blobs (w_db w)"
    "nodes (w_db w') = nodes (w_db w)" "grants (w_db w') = grants (w_db w)"
    "p = \<lparr>u_ID = uuid, u_Username = nm, u_Role = roleUser\<rparr>"
  using assms
proof (cases rule: Register_cases)
  case refused
  then show thesis by simp
next
  case (created hash reason i d2 d3)
  note core = core_eqD [OF created(7)] and ins = insert_user_frame [OF created(5)]
  show thesis
    by (rule that [OF created(3,2,1,4,5)])
      (use core ins created(6,11) in \<open>auto simp: consume_invite_def\<close>)
qed

lemma Register_admitted:
  assumes "\<forall>call. \<not> en_fail env call" and "en_commit env = CommitDone"
    and "usernameRe nm" "password_ok pw" "pg_uuid uuid" "HashPassword c rnd pw = Inr hash"
    and "\<forall>x\<in>set (users (w_db w)). ur_id x \<noteq> uuid \<and> ur_username x \<noteq> nm"
    and adm: "admitRegistration env c u s nm code w = (Inr (reason, i), w)"
  shows "fst (Register env c u rnd uuid s nm pw code w) = Inr \<lparr>u_ID = uuid, u_Username = nm, u_Role = roleUser\<rparr>"
proof -
  have "insert_user (new_user env uuid nm hash) (w_db w) = Inr ((w_db w)\<lparr>users := users (w_db w) @ [new_user env uuid nm hash]\<rparr>)"
    using assms(3-7) usernameRe_text hashed_text by (auto simp: insert_user_def new_user_def roleUser_def)
  with adm assms(1-4,6) show ?thesis
    by (simp add: Register_def new_user_def exec_def commit_tx_def Let_def)
qed

lemma admit_open:
  assumes "\<forall>call. \<not> en_fail env call"
    and "users (w_db w) = [] \<or> (rp_Mode (sv_policy s) \<noteq> RegistrationClosed \<and> rp_Mode (sv_policy s) \<noteq> RegistrationInvite \<and>
      (0 < rp_MaxUsers (sv_policy s) \<longrightarrow> int (length (users (w_db w))) < rp_MaxUsers (sv_policy s)))"
  shows "\<exists>reason. admitRegistration env c u s nm code w = (Inr (reason, []), w)"
  using assms by (auto simp: admitRegistration_def exec_def)

text \<open>A request the concrete deployment can serve.\<close>

lemma demo_request:
  "\<forall>call. \<not> en_fail demo_env call" "en_commit demo_env = CommitDone"
  "usernameRe ''carol''" "password_ok ''correct horse''" "pg_uuid (demo_id ''07'')"
  "\<forall>x\<in>set (users demo_db). ur_id x \<noteq> demo_id ''07'' \<and> ur_username x \<noteq> ''carol''"
  "rp_MaxUsers (sv_policy (demo_service m)) = 0" "rp_Mode (sv_policy (demo_service m)) = m" "users demo_db \<noteq> []"
  by (simp_all add: demo_env_def usernameRe_def lower_alnum_def password_ok_def passwordMinLen_def
        passwordMaxLen_def demo_id_def pg_uuid_def hex_alphabet_def demo_db_def demo_user_row_def
        demo_service_def empty_db_def)

definition demo_Register :: "registration_mode \<Rightarrow> string \<Rightarrow> world \<Rightarrow> (auth_error + user) \<times> world" where
  "demo_Register m code = Register demo_env demo_crypto demo_unicode (Some (\<lambda>_. 3)) (demo_id ''07'')
     (demo_service m) ''carol'' ''correct horse'' code"

lemma demo_registers:
  assumes "users (w_db w) = users demo_db"
    and "admitRegistration demo_env demo_crypto demo_unicode (demo_service m) ''carol'' code w = (Inr (reason, i), w)"
  obtains p w' where "demo_Register m code w = (Inr p, w')"
proof -
  obtain hash where "HashPassword demo_crypto (Some (\<lambda>_. 3)) ''correct horse'' = Inr hash"
    using demo_hash by blast
  from Register_admitted [OF demo_request(1-5) this _ assms(2)] demo_request(6) assms(1)
  have "fst (demo_Register m code w) = Inr \<lparr>u_ID = demo_id ''07'', u_Username = ''carol'', u_Role = roleUser\<rparr>"
    by (simp add: demo_Register_def)
  with that show thesis by (metis prod.collapse)
qed

lemma demo_registers_open:
  assumes "users (w_db w) = users demo_db"
  obtains p w' where "demo_Register ''open'' code w = (Inr p, w')"
proof -
  have "\<exists>reason. admitRegistration demo_env demo_crypto demo_unicode (demo_service ''open'') ''carol'' code w =
      (Inr (reason, []), w)"
    using demo_request(7,8) by (intro admit_open [OF demo_request(1)]) (simp add: mode_defs)
  then obtain reason where "admitRegistration demo_env demo_crypto demo_unicode (demo_service ''open'') ''carol''
      code w = (Inr (reason, []), w)" by blast
  with demo_registers [OF assms] that show thesis by blast
qed


section \<open>Properties of registration\<close>

lemma Register_redeems:
  assumes "schema_ok (w_db w)" and "rp_Mode (sv_policy s) = RegistrationInvite" and "users (w_db w) \<noteq> []"
    and "Register env c u rnd uuid s nm pw code w = (Inr p, w')"
  obtains r where "r \<in> set (invites (w_db w))"
    "redeemable (en_now env) (HashToken c (normalizeInviteCode u code)) r"
    "invites (w_db w') = map (\<lambda>x. if x = r then x\<lparr>i_used_by := Some (u_ID p), i_used_at := Some (en_now env)\<rparr> else x)
       (invites (w_db w))"
proof -
  obtain hash reason i where adm: "admitRegistration env c u s nm code w = (Inr (reason, i), w)"
    and i': "invites (w_db w') = invites (if i \<noteq> [] then consume_invite i uuid (en_now env) (w_db w) else w_db w)"
    and p: "p = \<lparr>u_ID = uuid, u_Username = nm, u_Role = roleUser\<rparr>"
    using assms(4) by (rule Register_Inr) blast
  from adm obtain r where q: "query_row (redeemable (en_now env) (HashToken c (normalizeInviteCode u code)))
      (invites (w_db w)) = Some r" and i: "i = i_id r"
    by (cases rule: admit_Inr_cases) (use assms(2,3) in auto)
  note r = query_row_Some [OF q]
  have inv: "distinct (map i_id (invites (w_db w)))" "pg_uuid (i_id r)"
    using schema_parts(6) [OF assms(1)] r by (auto simp: invites_ok_def)
  then have ne: "i \<noteq> []" using i by auto
  have "x = r" if "x \<in> set (invites (w_db w))" "i_id x = i_id r" for x
    using distinct_key_unique [OF inv(1)] that r by blast
  then have "invites (w_db w') =
      map (\<lambda>x. if x = r then x\<lparr>i_used_by := Some (u_ID p), i_used_at := Some (en_now env)\<rparr> else x) (invites (w_db w))"
    using ne by (auto simp: i' i p consume_invite_def update_where_def)
  with r that show thesis by blast
qed

lemma Register_keeps_invites:
  assumes "\<not> (rp_Mode (sv_policy s) = RegistrationInvite \<and> users (w_db w) \<noteq> [])"
    and "Register env c u rnd uuid s nm pw code w = (Inr p, w')"
  shows "invites (w_db w') = invites (w_db w)"
proof -
  obtain hash reason i where adm: "admitRegistration env c u s nm code w = (Inr (reason, i), w)"
    and i': "invites (w_db w') = invites (if i \<noteq> [] then consume_invite i uuid (en_now env) (w_db w) else w_db w)"
    using assms(2) by (rule Register_Inr) blast
  from adm have "i = []" by (cases rule: admit_Inr_cases) (use assms(1) in auto)
  with i' show ?thesis by simp
qed

text \<open>
  C27 What a successful registration does to the whole state: it appends one account, under the requested name,
  with the ordinary role whatever the request says, made now, whose stored hash accepts the password; unless the
  system was empty the mode is not closed and a positive user cap is not exceeded. Sessions, failure counters, objects,
  files, grants and the disk stay as they were, the audit trail at most grows; invites stay as they were too, unless the
  mode is invite on a system with users: then exactly one of them, redeemable under the code, is marked as used by the
  new account, now.
\<close>

theorem register_creates_ordinary_account:
  assumes "crypto_ok c" and "schema_ok (w_db w)" and "Register env c u rnd uuid s nm pw code w = (Inr p, w')"
  shows "(\<exists>row ivs. core (w_db w') = core ((w_db w)\<lparr>users := users (w_db w) @ [row], invites := ivs\<rparr>) \<and>
       row = \<lparr>ur_id = u_ID p, ur_username = nm, ur_hash = ur_hash row, ur_role = ''user'',
              ur_created = en_now env, ur_changed = en_now env\<rparr> \<and>
       VerifyPassword c pw (ur_hash row) = Inr True \<and>
       (if rp_Mode (sv_policy s) = RegistrationInvite \<and> users (w_db w) \<noteq> []
        then \<exists>r\<in>set (invites (w_db w)). redeemable (en_now env) (HashToken c (normalizeInviteCode u code)) r \<and>
               ivs = map (\<lambda>x. if x = r then x\<lparr>i_used_by := Some (u_ID p), i_used_at := Some (en_now env)\<rparr> else x)
                      (invites (w_db w))
        else ivs = invites (w_db w))) \<and>
    u_Role p = ''user'' \<and> u_Username p = nm \<and>
    (users (w_db w) \<noteq> [] \<longrightarrow> rp_Mode (sv_policy s) \<noteq> RegistrationClosed \<and>
       (0 < rp_MaxUsers (sv_policy s) \<longrightarrow> int (length (users (w_db w'))) \<le> rp_MaxUsers (sv_policy s))) \<and>
    w_fs w' = w_fs w \<and> extends w w'"
proof -
  obtain hash reason i d2 where r: "HashPassword c rnd pw = Inr hash"
    "admitRegistration env c u s nm code w = (Inr (reason, i), w)"
    "users (w_db w') = users (w_db w) @ [new_user env uuid nm hash]"
    "sessions (w_db w') = sessions (w_db w)" "blobs (w_db w') = blobs (w_db w)"
    "nodes (w_db w') = nodes (w_db w)" "grants (w_db w') = grants (w_db w)"
    "p = \<lparr>u_ID = uuid, u_Username = nm, u_Role = roleUser\<rparr>"
    using assms(3) by (rule Register_Inr) blast
  have frame: "failures (w_db w') = failures (w_db w) \<and> w_fs w' = w_fs w \<and> extends w w'"
    using assms(3)
  proof (cases rule: Register_cases)
    case refused
    then show ?thesis using core_eqD(3) by blast
  next
    case (created hash' reason' i' d2' d3')
    with insert_user_frame [OF created(5)] core_eqD(3) [OF created(7)] show ?thesis by simp
  qed
  have core: "core (w_db w') = core ((w_db w)\<lparr>users := users (w_db w) @ [new_user env uuid nm hash], invites := invites (w_db w')\<rparr>)"
    by (rule core_eqI) (simp_all add: r(3-7) frame)
  have inv: "if rp_Mode (sv_policy s) = RegistrationInvite \<and> users (w_db w) \<noteq> []
        then \<exists>r\<in>set (invites (w_db w)). redeemable (en_now env) (HashToken c (normalizeInviteCode u code)) r \<and>
               invites (w_db w') = map (\<lambda>x. if x = r then x\<lparr>i_used_by := Some (u_ID p), i_used_at := Some (en_now env)\<rparr> else x)
                      (invites (w_db w))
        else invites (w_db w') = invites (w_db w)"
  proof (cases "rp_Mode (sv_policy s) = RegistrationInvite \<and> users (w_db w) \<noteq> []")
    case True
    then obtain x where "x \<in> set (invites (w_db w))" "redeemable (en_now env) (HashToken c (normalizeInviteCode u code)) x"
      "invites (w_db w') = map (\<lambda>y. if y = x then y\<lparr>i_used_by := Some (u_ID p), i_used_at := Some (en_now env)\<rparr> else y)
         (invites (w_db w))"
      using Register_redeems [OF assms(2) _ _ assms(3)] by blast
    with True show ?thesis by auto
  next
    case False
    show ?thesis unfolding if_not_P [OF False] by (rule Register_keeps_invites [OF False assms(3)])
  qed
  have cap: "users (w_db w) \<noteq> [] \<longrightarrow> rp_Mode (sv_policy s) \<noteq> RegistrationClosed \<and>
       (0 < rp_MaxUsers (sv_policy s) \<longrightarrow> int (length (users (w_db w'))) \<le> rp_MaxUsers (sv_policy s))"
    using r(2) by (cases rule: admit_Inr_cases) (auto simp: r(3) mode_defs)
  have row: "new_user env uuid nm hash = \<lparr>ur_id = u_ID p, ur_username = nm, ur_hash = ur_hash (new_user env uuid nm hash),
      ur_role = ''user'', ur_created = en_now env, ur_changed = en_now env\<rparr>"
    by (simp add: new_user_def roleUser_def r(8))
  have pw: "VerifyPassword c pw (ur_hash (new_user env uuid nm hash)) = Inr True"
    using verify_hashed [OF assms(1) r(1)] by (simp add: new_user_def)
  have "u_Role p = ''user'' \<and> u_Username p = nm" by (simp add: r(8) roleUser_def)
  with core row pw inv cap frame show ?thesis by blast
qed

theorem register_creates_ordinary_account_witness:
  "\<exists>p w' row. demo_Register ''open'' [] (demo_world\<lparr>w_db := demo_db\<rparr>) = (Inr p, w') \<and>
     users (w_db w') = users demo_db @ [row] \<and> VerifyPassword demo_crypto ''correct horse'' (ur_hash row) = Inr True"
proof -
  obtain p w' where x: "demo_Register ''open'' [] (demo_world\<lparr>w_db := demo_db\<rparr>) = (Inr p, w')"
    using demo_registers_open [of "demo_world\<lparr>w_db := demo_db\<rparr>"] by auto
  have "schema_ok (w_db (demo_world\<lparr>w_db := demo_db\<rparr>))" using demo_schema_ok by simp
  from register_creates_ordinary_account [OF demo_crypto_ok this x [unfolded demo_Register_def]] obtain row ivs where
    "core (w_db w') = core (demo_db\<lparr>users := users demo_db @ [row], invites := ivs\<rparr>)"
    "VerifyPassword demo_crypto ''correct horse'' (ur_hash row) = Inr True" by auto
  with core_eqD(1) [OF this(1)] x show ?thesis by auto
qed

text \<open>
  C14 One code, one account: a registration that goes through in invite mode (on a system that
  has users) used exactly one invite, redeemable under the normalised code at that moment, which
  is now marked with the new account; no other invite changed; and every later registration that
  presents the same code, however spelled, in invite mode is refused, whatever fails or not.
\<close>

theorem register_consumes_one_invite:
  assumes "schema_ok (w_db w)" and "rp_Mode (sv_policy s) = RegistrationInvite" and "users (w_db w) \<noteq> []"
    and "Register env c u rnd uuid s nm pw code w = (Inr p, w')"
  shows "(\<exists>r\<in>set (invites (w_db w)). redeemable (en_now env) (HashToken c (normalizeInviteCode u code)) r \<and>
       invites (w_db w') = map (\<lambda>x. if x = r then x\<lparr>i_used_by := Some (u_ID p), i_used_at := Some (en_now env)\<rparr> else x)
         (invites (w_db w))) \<and>
    (\<forall>env' rnd' uuid' nm' pw' code' p'. normalizeInviteCode u code' = normalizeInviteCode u code \<longrightarrow>
       fst (Register env' c u rnd' uuid' s nm' pw' code' w') \<noteq> Inr p')"
proof -
  obtain hash where u': "users (w_db w') = users (w_db w) @ [new_user env uuid nm hash]"
    using assms(4) by (rule Register_Inr) blast
  obtain r where r: "r \<in> set (invites (w_db w))" "redeemable (en_now env) (HashToken c (normalizeInviteCode u code)) r"
    and upd: "invites (w_db w') =
      map (\<lambda>x. if x = r then x\<lparr>i_used_by := Some (u_ID p), i_used_at := Some (en_now env)\<rparr> else x) (invites (w_db w))"
    by (rule Register_redeems [OF assms])
  have sch: "schema_ok (w_db w')"
    using Register_schema [OF assms(1), of env c u rnd uuid s nm pw code] assms(4) by simp
  have sp: "spent (HashToken c (normalizeInviteCode u code)) (w_db w')"
    using r unfolding spent_def upd by (auto simp: redeemable_def intro!: bexI [of _ r])
  have "fst (Register env' c u rnd' uuid' s nm' pw' code' w') \<noteq> Inr p'"
    if "normalizeInviteCode u code' = normalizeInviteCode u code" for env' rnd' uuid' nm' pw' code' p'
    using spent_no_admission [OF sch _ assms(2)] sp u' that by simp
  with r upd show ?thesis by blast
qed

theorem register_consumes_one_invite_witness:
  "\<exists>d p w'. length (invites d) = 1 \<and> demo_Register ''invite'' ''me4-q'' (demo_world\<lparr>w_db := d\<rparr>) = (Inr p, w') \<and>
     (\<forall>p'. fst (demo_Register ''invite'' ''ME4Q'' w') \<noteq> Inr p')"
proof -
  have code: "normalizeInviteCode demo_unicode ''me4-q'' = ''ME4Q''" "normalizeInviteCode demo_unicode ''ME4Q'' = ''ME4Q''"
  proof -
    have "base32_encode [97, 57] = ''ME4Q''" "map upper_char (filter (\<lambda>x. \<not> separator x) ''me4-q'') = ''ME4Q''"
      by code_simp+
    then show "normalizeInviteCode demo_unicode ''me4-q'' = ''ME4Q''" "normalizeInviteCode demo_unicode ''ME4Q'' = ''ME4Q''"
      using normalize_retyped [of "[]" "[]" "''me4-q''" "[97, 57]" demo_unicode] normalize_code [of demo_unicode "[97, 57]"]
      by simp_all
  qed
  define r where "r = \<lparr>i_id = demo_id ''09'', i_code_hash = HashToken demo_crypto ''ME4Q'', i_note = [], i_by = demo_id ''01'',
    i_created = 0, i_expires = 500 * hour, i_used_by = None, i_used_at = None, i_revoked_at = None\<rparr>"
  define w where "w = demo_world\<lparr>w_db := demo_db\<lparr>invites := [r]\<rparr>\<rparr>"
  have u: "users (w_db w) = users demo_db" by (simp add: w_def)
  have sch: "schema_ok (w_db w)"
    using demo_schema_ok by (simp add: w_def schema_ok_def)
      (simp add: invites_ok_def r_def demo_id_def pg_uuid_def hex_alphabet_def)
  have "admitRegistration demo_env demo_crypto demo_unicode (demo_service ''invite'') ''carol'' ''me4-q'' w =
      (Inr (''invite'', demo_id ''09''), w)"
    using demo_request code by (subst admit_with_invite)
      (auto simp: u mode_defs w_def table_simps redeemable_def r_def demo_env_def)
  from demo_registers [OF u this] obtain p w' where x: "demo_Register ''invite'' ''me4-q'' w = (Inr p, w')" by blast
  moreover have "fst (demo_Register ''invite'' ''ME4Q'' w') \<noteq> Inr p'" for p'
    using register_consumes_one_invite [OF sch _ _ x [unfolded demo_Register_def]] demo_request u code
    by (simp add: demo_Register_def mode_defs)
  ultimately show ?thesis
    unfolding w_def by (intro exI [of _ "demo_db\<lparr>invites := [r]\<rparr>"]) auto
qed

text \<open>
  What the status page says is what registration does: when it says registrations are not
  accepted, no request whatever succeeds; when a code is required, a request without one is
  not accepted; when no code is required, every request with a valid free name and a valid password
  succeeds, unless the database, the random source or the commit fails.
\<close>

theorem status_agrees_with_register:
  assumes "RegistrationStatus env0 s w = Inr st"
  shows "(\<not> rs_Accepting st \<longrightarrow> fst (Register env c u rnd uuid s nm pw code w) \<noteq> Inr p) \<and>
    (rs_InviteRequired st \<and> normalizeInviteCode u code = [] \<longrightarrow>
       fst (Register env c u rnd uuid s nm pw code w) \<noteq> Inr p) \<and>
    (rs_Accepting st \<and> \<not> rs_InviteRequired st \<and> (\<forall>call. \<not> en_fail env call) \<and> en_commit env = CommitDone \<and>
       usernameRe nm \<and> password_ok pw \<and> rnd \<noteq> None \<and> pg_uuid uuid \<and>
       (\<forall>x\<in>set (users (w_db w)). ur_id x \<noteq> uuid \<and> ur_username x \<noteq> nm) \<longrightarrow>
       fst (Register env c u rnd uuid s nm pw code w) = Inr \<lparr>u_ID = uuid, u_Username = nm, u_Role = ''user''\<rparr>)"
proof (intro conjI impI)
  have st: "rs_Accepting st \<longleftrightarrow> users (w_db w) = [] \<or>
      \<not> (rp_MaxUsers (sv_policy s) > 0 \<and> int (length (users (w_db w))) \<ge> rp_MaxUsers (sv_policy s)) \<and>
      rp_Mode (sv_policy s) \<noteq> RegistrationClosed"
    "rs_InviteRequired st \<longleftrightarrow> users (w_db w) \<noteq> [] \<and> rs_Accepting st \<and> rp_Mode (sv_policy s) = RegistrationInvite"
    using assms by (auto simp: RegistrationStatus_def exec_def Let_def split: if_splits)
  have adm: "\<exists>reason i. admitRegistration env c u s nm code w = (Inr (reason, i), w)"
    if "fst (Register env c u rnd uuid s nm pw code w) = Inr p"
  proof -
    from that obtain w' where "Register env c u rnd uuid s nm pw code w = (Inr p, w')" by (metis prod.collapse)
    then show ?thesis by (rule Register_Inr) blast
  qed
  show "fst (Register env c u rnd uuid s nm pw code w) \<noteq> Inr p" if no: "\<not> rs_Accepting st"
  proof
    assume "fst (Register env c u rnd uuid s nm pw code w) = Inr p"
    from adm [OF this] obtain reason i where "admitRegistration env c u s nm code w = (Inr (reason, i), w)" by blast
    then show False by (cases rule: admit_Inr_cases) (use no st in \<open>auto simp: mode_defs\<close>)
  qed
  show "fst (Register env c u rnd uuid s nm pw code w) \<noteq> Inr p"
    if blank: "rs_InviteRequired st \<and> normalizeInviteCode u code = []"
  proof
    assume "fst (Register env c u rnd uuid s nm pw code w) = Inr p"
    from adm [OF this] show False
      using blank st by (auto simp: admitRegistration_def exec_def Let_def split: if_splits)
  qed
  assume a: "rs_Accepting st \<and> \<not> rs_InviteRequired st \<and> (\<forall>call. \<not> en_fail env call) \<and> en_commit env = CommitDone \<and>
       usernameRe nm \<and> password_ok pw \<and> rnd \<noteq> None \<and> pg_uuid uuid \<and>
       (\<forall>x\<in>set (users (w_db w)). ur_id x \<noteq> uuid \<and> ur_username x \<noteq> nm)"
  then obtain reason where "admitRegistration env c u s nm code w = (Inr (reason, []), w)"
    using admit_open [of env w s c u nm code] st by auto
  moreover obtain hash where "HashPassword c rnd pw = Inr hash"
    using a demo_hash by fastforce
  ultimately show "fst (Register env c u rnd uuid s nm pw code w) = Inr \<lparr>u_ID = uuid, u_Username = nm, u_Role = ''user''\<rparr>"
    using a Register_admitted [of env nm pw uuid c rnd hash w u s code reason "[]"] by (simp add: roleUser_def)
qed

theorem status_agrees_with_register_witness:
  "\<exists>st. RegistrationStatus demo_env (demo_service ''closed'') (demo_world\<lparr>w_db := demo_db\<rparr>) = Inr st \<and>
     (\<forall>code p. fst (demo_Register ''closed'' code (demo_world\<lparr>w_db := demo_db\<rparr>)) \<noteq> Inr p)"
proof -
  let ?w = "demo_world\<lparr>w_db := demo_db\<rparr>"
  have st: "RegistrationStatus demo_env (demo_service ''closed'') ?w =
      Inr \<lparr>rs_Mode = ''closed'', rs_Accepting = False, rs_InviteRequired = False\<rparr>"
    using demo_request by (simp add: RegistrationStatus_def exec_def Let_def mode_defs)
  show ?thesis
    using st status_agrees_with_register [OF st] unfolding demo_Register_def by simp
qed

section \<open>Properties of login and sessions\<close>

lemma NewSessionToken_length: "NewSessionToken c rnd = Some (t, h) \<Longrightarrow> length t = 43"
  by (auto simp: NewSessionToken_def Let_def tokenBytes_def base64_url_encode_def length_radix_encode
      dest!: rand_read_length split: option.splits)

text \<open>The world in which the named account does not exist.\<close>

definition without_account :: "string \<Rightarrow> world \<Rightarrow> world" where
  "without_account nm w =
     w\<lparr>w_db := (w_db w)\<lparr>users := delete_where (\<lambda>x. ur_username x = nm) (users (w_db w))\<rparr>\<rparr>"

lemma without_account_user: "user_by_name nm (w_db (without_account nm w)) = None"
  by (auto simp: without_account_def user_by_name_def query_row_None table_simps)

lemma isThrottled_without:
  "isThrottled env uk ak (without_account nm w) =
     (fst (isThrottled env uk ak w), without_account nm (snd (isThrottled env uk ak w)))"
  by (simp add: isThrottled_def exec_def without_account_def prune_failures_def recent_failures_def)

lemma isThrottled_users:
  "isThrottled env uk ak w = (r, w1) \<Longrightarrow> users (w_db w1) = users (w_db w)"
  by (auto simp: isThrottled_def exec_def split: if_splits)

text \<open>What a login that does not open a session may change: the failure counters and a longer audit trail.\<close>

definition failures_changed :: "failure_row list \<Rightarrow> world \<Rightarrow> world \<Rightarrow> bool" where
  "failures_changed F w w' \<longleftrightarrow>
     core (w_db w') = core ((w_db w)\<lparr>failures := F\<rparr>) \<and> w_fs w' = w_fs w \<and> extends w w'"

lemma failures_changed_trans:
  assumes "failures_changed F w w1" "failures_changed F' w1 w2"
  shows "failures_changed F' w w2"
proof -
  have c: "core (w_db w1) = core ((w_db w)\<lparr>failures := F\<rparr>)" "core (w_db w2) = core ((w_db w1)\<lparr>failures := F'\<rparr>)"
    using assms by (simp_all add: failures_changed_def)
  have "core (w_db w2) = core ((w_db w)\<lparr>failures := F'\<rparr>)"
    by (rule core_eqI) (simp_all add: core_eqD [OF c(1)] core_eqD [OF c(2)])
  then show ?thesis
    using assms extends_trans by (auto simp: failures_changed_def)
qed

lemma failures_changed_Record: "failures_changed F w w' \<Longrightarrow> failures_changed F w (Record env e w')"
  using extends_trans [OF _ Record_extends] by (simp add: failures_changed_def)

lemma isThrottled_changes:
  assumes "isThrottled env (userKey nm) (addrKey addr) w = (r, w1)"
  shows "failures_changed (failures (w_db w1)) w w1"
  using assms
proof (cases rule: isThrottled_cases)
  case (error e)
  then show ?thesis by (auto simp: failures_changed_def prune_failures_def extends_same)
next
  case decided
  then show ?thesis by (simp add: failures_changed_def prune_failures_def extends_same)
qed

lemma loginFailed_changes:
  assumes "loginFailed env nm uk ak reason w = (e, w1)"
  shows "failures_changed (failures (w_db w1)) w w1"
  using assms
proof (cases rule: loginFailed_cases)
  case error
  then show ?thesis by (simp add: failures_changed_def)
next
  case recorded
  show ?thesis
    unfolding recorded(4) by (rule failures_changed_Record) (simp add: failures_changed_def extends_same)
qed

lemma loginFailed_without:
  assumes "loginFailed env nm uk ak reason w = (e, w1)"
    and "loginFailed env nm uk ak reason' (without_account nm w) = (e', w2)"
  shows "e' = e \<and> failures (w_db w2) = failures (w_db w1)"
  using assms by (auto simp: loginFailed_def exec_def insert_failures_def without_account_def split: if_splits)

lemma login_decided:
  assumes "\<forall>call. \<not> en_fail env call" and "pg_text (userKey nm)" and "pg_text (addrKey addr)"
    and "NewSessionToken c rnd = Some (token, h)" and "h \<notin> se_token_hash ` set (sessions (w_db w))"
    and "\<And>row. user_by_name nm (w_db w) = Some row \<Longrightarrow> VerifyPassword c pw (ur_hash row) \<in> range Inr"
  shows "fst (Login env c rnd dummy s nm pw addr w) =
    (if throttled (en_now env) nm addr (w_db w) then Inl ErrThrottled else
     case user_by_name nm (w_db w) of
       None \<Rightarrow> Inl ErrInvalidCredentials
     | Some row \<Rightarrow>
         if VerifyPassword c pw (ur_hash row) = Inr True
         then Inr (token, \<lparr>u_ID = ur_id row, u_Username = nm, u_Role = ur_role row\<rparr>)
         else Inl ErrInvalidCredentials)"
proof -
  define wp where "wp = w\<lparr>w_db := prune_failures (en_now env) (w_db w)\<rparr>"
  have thr: "isThrottled env (userKey nm) (addrKey addr) w = (Inr (throttled (en_now env) nm addr (w_db w)), wp)"
    using assms(1-3) by (simp add: isThrottled_def throttled_def recent_after_prune exec_def wp_def)
  have user: "user_by_name nm (w_db wp) = user_by_name nm (w_db w)"
    by (simp add: user_by_name_def wp_def)
  have lf: "fst (loginFailed env nm (userKey nm) (addrKey addr) reason wp) = ErrInvalidCredentials" for reason
    using assms(1-3) by (simp add: loginFailed_def exec_def insert_failures_def)
  show ?thesis
  proof (cases "throttled (en_now env) nm addr (w_db w)")
    case True
    with thr show ?thesis by (simp add: Login_def Let_def)
  next
    case low: False
    show ?thesis
    proof (cases "user_by_name nm (w_db w)")
      case None
      with low thr user lf [of "''unknown_user''"] assms(1) show ?thesis
        by (simp add: Login_def Let_def exec_def split_beta)
    next
      case row: (Some row)
      then obtain b where b: "VerifyPassword c pw (ur_hash row) = Inr b" using assms(6) by blast
      have "\<exists>x\<in>set (users (w_db w)). ur_id x = ur_id row"
        using query_row_Some [OF row [unfolded user_by_name_def]] by blast
      then have "insert_session \<lparr>se_user = ur_id row, se_token_hash = h, se_created = en_now env,
          se_expires = en_now env + sv_absolute s, se_last_seen = en_now env\<rparr>
          ((w_db wp)\<lparr>failures := delete_where (\<lambda>f. lf_key f = userKey nm) (failures (w_db wp))\<rparr>) \<in> range Inr"
        using assms(5) by (auto simp: insert_session_def wp_def image_iff)
      with low thr user row b lf [of "''wrong_password''"] assms(1,4) show ?thesis
        by (cases b) (auto simp: Login_def Let_def exec_def split_beta createSession_def)
    qed
  qed
qed

text \<open>A concrete account whose password is known, and a login to it.\<close>

definition demo_account :: "string \<Rightarrow> world" where
  "demo_account h = demo_world\<lparr>w_db := empty_db\<lparr>users := [(demo_user_row ''02'' ''bob'' ''user'')\<lparr>ur_hash := h\<rparr>]\<rparr>\<rparr>"

lemma demo_account_ok: "schema_ok (w_db (demo_account h))"
  by (simp add: schema_defs demo_account_def empty_db_def demo_user_row_def demo_id_def pg_uuid_def hex_alphabet_def)

lemma demo_account_user:
  "user_by_name ''bob'' (w_db (demo_account h)) = Some ((demo_user_row ''02'' ''bob'' ''user'')\<lparr>ur_hash := h\<rparr>)"
  by (simp add: user_by_name_def demo_account_def table_simps demo_user_row_def)

definition demo_Login :: "string \<Rightarrow> string \<Rightarrow> world \<Rightarrow> (auth_error + string \<times> user) \<times> world" where
  "demo_Login pw addr = Login demo_env demo_crypto (Some (\<lambda>_. 9)) [] NewService ''bob'' pw addr"

lemma demo_keys: "pg_text (userKey ''bob'')" "pg_text (addrKey ''10.0.0.7'')"
  by (rule pg_text_ascii; simp add: userKey_def addrKey_def)+

lemma NewSessionToken_Some: "\<exists>t. NewSessionToken c (Some f) = Some (t, HashToken c t)"
  unfolding NewSessionToken_def rand_read_def option.map option.case Let_def by blast

lemma demo_token: obtains t where "NewSessionToken demo_crypto (Some (\<lambda>_. 9)) = Some (t, HashToken demo_crypto t)"
  using NewSessionToken_Some by blast

lemma demo_login_premises:
  assumes h: "HashPassword demo_crypto (Some (\<lambda>_. 3)) ''correct horse'' = Inr h"
  shows "x \<notin> se_token_hash ` set (sessions (w_db (demo_account h)))"
    and "user_by_name ''bob'' (w_db (demo_account h)) = Some row \<Longrightarrow>
      VerifyPassword demo_crypto ''correct horse'' (ur_hash row) = Inr True"
    and "\<not> throttled t ''bob'' ''10.0.0.7'' (w_db (demo_account h))"
proof -
  show "x \<notin> se_token_hash ` set (sessions (w_db (demo_account h)))"
    by (simp add: demo_account_def empty_db_def)
  show "VerifyPassword demo_crypto ''correct horse'' (ur_hash row) = Inr True"
    if "user_by_name ''bob'' (w_db (demo_account h)) = Some row"
  proof -
    have "ur_hash row = h" using that demo_account_user [of h] by auto
    then show ?thesis using verify_hashed [OF demo_crypto_ok h] by (simp only:)
  qed
  show "\<not> throttled t ''bob'' ''10.0.0.7'' (w_db (demo_account h))"
    by (simp add: throttled_def recent_failures_def demo_account_def empty_db_def table_simps throttle_defs)
qed

lemma demo_login:
  obtains h token p w' where "HashPassword demo_crypto (Some (\<lambda>_. 3)) ''correct horse'' = Inr h"
    "demo_Login ''correct horse'' ''10.0.0.7'' (demo_account h) = (Inr (token, p), w')"
proof -
  obtain h where h: "HashPassword demo_crypto (Some (\<lambda>_. 3)) ''correct horse'' = Inr h"
    using demo_hash by blast
  obtain t where t: "NewSessionToken demo_crypto (Some (\<lambda>_. 9)) = Some (t, HashToken demo_crypto t)"
    by (rule demo_token)
  have parses: "VerifyPassword demo_crypto ''correct horse'' (ur_hash row) \<in> range Inr"
    if "user_by_name ''bob'' (w_db (demo_account h)) = Some row" for row
    unfolding demo_login_premises(2) [OF h that] by (rule rangeI)
  have v: "VerifyPassword demo_crypto ''correct horse'' h = Inr True"
    by (rule verify_hashed [OF demo_crypto_ok h])
  have "fst (demo_Login ''correct horse'' ''10.0.0.7'' (demo_account h)) =
      Inr (t, \<lparr>u_ID = demo_id ''02'', u_Username = ''bob'', u_Role = ''user''\<rparr>)"
    unfolding demo_Login_def
    by (subst login_decided [OF demo_request(1) demo_keys t demo_login_premises(1) [OF h]], erule parses)
      (simp add: demo_account_user demo_login_premises(3) [OF h] v demo_user_row_def)
  then have "demo_Login ''correct horse'' ''10.0.0.7'' (demo_account h) =
      (Inr (t, \<lparr>u_ID = demo_id ''02'', u_Username = ''bob'', u_Role = ''user''\<rparr>),
       snd (demo_Login ''correct horse'' ''10.0.0.7'' (demo_account h)))"
    by (simp only: prod_eq_iff fst_conv snd_conv)
  from that [OF h this] show thesis .
qed

text \<open>
  C10 The login decision: with a working database, a request that is throttled is refused as
  throttled; otherwise it succeeds, with the drawn token and the stored role, exactly when the account
  exists and its stored hash accepts the password; in every other case the answer is the one
  invalid-credentials error.
\<close>

theorem login_decision:
  assumes "\<forall>call. \<not> en_fail env call" and "pg_text (userKey nm)" and "pg_text (addrKey addr)"
    and "NewSessionToken c rnd = Some (token, h)" and "h \<notin> se_token_hash ` set (sessions (w_db w))"
    and "\<And>row. user_by_name nm (w_db w) = Some row \<Longrightarrow> VerifyPassword c pw (ur_hash row) \<in> range Inr"
  shows "fst (Login env c rnd dummy s nm pw addr w) =
    (if throttled (en_now env) nm addr (w_db w) then Inl ErrThrottled else
     case user_by_name nm (w_db w) of
       None \<Rightarrow> Inl ErrInvalidCredentials
     | Some row \<Rightarrow>
         if VerifyPassword c pw (ur_hash row) = Inr True
         then Inr (token, \<lparr>u_ID = ur_id row, u_Username = nm, u_Role = ur_role row\<rparr>)
         else Inl ErrInvalidCredentials)"
  using assms by (rule login_decided)

theorem login_decision_witness:
  "\<exists>h token p. HashPassword demo_crypto (Some (\<lambda>_. 3)) ''correct horse'' = Inr h \<and>
     fst (demo_Login ''correct horse'' ''10.0.0.7'' (demo_account h)) = Inr (token, p) \<and> u_Role p = ''user''"
proof -
  obtain h where h: "HashPassword demo_crypto (Some (\<lambda>_. 3)) ''correct horse'' = Inr h"
    using demo_hash by blast
  obtain t where t: "NewSessionToken demo_crypto (Some (\<lambda>_. 9)) = Some (t, HashToken demo_crypto t)"
    by (rule demo_token)
  have parses: "VerifyPassword demo_crypto ''correct horse'' (ur_hash row) \<in> range Inr"
    if "user_by_name ''bob'' (w_db (demo_account h)) = Some row" for row
    unfolding demo_login_premises(2) [OF h that] by (rule rangeI)
  have v: "VerifyPassword demo_crypto ''correct horse'' h = Inr True"
    by (rule verify_hashed [OF demo_crypto_ok h])
  have "fst (demo_Login ''correct horse'' ''10.0.0.7'' (demo_account h)) =
      Inr (t, \<lparr>u_ID = demo_id ''02'', u_Username = ''bob'', u_Role = ''user''\<rparr>)"
    unfolding demo_Login_def
    by (subst login_decision [OF demo_request(1) demo_keys t demo_login_premises(1) [OF h]], erule parses)
      (simp add: demo_account_user demo_login_premises(3) [OF h] v demo_user_row_def)
  with h show ?thesis by auto
qed

text \<open>
  C28 Uniform credential errors: with a wrong password, a login against an existing account and the same
  login in a world where the account does not exist give the same answer and leave the same failure
  counters, and neither changes anything else of its world, accounts, sessions, files, grants, invites, objects and disk
  included, whichever database calls fail. Only the audit trail, which at most grows, tells them apart.
\<close>

theorem login_failure_is_uniform:
  assumes "user_by_name nm (w_db w) = Some row" and "VerifyPassword c pw (ur_hash row) = Inr False"
    and "Login env c rnd dummy s nm pw addr w = (res, w1)"
    and "Login env c rnd dummy s nm pw addr (without_account nm w) = (res', w2)"
  shows "res' = res \<and> (\<exists>F.
    core (w_db w1) = core ((w_db w)\<lparr>failures := F\<rparr>) \<and> w_fs w1 = w_fs w \<and> extends w w1 \<and>
    core (w_db w2) = core ((w_db (without_account nm w))\<lparr>failures := F\<rparr>) \<and> w_fs w2 = w_fs w \<and> extends w w2)"
proof -
  let ?w0 = "without_account nm w"
  obtain r v where thr: "isThrottled env (userKey nm) (addrKey addr) w = (r, v)" by fastforce
  then have thr': "isThrottled env (userKey nm) (addrKey addr) ?w0 = (r, without_account nm v)"
    by (simp add: isThrottled_without)
  have same: "failures (w_db (without_account nm v)) = failures (w_db v)" by (simp add: without_account_def)
  have user: "user_by_name nm (w_db v) = Some row"
    using assms(1) isThrottled_users [OF thr] by (simp add: user_by_name_def)
  note pre = isThrottled_changes [OF thr] and pre' = isThrottled_changes [OF thr']
  have "res' = res \<and> (\<exists>F. failures_changed F w w1 \<and> failures_changed F ?w0 w2)"
  proof (cases "r = Inr False \<and> \<not> en_fail env CallSelectUser")
    case True
    obtain e v1 where lf: "loginFailed env nm (userKey nm) (addrKey addr) ''wrong_password'' v = (e, v1)" by fastforce
    obtain e' v2 where lf': "loginFailed env nm (userKey nm) (addrKey addr) ''unknown_user'' (without_account nm v) = (e', v2)"
      by fastforce
    have "res = Inl e" "w1 = v1"
      using assms(2,3) thr user True lf by (simp_all add: Login_def Let_def exec_def)
    moreover have "res' = Inl e'" "w2 = v2"
      using assms(4) thr' without_account_user [of nm v] True lf' by (simp_all add: Login_def Let_def exec_def)
    moreover have "failures_changed (failures (w_db v1)) w v1" "failures_changed (failures (w_db v1)) ?w0 v2"
      using failures_changed_trans [OF pre loginFailed_changes [OF lf]]
        failures_changed_trans [OF pre' loginFailed_changes [OF lf']] loginFailed_without [OF lf lf'] by simp_all
    ultimately show ?thesis
      using loginFailed_without [OF lf lf'] by blast
  next
    case False
    have same_changes: "failures_changed (failures (w_db v)) w v" "failures_changed (failures (w_db v)) ?w0 (without_account nm v)"
      using pre pre' by (simp_all add: same)
    from False consider (error) e where "r = Inl e" | (limited) "r = Inr True" | (unread) "r = Inr False" "en_fail env CallSelectUser"
      by (cases r) auto
    then have "res' = res \<and> failures_changed (failures (w_db v)) w w1 \<and> failures_changed (failures (w_db v)) ?w0 w2"
    proof cases
      case error
      with assms(3,4) thr thr' same_changes show ?thesis by (simp add: Login_def Let_def)
    next
      case limited
      with assms(3,4) thr thr' same_changes show ?thesis by (auto simp: Login_def Let_def intro!: failures_changed_Record)
    next
      case unread
      with assms(3,4) thr thr' same_changes show ?thesis by (simp add: Login_def Let_def exec_def)
    qed
    then show ?thesis by blast
  qed
  then show ?thesis
    by (auto simp: failures_changed_def without_account_def extends_def)
qed

lemma demo_wrong:
  assumes h: "HashPassword demo_crypto (Some (\<lambda>_. 3)) ''correct horse'' = Inr h"
  shows "VerifyPassword demo_crypto ''wrong'' h = Inr False"
proof (rule parse_hashed [OF demo_crypto_ok h])
  fix salt
  assume "parsePHC h = Inr \<lparr>phc_salt = salt,
       phc_key = c_argon2id demo_crypto (bytes_of_string ''correct horse'') salt argonTime argonMemoryKiB argonThreads argonKeyLen,
       phc_memory = argonMemoryKiB, phc_time = argonTime, phc_threads = argonThreads\<rparr>"
    "length (c_argon2id demo_crypto (bytes_of_string ''correct horse'') salt argonTime argonMemoryKiB argonThreads argonKeyLen) =
       argonKeyLen"
  then show ?thesis
    by (simp add: VerifyPassword_def argonKeyLen_def demo_crypto_def bytes_of_string_def)
qed

theorem login_failure_is_uniform_witness:
  "\<exists>h. HashPassword demo_crypto (Some (\<lambda>_. 3)) ''correct horse'' = Inr h \<and>
      fst (demo_Login ''wrong'' ''10.0.0.7'' (without_account ''bob'' (demo_account h))) =
      fst (demo_Login ''wrong'' ''10.0.0.7'' (demo_account h))"
proof -
  obtain h where h: "HashPassword demo_crypto (Some (\<lambda>_. 3)) ''correct horse'' = Inr h"
    using demo_hash by blast
  obtain res w1 res' w2 where x: "demo_Login ''wrong'' ''10.0.0.7'' (demo_account h) = (res, w1)"
    "demo_Login ''wrong'' ''10.0.0.7'' (without_account ''bob'' (demo_account h)) = (res', w2)"
    by fastforce
  have "res' = res"
    using login_failure_is_uniform [OF demo_account_user _ x [unfolded demo_Login_def]] demo_wrong [OF h] by simp
  with h x show ?thesis by auto
qed

lemma fresh_session_window:
  assumes ses: "sessions (w_db w') = ss @ [fresh_session env c s uid token]"
    and fresh: "HashToken c token \<notin> se_token_hash ` set ss"
    and user: "user_by_id uid (w_db w') = Some x" and "token \<noteq> []" and "\<not> en_fail env' CallTouchSession"
  shows "fst (ValidateSession env' c s token w') =
    (if en_now env' < en_now env + sv_absolute s \<and> en_now env' < en_now env + sv_idle s
     then Inr \<lparr>u_ID = ur_id x, u_Username = ur_username x, u_Role = ur_role x\<rparr> else Inl ErrSessionInvalid)"
proof -
  let ?r = "fresh_session env c s uid token"
  define live where "live = (\<lambda>r. session_live s (en_now env') (HashToken c token) r \<and>
      user_by_id (se_user r) (w_db w') \<noteq> None)"
  have only: "y = ?r" if "y \<in> set (sessions (w_db w'))" "live y" for y
    using that fresh by (auto simp: ses live_def session_live_def image_iff)
  have live_r: "live ?r \<longleftrightarrow> en_now env' < en_now env + sv_absolute s \<and> en_now env' < en_now env + sv_idle s"
    using user by (auto simp: live_def session_live_def fresh_session_def)
  have r: "?r \<in> set (sessions (w_db w'))" by (simp add: ses)
  have "query_row live (sessions (w_db w')) = (if live ?r then Some ?r else None)"
    using query_row_unique [OF r _ only] only query_row_None [of live "sessions (w_db w')"] by auto
  with live_r assms(3-5) show ?thesis
    by (simp add: ValidateSession_def live_def [symmetric] Let_def fresh_session_def del: not_None_eq)
qed

lemma login_window:
  assumes "schema_ok (w_db w)" and "Login env c rnd dummy s nm pw addr w = (Inr (token, p), w')"
    and "\<not> en_fail env' CallTouchSession"
  shows "fst (ValidateSession env' c s token w') =
    (if en_now env' < en_now env + sv_absolute s \<and> en_now env' < en_now env + sv_idle s
     then Inr p else Inl ErrSessionInvalid)"
  using assms(2)
proof (cases rule: Login_cases)
  case (ok row tk)
  have tk: "tk = token" "p = \<lparr>u_ID = ur_id row, u_Username = nm, u_Role = ur_role row\<rparr>"
    using ok(5) by simp_all
  have ses: "sessions (w_db w') = sessions (w_db w) @ [fresh_session env c s (ur_id row) token]"
    and usr: "users (w_db w') = users (w_db w)"
    using core_eqD(1,2) [OF ok(7)] tk by (simp_all add: fresh_session_def)
  have row: "row \<in> set (users (w_db w))" "ur_username row = nm"
    using query_row_Some [OF ok(2) [unfolded user_by_name_def]] by simp_all
  have byid: "user_by_id (ur_id row) (w_db w') = Some row"
    using query_row_key [of ur_id "users (w_db w)" row] row schema_parts(1) [OF assms(1)]
    by (simp add: user_by_id_def usr users_ok_def)
  have "token \<noteq> []"
    using NewSessionToken_length [OF ok(4)] tk by auto
  from fresh_session_window [OF ses _ byid this assms(3)] ok(6) tk row show ?thesis by simp
qed auto

text \<open>
  How long a login lasts: the token of a successful login, presented at a later moment without any
  activity in between, resolves to the account exactly while both the absolute lifetime and the
  inactivity limit have not run out; otherwise it is refused as invalid.
\<close>

theorem login_session_window:
  assumes "schema_ok (w_db w)" and "Login env c rnd dummy s nm pw addr w = (Inr (token, p), w')"
    and "\<not> en_fail env' CallTouchSession"
  shows "fst (ValidateSession env' c s token w') =
    (if en_now env' < en_now env + sv_absolute s \<and> en_now env' < en_now env + sv_idle s
     then Inr p else Inl ErrSessionInvalid)"
  using assms by (rule login_window)

theorem login_session_window_witness:
  "\<exists>h token p w'. demo_Login ''correct horse'' ''10.0.0.7'' (demo_account h) = (Inr (token, p), w') \<and>
     fst (ValidateSession (demo_env\<lparr>en_now := 100 * hour + 29 * minute\<rparr>) demo_crypto NewService token w') = Inr p \<and>
     fst (ValidateSession (demo_env\<lparr>en_now := 100 * hour + 30 * minute\<rparr>) demo_crypto NewService token w') =
       Inl ErrSessionInvalid"
proof -
  obtain h token p w' where "HashPassword demo_crypto (Some (\<lambda>_. 3)) ''correct horse'' = Inr h"
    and x: "demo_Login ''correct horse'' ''10.0.0.7'' (demo_account h) = (Inr (token, p), w')"
    by (rule demo_login)
  note window = login_session_window [OF demo_account_ok x [unfolded demo_Login_def]]
  have "fst (ValidateSession (demo_env\<lparr>en_now := 100 * hour + 29 * minute\<rparr>) demo_crypto NewService token w') = Inr p"
    by (subst window) (simp_all add: demo_env_def NewService_def sessionIdleTTL_def sessionAbsoluteTTL_def)
  moreover have "fst (ValidateSession (demo_env\<lparr>en_now := 100 * hour + 30 * minute\<rparr>) demo_crypto NewService token w') =
       Inl ErrSessionInvalid"
    by (subst window) (simp_all add: demo_env_def NewService_def sessionIdleTTL_def sessionAbsoluteTTL_def)
  ultimately show ?thesis using x by blast
qed

text \<open>
  C26 Logout is final: after a logout that reported success, the token that was presented is refused
  at every later request, whatever the clock, the configuration or the failures then, and no session
  with another token hash was touched. A logout that reports an error has changed nothing.
\<close>

theorem logout_is_final:
  assumes "Logout env c token p w = (res, w')"
  shows "(res = Inr () \<longrightarrow> (\<forall>env' s q. fst (ValidateSession env' c s token w') \<noteq> Inr q) \<and>
       sessions (w_db w') = filter (\<lambda>r. se_token_hash r \<noteq> HashToken c token) (sessions (w_db w))) \<and>
    (res \<noteq> Inr () \<longrightarrow> w' = w)"
  using assms
proof (cases rule: Logout_cases)
  case error
  then show ?thesis by simp
next
  case logged_out
  have ses: "sessions (w_db w') = filter (\<lambda>r. se_token_hash r \<noteq> HashToken c token) (sessions (w_db w))"
    by (simp add: logged_out(2) delete_where_def)
  have "fst (ValidateSession env' c s token w') \<noteq> Inr q" for env' s q
  proof
    assume "fst (ValidateSession env' c s token w') = Inr q"
    then obtain w'' where "ValidateSession env' c s token w' = (Inr q, w'')" by (metis prod.collapse)
    then show False
      by (cases rule: ValidateSession_cases) (auto simp: ses session_live_def)
  qed
  with ses logged_out(1) show ?thesis by simp
qed

theorem logout_is_final_witness:
  "\<exists>h token p w' w''. demo_Login ''correct horse'' ''10.0.0.7'' (demo_account h) = (Inr (token, p), w') \<and>
     Logout demo_env demo_crypto token p w' = (Inr (), w'') \<and>
     fst (ValidateSession demo_env demo_crypto NewService token w'') \<noteq> Inr p"
proof -
  obtain h token p w' where "HashPassword demo_crypto (Some (\<lambda>_. 3)) ''correct horse'' = Inr h"
    and x: "demo_Login ''correct horse'' ''10.0.0.7'' (demo_account h) = (Inr (token, p), w')"
    by (rule demo_login)
  obtain w'' where y: "Logout demo_env demo_crypto token p w' = (Inr (), w'')"
    by (simp add: Logout_def exec_def demo_env_def)
  show ?thesis
    using logout_is_final [OF y] x y by blast
qed

text \<open>
  C13 A password change that reports success stored a hash the new password verifies against, removed
  every earlier session of the account and left those of others, and added exactly one session, the one
  of the returned token; so every other token that resolved to the account before is refused.
\<close>

theorem password_change_revokes_sessions:
  assumes "crypto_ok c" and "schema_ok (w_db w)"
    and "ChangePassword env c rs rt s p cur new w = (Inr token, w')"
  shows "(\<exists>row. user_by_id (u_ID p) (w_db w') = Some row \<and> VerifyPassword c new (ur_hash row) = Inr True) \<and>
    sessions (w_db w') = filter (\<lambda>r. se_user r \<noteq> u_ID p) (sessions (w_db w)) @
      [\<lparr>se_user = u_ID p, se_token_hash = HashToken c token, se_created = en_now env,
        se_expires = en_now env + sv_absolute s, se_last_seen = en_now env\<rparr>] \<and>
    (\<forall>env' s' token' q. fst (ValidateSession env' c s' token' w') = Inr q \<and> u_ID q = u_ID p \<longrightarrow>
       HashToken c token' = HashToken c token)"
  using assms(3)
proof (cases rule: ChangePassword_cases)
  case (changed tk h)
  have tk: "tk = token" using changed(1) by simp
  from changed(4) obtain row where "user_by_id (u_ID p) (w_db w) = Some row" by blast
  then have row: "row \<in> set (users (w_db w))" "ur_id row = u_ID p"
    by (auto simp: user_by_id_def dest: query_row_Some)
  have ses: "sessions (w_db w') = filter (\<lambda>r. se_user r \<noteq> u_ID p) (sessions (w_db w)) @ [fresh_session env c s (u_ID p) token]"
    by (simp add: changed(7) tk delete_where_def)
  have usr: "users (w_db w') = users (update_password (u_ID p) h (en_now env) (w_db w))"
    by (simp add: changed(7))
  have stored: "user_by_id (u_ID p) (w_db w') = Some (row\<lparr>ur_hash := h, ur_changed := en_now env\<rparr>)"
    unfolding user_by_id_def
  proof (rule query_row_unique)
    show "row\<lparr>ur_hash := h, ur_changed := en_now env\<rparr> \<in> set (users (w_db w'))"
      using row by (auto simp: usr update_password_def update_where_def intro!: image_eqI [of _ _ row])
    show "x = row\<lparr>ur_hash := h, ur_changed := en_now env\<rparr>" if "x \<in> set (users (w_db w'))" "ur_id x = u_ID p" for x
    proof -
      from that obtain y where y: "y \<in> set (users (w_db w))"
        "x = (if ur_id y = u_ID p then y\<lparr>ur_hash := h, ur_changed := en_now env\<rparr> else y)"
        by (auto simp: usr update_password_def update_where_def)
      with that(2) row have "y = row"
        using distinct_key_unique [of ur_id "users (w_db w)" y row] schema_parts(1) [OF assms(2)]
        by (auto simp: users_ok_def split: if_splits)
      with y row show ?thesis by simp
    qed
  qed (use row in simp)
  have only: "HashToken c token' = HashToken c token"
    if "fst (ValidateSession env' c s' token' w') = Inr q \<and> u_ID q = u_ID p" for env' s' token' q
  proof -
    from that obtain w'' where "ValidateSession env' c s' token' w' = (Inr q, w'')" by (metis prod.collapse)
    then show ?thesis
    proof (cases rule: ValidateSession_cases)
      case (accepted r x)
      have "ur_id x = se_user r"
        using query_row_Some [OF accepted(4) [unfolded user_by_id_def]] by simp
      with that accepted show ?thesis by (auto simp: ses session_live_def fresh_session_def)
    qed simp
  qed
  have good: "\<exists>row. user_by_id (u_ID p) (w_db w') = Some row \<and> VerifyPassword c new (ur_hash row) = Inr True"
    using stored verify_hashed [OF assms(1) changed(3)] by simp
  show ?thesis
    by (intro conjI allI impI good ses [unfolded fresh_session_def]) (rule only, assumption)
qed auto

text \<open>A working database carries a password change through.\<close>

lemma ChangePassword_succeeds:
  assumes "\<forall>call. \<not> en_fail env call" and "password_ok new" and "user_by_id (u_ID p) (w_db w) = Some row"
    and "VerifyPassword c cur (ur_hash row) = Inr True" and "HashPassword c rs new = Inr h"
    and "NewSessionToken c rt = Some (token, hs)" and "hs \<notin> se_token_hash ` set (sessions (w_db w))"
  shows "fst (ChangePassword env c rs rt s p cur new w) = Inr token"
proof -
  have "\<exists>x\<in>set (users (w_db w)). ur_id x = u_ID p"
    using query_row_Some [OF assms(3) [unfolded user_by_id_def]] by blast
  then have "\<exists>x\<in>set (users (update_password (u_ID p) h (en_now env) (w_db w))). ur_id x = u_ID p"
    by (simp add: update_password_def bex_update_where if_distrib [of ur_id] cong: if_cong)
  then have "insert_session \<lparr>se_user = u_ID p, se_token_hash = hs, se_created = en_now env,
      se_expires = en_now env + sv_absolute s, se_last_seen = en_now env\<rparr>
      ((update_password (u_ID p) h (en_now env) (w_db w))\<lparr>sessions :=
         delete_where (\<lambda>r. se_user r = u_ID p) (sessions (w_db w))\<rparr>) \<in> range Inr"
    using assms(7) by (auto simp: insert_session_def set_delete_where image_iff)
  with assms show ?thesis
    by (auto simp: ChangePassword_def exec_def createSession_def)
qed

theorem password_change_revokes_sessions_witness:
  "\<exists>h token w'. HashPassword demo_crypto (Some (\<lambda>_. 3)) ''correct horse'' = Inr h \<and>
     ChangePassword demo_env demo_crypto (Some (\<lambda>_. 4)) (Some (\<lambda>_. 9)) NewService (demo_user ''02'' ''bob'' ''user'')
       ''correct horse'' ''battery staple'' (demo_account h) = (Inr token, w') \<and> length (sessions (w_db w')) = 1"
proof -
  obtain h where h: "HashPassword demo_crypto (Some (\<lambda>_. 3)) ''correct horse'' = Inr h" using demo_hash by blast
  obtain h2 where h2: "HashPassword demo_crypto (Some (\<lambda>_. 4)) ''battery staple'' = Inr h2" using demo_hash by blast
  obtain t where t: "NewSessionToken demo_crypto (Some (\<lambda>_. 9)) = Some (t, HashToken demo_crypto t)"
    by (rule demo_token)
  let ?p = "demo_user ''02'' ''bob'' ''user''"
  define row where "row = (demo_user_row ''02'' ''bob'' ''user'')\<lparr>ur_hash := h\<rparr>"
  have row: "user_by_id (u_ID ?p) (w_db (demo_account h)) = Some row" "ur_hash row = h"
    by (simp_all add: user_by_id_def demo_account_def table_simps demo_user_row_def demo_user_def row_def)
  have v: "VerifyPassword demo_crypto ''correct horse'' (ur_hash row) = Inr True"
    unfolding row(2) by (rule verify_hashed [OF demo_crypto_ok h])
  have pol: "password_ok ''battery staple''"
    by (simp add: password_ok_def passwordMinLen_def passwordMaxLen_def)
  define x where "x = ChangePassword demo_env demo_crypto (Some (\<lambda>_. 4)) (Some (\<lambda>_. 9)) NewService ?p
       ''correct horse'' ''battery staple'' (demo_account h)"
  have "fst x = Inr t"
    unfolding x_def
    by (rule ChangePassword_succeeds [OF demo_request(1) pol row(1) v h2 t demo_login_premises(1) [OF h]])
  then have x: "x = (Inr t, snd x)" by (simp only: prod_eq_iff fst_conv snd_conv)
  have "length (sessions (w_db (snd x))) = 1"
    using password_change_revokes_sessions [OF demo_crypto_ok demo_account_ok x [unfolded x_def], THEN conjunct2, THEN conjunct1]
    by (simp only: x_def) (simp add: demo_account_def empty_db_def)
  with h x show ?thesis unfolding x_def by blast
qed

text \<open>
  A password change is not atomic: the new hash, the removal of the old sessions and the new session are
  three separate statements. When the removal fails, the operation reports an error although the new
  password is already in force, and every session opened with the old one stays exactly as it was.
\<close>

theorem password_change_partial_failure:
  assumes "\<forall>call. en_fail env call \<longleftrightarrow> call = CallRevokeSessions" and "password_ok new"
    and "user_by_id (u_ID p) (w_db w) = Some row" and "VerifyPassword c cur (ur_hash row) = Inr True"
    and "HashPassword c rs new = Inr h"
  shows "\<exists>w'. ChangePassword env c rs rt s p cur new w = (Inl (ErrAuthOther ''auth: revoke sessions''), w') \<and>
    sessions (w_db w') = sessions (w_db w) \<and>
    (\<exists>x\<in>set (users (w_db w')). ur_id x = u_ID p \<and> ur_hash x = h)"
proof -
  have run: "ChangePassword env c rs rt s p cur new w = (Inl (ErrAuthOther ''auth: revoke sessions''),
      w\<lparr>w_db := update_password (u_ID p) h (en_now env) (w_db w)\<rparr>)"
    using assms by (simp add: ChangePassword_def exec_def)
  have "\<exists>x\<in>set (users (update_password (u_ID p) h (en_now env) (w_db w))). ur_id x = u_ID p \<and> ur_hash x = h"
    using query_row_Some [OF assms(3) [unfolded user_by_id_def]]
    by (auto simp: update_password_def bex_update_where)
  with run show ?thesis by simp
qed

theorem password_change_partial_failure_witness:
  "\<exists>h w'. HashPassword demo_crypto (Some (\<lambda>_. 3)) ''correct horse'' = Inr h \<and>
     ChangePassword (demo_env\<lparr>en_fail := (\<lambda>call. call = CallRevokeSessions)\<rparr>) demo_crypto (Some (\<lambda>_. 4)) (Some (\<lambda>_. 9))
       NewService (demo_user ''02'' ''bob'' ''user'') ''correct horse'' ''battery staple'' (demo_account h) =
       (Inl (ErrAuthOther ''auth: revoke sessions''), w')"
proof -
  obtain h where h: "HashPassword demo_crypto (Some (\<lambda>_. 3)) ''correct horse'' = Inr h" using demo_hash by blast
  obtain h2 where h2: "HashPassword demo_crypto (Some (\<lambda>_. 4)) ''battery staple'' = Inr h2" using demo_hash by blast
  let ?p = "demo_user ''02'' ''bob'' ''user''"
  define row where "row = (demo_user_row ''02'' ''bob'' ''user'')\<lparr>ur_hash := h\<rparr>"
  have row: "user_by_id (u_ID ?p) (w_db (demo_account h)) = Some row" "ur_hash row = h"
    by (simp_all add: user_by_id_def demo_account_def table_simps demo_user_row_def demo_user_def row_def)
  have v: "VerifyPassword demo_crypto ''correct horse'' (ur_hash row) = Inr True"
    unfolding row(2) by (rule verify_hashed [OF demo_crypto_ok h])
  have pol: "password_ok ''battery staple''"
    by (simp add: password_ok_def passwordMinLen_def passwordMaxLen_def)
  have f: "\<forall>call. en_fail (demo_env\<lparr>en_fail := (\<lambda>call. call = CallRevokeSessions)\<rparr>) call \<longleftrightarrow> call = CallRevokeSessions"
    by simp
  from password_change_partial_failure [OF f pol row(1) v h2, of "Some (\<lambda>_. 9)" NewService] h show ?thesis
    by blast
qed

end
