(* ===== verification/Api_Guards.thy ===== *)
theory Api_Guards
  imports Api_Routes Auth_Properties
begin

text \<open>
  What the guards of the route table achieve, for every request: no service without a live session, and no change
  without the CSRF token.
\<close>

section \<open>Sessions are resolved without side effects\<close>

text \<open>
  Two session tables that differ in the time stamp of the session with the digest \<open>H\<close> at most, which is then \<open>t\<close>,
  and two worlds that differ in that and in a longer audit trail and the log at most.
\<close>

definition restamped :: "bytes option \<Rightarrow> time \<Rightarrow> session_row \<Rightarrow> session_row \<Rightarrow> bool" where
  "restamped H t x y \<longleftrightarrow> y = x \<or> H = Some (se_token_hash x) \<and> y = x\<lparr>se_last_seen := t\<rparr>"

definition stamped :: "bytes option \<Rightarrow> time \<Rightarrow> session_row list \<Rightarrow> session_row list \<Rightarrow> bool" where
  "stamped H t = list_all2 (restamped H t)"

definition untouched :: "bytes option \<Rightarrow> time \<Rightarrow> world \<Rightarrow> world \<Rightarrow> bool" where
  "untouched H t w w' \<longleftrightarrow> core (w_db w') = core ((w_db w)\<lparr>sessions := sessions (w_db w')\<rparr>) \<and>
     stamped H t (sessions (w_db w)) (sessions (w_db w')) \<and> w_fs w' = w_fs w \<and> extends w w'"

text \<open>The digest of the session cookie a request carries.\<close>

definition request_session :: "ambience \<Rightarrow> request \<Rightarrow> bytes option" where
  "request_session am r = map_option (HashToken (am_crypto am)) (map_of (rq_Cookies r) sessionCookie)"

abbreviation untouched_by :: "ambience \<Rightarrow> request \<Rightarrow> world \<Rightarrow> world \<Rightarrow> bool" where
  "untouched_by am r \<equiv> untouched (request_session am r) (en_now (am_env am))"

lemma restamped_trans: "restamped H t x y \<Longrightarrow> restamped H t y z \<Longrightarrow> restamped H t x z"
  unfolding restamped_def by (elim disjE conjE; hypsubst) simp_all

lemma stamped_refl [simp]: "stamped H t ss ss"
  unfolding stamped_def by (rule list.rel_refl) (simp add: restamped_def)

lemma stamped_trans: "stamped H t ss ss1 \<Longrightarrow> stamped H t ss1 ss2 \<Longrightarrow> stamped H t ss ss2"
  unfolding stamped_def by (rule list_all2_trans [OF restamped_trans])

lemma stamped_update_where:
  assumes "\<And>x. P x \<Longrightarrow> H = Some (se_token_hash x)"
  shows "stamped H t ss (update_where P (\<lambda>r. r\<lparr>se_last_seen := t\<rparr>) ss)"
  using assms by (induction ss) (simp_all add: stamped_def restamped_def update_where_def)

lemma untouched_refl [simp]: "untouched H t w w"
  by (simp add: untouched_def)

lemma untouched_log [simp]: "untouched H t w (w'\<lparr>w_log := l\<rparr>) \<longleftrightarrow> untouched H t w w'"
  by (simp add: untouched_def extends_def)

lemma untouched_parts:
  assumes "untouched H t w w'"
  shows "users (w_db w') = users (w_db w)" "failures (w_db w') = failures (w_db w)" "blobs (w_db w') = blobs (w_db w)"
    "nodes (w_db w') = nodes (w_db w)" "grants (w_db w') = grants (w_db w)" "invites (w_db w') = invites (w_db w)"
    "w_fs w' = w_fs w" "extends w w'" "stamped H t (sessions (w_db w)) (sessions (w_db w'))"
proof -
  have c: "core (w_db w') = core ((w_db w)\<lparr>sessions := sessions (w_db w')\<rparr>)" using assms by (simp add: untouched_def)
  show "users (w_db w') = users (w_db w)" "failures (w_db w') = failures (w_db w)" "blobs (w_db w') = blobs (w_db w)"
    "nodes (w_db w') = nodes (w_db w)" "grants (w_db w') = grants (w_db w)" "invites (w_db w') = invites (w_db w)"
    using core_eqD [OF c] by simp_all
qed (use assms in \<open>simp_all add: untouched_def\<close>)

lemma untouchedI:
  assumes "users (w_db w') = users (w_db w)" "failures (w_db w') = failures (w_db w)" "blobs (w_db w') = blobs (w_db w)"
    "nodes (w_db w') = nodes (w_db w)" "grants (w_db w') = grants (w_db w)" "invites (w_db w') = invites (w_db w)"
    "w_fs w' = w_fs w" "extends w w'" "stamped H t (sessions (w_db w)) (sessions (w_db w'))"
  shows "untouched H t w w'"
proof -
  have "core (w_db w') = core ((w_db w)\<lparr>sessions := sessions (w_db w')\<rparr>)"
    by (rule core_eqI) (simp_all add: assms)
  with assms show ?thesis by (simp add: untouched_def)
qed

lemma untouched_trans [trans]:
  assumes "untouched H t w w1" "untouched H t w1 w2"
  shows "untouched H t w w2"
  using untouched_parts [OF assms(1)] untouched_parts [OF assms(2)] extends_trans stamped_trans
  by (intro untouchedI) (auto elim: stamped_trans)

lemma untouched_Record [simp]: "untouched H t w (Record env e w)"
  by (rule untouchedI) simp_all

lemma untouched_Record_after: "untouched H t w w' \<Longrightarrow> untouched H t w (Record env e w')"
  by (rule untouched_trans [OF _ untouched_Record])

text \<open>Resolving a session moves its time stamp when it succeeds and changes nothing when it fails.\<close>

lemma ValidateSession_untouched:
  "untouched (Some (HashToken c token)) (en_now env) w (snd (ValidateSession env c s token w))"
  by (auto simp: ValidateSession_def Let_def session_live_def intro!: untouchedI extends_same stamped_update_where
      split: option.split)

lemma update_where_none: "query_row P t = None \<Longrightarrow> update_where P f t = t"
  by (auto simp: query_row_None update_where_def intro!: map_idI)

lemma ValidateSession_refused:
  assumes "ValidateSession env c s token w = (Inl e, w')"
  shows "w' = w"
proof -
  let ?live = "\<lambda>r. session_live s (en_now env) (HashToken c token) r \<and> user_by_id (se_user r) (w_db w) \<noteq> None"
  show ?thesis
  proof (cases "token = [] \<or> en_fail env CallTouchSession")
    case True
    with assms show ?thesis by (auto simp: ValidateSession_def split: if_splits)
  next
    case False
    show ?thesis
    proof (cases "query_row ?live (sessions (w_db w))")
      case None
      with assms False update_where_none [OF None] show ?thesis by (auto simp: ValidateSession_def Let_def)
    next
      case (Some x)
      with query_row_Some [OF Some] assms False show ?thesis
        by (auto simp: ValidateSession_def Let_def split: option.splits)
    qed
  qed
qed

section \<open>The route table\<close>

lemma find_route_Some:
  assumes "find_route rts r = Some (h, vals)"
  obtains m pat where "(m, pat, h) \<in> set rts" "method_matches m (rq_Method r)" "match_path pat (rq_Segments r) = Some vals"
  using assms by (induction rts r rule: find_route.induct) (auto split: if_splits option.splits)

lemma find_route_None:
  "find_route rts r = None \<longleftrightarrow>
   (\<forall>(m, pat, h)\<in>set rts. method_matches m (rq_Method r) \<longrightarrow> match_path pat (rq_Segments r) = None)"
  by (induction rts r rule: find_route.induct) (auto split: option.splits)

lemma match_path_Lit: "match_path (Lit l # ps) segs = Some vals \<Longrightarrow> \<exists>xs. segs = l # xs \<and> match_path ps xs = Some vals"
  by (cases segs) (auto split: if_splits)

lemma match_path_Nil: "match_path [] segs = Some vals \<longleftrightarrow> segs = [] \<and> vals = []"
  by (cases segs) auto

text \<open>The protected area: files, administration, and the own account.\<close>

definition protected_path :: "string list \<Rightarrow> bool" where
  "protected_path segs \<longleftrightarrow>
     (\<exists>x rest. segs = ''api'' # x # rest \<and> (x = ''files'' \<or> x = ''admin'')) \<or>
     segs \<in> {[''api'', ''auth'', ''logout''], [''api'', ''auth'', ''password''], [''api'', ''auth'', ''me'']}"

lemma public_not_protected:
  "(m, pat, h) \<in> set (public_routes s am) \<Longrightarrow> match_path pat segs = Some vals \<Longrightarrow> \<not> protected_path segs"
  by (auto simp: public_routes_def protected_path_def match_path_Nil dest!: match_path_Lit)

lemma guarded_routes:
  "(m, pat, h) \<in> set (account_routes s am) \<union> set (file_routes s am) \<union> set (admin_routes s am) \<Longrightarrow>
   \<exists>h'. h = requireAuth s am h'"
  by (auto simp: account_routes_def file_routes_def admin_routes_def)

lemma protected_route:
  assumes "find_route (routes s am) r = Some (h, vals)" and "protected_path (rq_Segments r)"
  obtains h' where "h = requireAuth s am h'"
proof -
  obtain m pat where m: "(m, pat, h) \<in> set (routes s am)" "match_path pat (rq_Segments r) = Some vals"
    by (rule find_route_Some [OF assms(1)])
  have "(m, pat, h) \<notin> set (public_routes s am)"
    using public_not_protected [OF _ m(2)] assms(2) by blast
  with m(1) have "\<exists>h'. h = requireAuth s am h'"
    by (intro guarded_routes) (auto simp: routes_def)
  with that show thesis by blast
qed

lemma protected_api: "protected_path segs \<Longrightarrow> api_path segs"
  by (auto simp: protected_path_def api_path_def)

text \<open>The chain around the multiplexer, when that replies.\<close>

definition dressed :: "ambience \<Rightarrow> response \<Rightarrow> response" where
  "dressed am resp = resp\<lparr>rs_Headers := (rs_Headers resp @ security_headers) @
     [(''X-Request-Id'', hex_encode (case rand_read 8 (am_requestID am) of Some b \<Rightarrow> b | None \<Rightarrow> replicate 8 0))]\<rparr>"

definition tagged :: "ambience \<Rightarrow> request \<Rightarrow> request" where
  "tagged am r = r\<lparr>rq_RequestID := hex_encode (case rand_read 8 (am_requestID am) of Some b \<Rightarrow> b | None \<Rightarrow> replicate 8 0)\<rparr>"

lemma tagged_simps [simp]:
  "rq_Method (tagged am r) = rq_Method r" "rq_Segments (tagged am r) = rq_Segments r" "rq_Path (tagged am r) = rq_Path r"
  "rq_Cookies (tagged am r) = rq_Cookies r" "rq_Header (tagged am r) = rq_Header r" "rq_Query (tagged am r) = rq_Query r"
  "rq_RemoteAddr (tagged am r) = rq_RemoteAddr r" "rq_Json (tagged am r) = rq_Json r"
  "rq_Multipart (tagged am r) = rq_Multipart r" "rq_User (tagged am r) = rq_User r"
  by (simp_all add: tagged_def)

lemma Handler_reply:
  assumes "mux s am (tagged am r) w = (Reply resp, w1)"
  shows "Handler s am r w = (Reply (dressed am resp), w1\<lparr>w_log := w_log w1 @ [''request'']\<rparr>)"
  using assms
  by (simp add: Handler_def withRequestID_def withRecovery_def withLogging_def withSecurityHeaders_def add_headers_def
      dressed_def tagged_def Let_def)

lemma dressed_simps [simp]:
  "rs_Status (dressed am resp) = rs_Status resp" "rs_Cookies (dressed am resp) = rs_Cookies resp"
  "rs_Body (dressed am resp) = rs_Body resp"
  by (simp_all add: dressed_def)

lemma writeError_simps [simp]:
  "rs_Status (writeError n m) = n" "rs_Cookies (writeError n m) = []"
  "rs_Body (writeError n m) = BodyJson (JObject [(''error'', JString m)])"
  by (simp_all add: writeError_def writeJSON_def)

section \<open>No service without a session\<close>

lemma requireAuth_refuses:
  assumes "\<forall>token. map_of (rq_Cookies r) sessionCookie = Some token \<longrightarrow>
      isl (fst (ValidateSession (am_env am) (am_crypto am) (srv_auth s) token w))"
  shows "requireAuth s am h r w = (Reply (writeError 401 ''authentication required''), w)"
proof (cases "map_of (rq_Cookies r) sessionCookie")
  case (Some token)
  then obtain e w1 where v: "ValidateSession (am_env am) (am_crypto am) (srv_auth s) token w = (Inl e, w1)"
    using assms by (cases "ValidateSession (am_env am) (am_crypto am) (srv_auth s) token w") (auto simp: isl_def)
  with ValidateSession_refused [OF v] Some show ?thesis by (simp add: requireAuth_def reply_def)
qed (simp add: requireAuth_def reply_def)

text \<open>
  C6 No service without a session: whatever a request to the files, the administration or the own
  account says, when it carries no session cookie, or one that resolves to nobody, the reply is 401 (404 where there is no
  such route), sets no cookie, and the database and the files are exactly as before.
\<close>

theorem no_session_no_service:
  assumes "protected_path (rq_Segments r)"
    and "\<forall>token. map_of (rq_Cookies r) sessionCookie = Some token \<longrightarrow>
      isl (fst (ValidateSession (am_env am) (am_crypto am) (srv_auth s) token w))"
  shows "\<exists>resp. Handler s am r w = (Reply resp, w\<lparr>w_log := w_log w @ [''request'']\<rparr>) \<and> rs_Cookies resp = [] \<and>
    (if find_route (routes s am) r = None
     then rs_Status resp = 404 \<and> rs_Body resp = BodyJson (JObject [(''error'', JString ''not found'')])
     else rs_Status resp = 401 \<and> rs_Body resp = BodyJson (JObject [(''error'', JString ''authentication required'')]))"
proof (cases "find_route (routes s am) (tagged am r)")
  case None
  with assms(1) have "mux s am (tagged am r) w = (Reply (writeError 404 ''not found''), w)"
    by (simp add: mux_def reply_def protected_api)
  from Handler_reply [OF this] None show ?thesis by (simp add: find_route_None)
next
  case (Some hv)
  obtain h vals where hv: "hv = (h, vals)" by fastforce
  obtain h' where h': "h = requireAuth s am h'"
    by (rule protected_route [OF Some [unfolded hv]]) (use assms(1) in simp_all)
  let ?r = "(tagged am r)\<lparr>rq_PathValue := path_values vals\<rparr>"
  have "requireAuth s am h' ?r w = (Reply (writeError 401 ''authentication required''), w)"
    by (rule requireAuth_refuses) (use assms(2) in simp)
  then have "mux s am (tagged am r) w = (Reply (writeError 401 ''authentication required''), w)"
    by (simp add: mux_def Some hv h')
  moreover have "find_route (routes s am) r \<noteq> None"
    using Some find_route_None [of "routes s am" "tagged am r"] find_route_None [of "routes s am" r] by auto
  ultimately show ?thesis using Handler_reply by fastforce
qed

section \<open>A concrete server\<close>

definition demo_ambience :: ambience where
  "demo_ambience = \<lparr>am_env = demo_env, am_flt = no_faults, am_crypto = demo_crypto, am_unicode = demo_unicode,
     am_detect = (\<lambda>_. ''text/plain''), am_collate = length, am_dummyHash = [], am_requestID = Some (\<lambda>_. 10),
     am_salt = Some (\<lambda>_. 3), am_token = Some (\<lambda>_. 9), am_csrf = Some (\<lambda>_. 4), am_invite = Some (\<lambda>_. 8),
     am_uuid = demo_id ''21'', am_stage = demo_random 5,
     am_attempts = (\<lambda>_. \<lparr>at_env = demo_env, at_flt = no_faults, at_rival = (\<lambda>w. w), at_id = demo_id ''11''\<rparr>),
     am_rival1 = (\<lambda>w. w), am_rival2 = (\<lambda>w. w), am_rows = None\<rparr>"

definition demo_server :: server where
  "demo_server = NewServer NewService (NewRepo demo_store 100) False 100 None"

definition demo_get :: "string \<Rightarrow> string list \<Rightarrow> (string \<times> string) list \<Rightarrow> request" where
  "demo_get m segs cks = \<lparr>rq_Method = m, rq_Path = ''/'', rq_Segments = segs, rq_PathValue = (\<lambda>_. []), rq_Cookies = cks,
     rq_Header = (\<lambda>_. []), rq_Query = (\<lambda>_. []), rq_RemoteAddr = ''10.0.0.7:4711'',
     rq_Json = \<lparr>jb_first = None, jb_next = None\<rparr>, rq_Multipart = None, rq_User = None, rq_RequestID = []\<rparr>"

lemma demo_get_simps [simp]:
  "rq_Method (demo_get m segs cks) = m" "rq_Segments (demo_get m segs cks) = segs" "rq_Cookies (demo_get m segs cks) = cks"
  "rq_Header (demo_get m segs cks) x = []" "rq_User (demo_get m segs cks) = None"
  by (simp_all add: demo_get_def)

theorem no_session_no_service_witness:
  "\<exists>resp w'. Handler demo_server demo_ambience (demo_get ''DELETE'' [''api'', ''files'', ''x''] []) demo_world = (Reply resp, w') \<and>
     rs_Status resp = 401 \<and> w_db w' = w_db demo_world"
proof -
  let ?r = "demo_get ''DELETE'' [''api'', ''files'', ''x''] []"
  have "protected_path (rq_Segments ?r)" by (simp add: protected_path_def)
  moreover have "find_route (routes demo_server demo_ambience) ?r \<noteq> None"
    by (simp add: routes_def public_routes_def account_routes_def file_routes_def method_matches_def)
  ultimately show ?thesis
    using no_session_no_service [of ?r demo_ambience demo_server demo_world] by fastforce
qed

section \<open>No change without the CSRF token\<close>

definition csrf_ok :: "request \<Rightarrow> bool" where
  "csrf_ok r \<longleftrightarrow> rq_Header r ''X-CSRF-Token'' \<noteq> [] \<and>
     map_of (rq_Cookies r) csrfCookie = Some (rq_Header r ''X-CSRF-Token'')"

lemma requireCSRF_refuses:
  assumes "\<not> csrf_ok r"
  shows "\<exists>msg. requireCSRF h r w = (Reply (writeError 403 msg), w)"
  using assms by (auto simp: requireCSRF_def csrf_ok_def reply_def split: option.split)

text \<open>Routes that need the token: all that are not \<^verbatim>\<open>GET\<close>, the logout aside.\<close>

definition csrf_guarded :: "server \<Rightarrow> ambience \<Rightarrow> handler \<Rightarrow> bool" where
  "csrf_guarded s am h \<longleftrightarrow>
     (\<exists>h'. h = requireAuth s am (requireCSRF h')) \<or> (\<exists>h'. h = requireAuth s am (requireAdmin am (requireCSRF h')))"

lemma csrf_guarded_simps [simp]:
  "csrf_guarded s am (requireAuth s am (requireCSRF h'))"
  "csrf_guarded s am (requireAuth s am (requireAdmin am (requireCSRF h')))"
  by (auto simp: csrf_guarded_def)

lemma unsafe_routes:
  assumes "(m, pat, h) \<in> set (account_routes s am) \<union> set (file_routes s am) \<union> set (admin_routes s am)"
    and "m \<noteq> ''GET''" and "pat \<noteq> [Lit ''api'', Lit ''auth'', Lit ''logout'']"
  shows "csrf_guarded s am h"
proof -
  have "\<forall>(m, pat, h)\<in>set (account_routes s am) \<union> set (file_routes s am) \<union> set (admin_routes s am).
      m = ''GET'' \<or> pat = [Lit ''api'', Lit ''auth'', Lit ''logout''] \<or> csrf_guarded s am h"
    by (simp add: account_routes_def file_routes_def admin_routes_def)
  with assms show ?thesis by blast
qed

definition refusal :: "response \<Rightarrow> bool" where
  "refusal resp \<longleftrightarrow> rs_Status resp \<in> {401, 403, 404} \<and> rs_Cookies resp = []"

lemma refusal_writeError [simp]: "refusal (writeError n msg) \<longleftrightarrow> n = 401 \<or> n = 403 \<or> n = 404"
  by (simp add: refusal_def)

lemma guarded_reply:
  assumes "\<not> csrf_ok r" and "csrf_guarded s am h"
  shows "\<exists>resp w'. h r w = (Reply resp, w') \<and> refusal resp \<and> untouched_by am r w w'"
proof (cases "map_of (rq_Cookies r) sessionCookie")
  case None
  with assms(2) show ?thesis by (auto simp: requireAuth_def reply_def csrf_guarded_def)
next
  case (Some token)
  obtain v w1 where v: "ValidateSession (am_env am) (am_crypto am) (srv_auth s) token w = (v, w1)" by fastforce
  have w1: "untouched_by am r w w1"
    using ValidateSession_untouched [of "am_crypto am" token "am_env am" w "srv_auth s"] v Some
    by (simp add: request_session_def)
  show ?thesis
  proof (cases v)
    case (Inl e)
    with assms(2) Some v w1 show ?thesis by (auto simp: requireAuth_def reply_def csrf_guarded_def)
  next
    case (Inr u)
    have csrf: "\<exists>msg. requireCSRF h' (r\<lparr>rq_User := Some u\<rparr>) w1 = (Reply (writeError 403 msg), w1)" for h'
      using requireCSRF_refuses [of "r\<lparr>rq_User := Some u\<rparr>" h' w1] assms(1) by (auto simp: csrf_ok_def)
    have denied: "untouched_by am r w (auditDenied env x act target w1)" for env x act target
      unfolding auditDenied_def by (rule untouched_Record_after [OF w1])
    have admin: "\<exists>resp w'. requireAdmin am (requireCSRF h') (r\<lparr>rq_User := Some u\<rparr>) w1 = (Reply resp, w') \<and> refusal resp \<and> untouched_by am r w w'" for h'
      using csrf [of h'] w1 denied by (cases "IsAdmin u") (auto simp: requireAdmin_def reply_def)
    have plain: "\<exists>resp w'. requireCSRF h' (r\<lparr>rq_User := Some u\<rparr>) w1 = (Reply resp, w') \<and> refusal resp \<and> untouched_by am r w w'" for h'
      using csrf [of h'] w1 by auto
    from assms(2) Some v Inr admin plain show ?thesis
      by (auto simp: requireAuth_def csrf_guarded_def)
  qed
qed

text \<open>
  C7 No change without the CSRF token: a request to the files, the administration or the password
  change with a method other than GET or HEAD, whose token header is empty or differs from the token
  cookie, is refused, and every account, failure counter, file, grant, invite, object and session stays as it was, but
  for the session whose token the request carries, which may have its last use set to now; the audit trail at most
  grows. (The public routes and the logout ask for no token and are not meant here.)
\<close>

theorem csrf_stops_changes:
  assumes "rq_Method r \<notin> {''GET'', ''HEAD''}" and "\<not> csrf_ok r"
    and "(\<exists>x rest. rq_Segments r = ''api'' # x # rest \<and> (x = ''files'' \<or> x = ''admin'')) \<or>
      rq_Segments r = [''api'', ''auth'', ''password'']"
  shows "\<exists>resp w'. Handler s am r w = (Reply resp, w') \<and> rs_Status resp \<in> {401, 403, 404} \<and> rs_Cookies resp = [] \<and> untouched_by am r w w'"
proof -
  let ?r = "tagged am r"
  have prot: "protected_path (rq_Segments ?r)" using assms(3) by (auto simp: protected_path_def)
  have no_csrf: "\<not> csrf_ok (?r\<lparr>rq_PathValue := f\<rparr>)" for f using assms(2) by (simp add: csrf_ok_def)
  have "\<exists>resp w'. mux s am ?r w = (Reply resp, w') \<and> refusal resp \<and> untouched_by am r w w'"
  proof (cases "find_route (routes s am) ?r")
    case None
    with protected_api [OF prot] show ?thesis by (simp add: mux_def reply_def)
  next
    case (Some hv)
    obtain h vals where hv: "hv = (h, vals)" by fastforce
    obtain m pat where row: "(m, pat, h) \<in> set (routes s am)" "method_matches m (rq_Method ?r)" "match_path pat (rq_Segments ?r) = Some vals"
      by (rule find_route_Some [OF Some [unfolded hv]])
    have "(m, pat, h) \<notin> set (public_routes s am)" using public_not_protected [OF _ row(3)] prot by blast
    then have "(m, pat, h) \<in> set (account_routes s am) \<union> set (file_routes s am) \<union> set (admin_routes s am)"
      using row(1) by (simp add: routes_def)
    moreover have "m \<noteq> ''GET''" using row(2) assms(1) by (auto simp: method_matches_def)
    moreover have "pat \<noteq> [Lit ''api'', Lit ''auth'', Lit ''logout'']"
      using row(3) assms(3) by (auto simp: match_path_Nil split: if_splits)
    ultimately have "csrf_guarded s am h" by (rule unsafe_routes)
    from guarded_reply [OF no_csrf this, of "path_values vals" w] show ?thesis
      by (simp add: mux_def Some hv request_session_def)
  qed
  then obtain resp w' where "mux s am ?r w = (Reply resp, w')" "refusal resp" "untouched_by am r w w'" by blast
  from Handler_reply [OF this(1)] this(2,3) show ?thesis by (simp add: refusal_def)
qed

theorem csrf_stops_changes_witness:
  "\<exists>resp w'. Handler demo_server demo_ambience (demo_get ''DELETE'' [''api'', ''files'', ''x''] [(''sv_session'', ''t''), (''sv_csrf'', ''c'')])
     demo_world = (Reply resp, w') \<and> untouched (Some (HashToken demo_crypto ''t'')) (en_now demo_env) demo_world w'"
proof -
  let ?r = "demo_get ''DELETE'' [''api'', ''files'', ''x''] [(''sv_session'', ''t''), (''sv_csrf'', ''c'')]"
  have "rq_Method ?r \<notin> {''GET'', ''HEAD''}" "\<not> csrf_ok ?r" by (simp_all add: csrf_ok_def)
  from csrf_stops_changes [OF this, of demo_server demo_ambience demo_world] show ?thesis
    by (auto simp: request_session_def sessionCookie_def demo_ambience_def)
qed

end
