(* ===== verification/Api_Properties.thy ===== *)
theory Api_Properties
  imports Api_Guards
begin

text \<open>
  What every request can rely on: hidden administration, controlled replies, reads without effects, headers that
  cannot be broken out of.
\<close>

section \<open>The administration is hidden\<close>

lemma find_route_cong:
  "rq_Method r' = rq_Method r \<Longrightarrow> rq_Segments r' = rq_Segments r \<Longrightarrow> find_route rts r' = find_route rts r"
  by (induction rts r rule: find_route.induct) (auto split: option.split)

lemma admin_path_not_public:
  "(m, pat, h) \<in> set (public_routes s am) \<union> set (account_routes s am) \<union> set (file_routes s am) \<Longrightarrow>
   match_path pat (''api'' # ''admin'' # rest) = None"
  by (auto simp: public_routes_def account_routes_def file_routes_def)

lemma admin_route:
  assumes "find_route (routes s am) r = Some (h, vals)" and "rq_Segments r = ''api'' # ''admin'' # rest"
  obtains h' where "h = requireAuth s am (requireAdmin am h')"
proof -
  obtain m pat where m: "(m, pat, h) \<in> set (routes s am)" "match_path pat (rq_Segments r) = Some vals"
    by (rule find_route_Some [OF assms(1)])
  have "(m, pat, h) \<in> set (admin_routes s am)"
    using m admin_path_not_public [of m pat h s am rest] by (auto simp: routes_def assms(2))
  then have "\<exists>h'. h = requireAuth s am (requireAdmin am h')" by (auto simp: admin_routes_def)
  with that show thesis by blast
qed

text \<open>
  C18 The administration does not show itself: to a live session of an account without the administrator role,
  every path below \<^verbatim>\<open>/api/admin\<close> gives, header for header, the reply of a path that does not exist, whatever
  the method and body; where there is such a route, all that happens is the session's time stamp and one
  \<^verbatim>\<open>admin.access\<close> denial that names the account, the path and the request.
\<close>

theorem admin_surface_is_hidden:
  assumes "rq_Segments r = ''api'' # ''admin'' # rest" and "map_of (rq_Cookies r) sessionCookie = Some token"
    and "ValidateSession (am_env am) (am_crypto am) (srv_auth s) token w = (Inr u, w1)" and "\<not> IsAdmin u"
  shows "\<exists>w'. Handler s am r w = (Reply (dressed am (writeError 404 ''not found'')), w') \<and>
    w_fs w' = w_fs w \<and> w_db w' = (if find_route (routes s am) r = None then w_db w
       else w_db (Record (am_env am) \<lparr>ev_ActorID = u_ID u, ev_ActorName = u_Username u, ev_Action = ''admin.access'',
              ev_Target = rq_Path r, ev_Result = ResultDenied, ev_Reason = ''no_grant'',
              ev_RequestID = rq_RequestID (tagged am r)\<rparr> w1))"
proof -
  let ?r = "tagged am r"
  have same: "find_route (routes s am) ?r = find_route (routes s am) r"
    using find_route_cong [of ?r r] by simp
  show ?thesis
  proof (cases "find_route (routes s am) r")
    case None
    then have "mux s am ?r w = (Reply (writeError 404 ''not found''), w)"
      using assms(1) by (simp add: mux_def same reply_def api_path_def)
    from Handler_reply [OF this] None show ?thesis by simp
  next
    case (Some hv)
    obtain h vals where hv: "hv = (h, vals)" by fastforce
    obtain h' where h': "h = requireAuth s am (requireAdmin am h')"
      by (rule admin_route [OF Some [unfolded hv] assms(1)])
    let ?q = "?r\<lparr>rq_PathValue := path_values vals, rq_User := Some u\<rparr>"
    have "mux s am ?r w = (Reply (writeError 404 ''not found''), auditDenied (am_env am) ?q ''admin.access'' (rq_Path r) w1)"
      using assms(2-4) by (simp add: mux_def same Some hv h' requireAuth_def requireAdmin_def reply_def)
    from Handler_reply [OF this] Some ValidateSession_untouched [of "am_crypto am" token "am_env am" w "srv_auth s"] assms(3)
    show ?thesis by (simp add: auditDenied_def untouched_def)
  qed
qed

text \<open>A world in which an ordinary account has a live session under the token \<open>t\<close>.\<close>

definition demo_session :: world where
  "demo_session = demo_world\<lparr>w_db := demo_db\<lparr>sessions := [\<lparr>se_user = demo_id ''02'', se_token_hash = HashToken demo_crypto ''t'',
     se_created = en_now demo_env, se_expires = en_now demo_env + 4 * hour, se_last_seen = en_now demo_env\<rparr>]\<rparr>\<rparr>"

definition demo_cookies :: "(string \<times> string) list" where
  "demo_cookies = [(''sv_session'', ''t''), (''sv_csrf'', ''c'')]"

lemma demo_session_valid:
  obtains w1 where "ValidateSession demo_env demo_crypto NewService ''t'' demo_session =
    (Inr \<lparr>u_ID = demo_id ''02'', u_Username = ''bob'', u_Role = ''user''\<rparr>, w1)"
proof -
  have "user_by_id (demo_id ''02'') (w_db demo_session) = Some (demo_user_row ''02'' ''bob'' ''user'')"
    by (simp add: user_by_id_def demo_session_def demo_db_def demo_user_row_def table_simps demo_id_def)
  then have "\<exists>w1. ValidateSession demo_env demo_crypto NewService ''t'' demo_session =
      (Inr \<lparr>u_ID = demo_id ''02'', u_Username = ''bob'', u_Role = ''user''\<rparr>, w1)"
    by (simp add: ValidateSession_def Let_def demo_session_def session_live_def table_simps demo_env_def NewService_def
        sessionIdleTTL_def demo_user_row_def)
  with that show thesis by blast
qed

theorem admin_surface_is_hidden_witness:
  "\<exists>w' w''. Handler demo_server demo_ambience (demo_get ''GET'' [''api'', ''admin'', ''audit''] demo_cookies) demo_session =
       (Reply (dressed demo_ambience (writeError 404 ''not found'')), w') \<and>
     Handler demo_server demo_ambience (demo_get ''GET'' [''api'', ''nowhere''] demo_cookies) demo_session =
       (Reply (dressed demo_ambience (writeError 404 ''not found'')), w'')"
proof -
  let ?r = "demo_get ''GET'' [''api'', ''admin'', ''audit''] demo_cookies"
  obtain w1 where v: "ValidateSession demo_env demo_crypto NewService ''t'' demo_session =
    (Inr \<lparr>u_ID = demo_id ''02'', u_Username = ''bob'', u_Role = ''user''\<rparr>, w1)" by (rule demo_session_valid)
  have am: "am_env demo_ambience = demo_env" "am_crypto demo_ambience = demo_crypto" "srv_auth demo_server = NewService"
    by (simp_all add: demo_ambience_def demo_server_def NewServer_def)
  have "\<exists>w'. Handler demo_server demo_ambience ?r demo_session = (Reply (dressed demo_ambience (writeError 404 ''not found'')), w')"
    using admin_surface_is_hidden [of ?r "[''audit'']" "''t''" demo_ambience demo_server demo_session] v
    by (auto simp: am demo_cookies_def sessionCookie_def IsAdmin_def roleAdmin_def)
  moreover have "mux demo_server demo_ambience (tagged demo_ambience (demo_get ''GET'' [''api'', ''nowhere''] demo_cookies)) demo_session =
      (Reply (writeError 404 ''not found''), demo_session)"
    by (simp add: mux_def routes_def public_routes_def account_routes_def file_routes_def admin_routes_def method_matches_def
        api_path_def reply_def)
  ultimately show ?thesis using Handler_reply by blast
qed

section \<open>Every request is answered\<close>

text \<open>A reply whose error text, if it reports a failure of the server, is one of two fixed ones.\<close>

definition controlled :: "response \<Rightarrow> bool" where
  "controlled resp \<longleftrightarrow> (rs_Status resp < 500 \<or> rs_Status resp = 500 \<and>
     (rs_Body resp = BodyJson (JObject [(''error'', JString ''internal error'')]) \<or>
      rs_Body resp = BodyJson (JObject [(''error'', JString ''stored object failed integrity verification'')])))"

definition answered :: "outcome \<times> world \<Rightarrow> bool" where
  "answered x \<longleftrightarrow> (case fst x of Reply resp \<Rightarrow> controlled resp | Panic _ \<Rightarrow> False)"

lemma answered_reply [simp]: "answered (reply resp w) \<longleftrightarrow> controlled resp"
  by (simp add: answered_def reply_def)

lemma controlled_below [simp]:
  "controlled (writeJSON n v)" if "n < 500" using that by (simp add: controlled_def writeJSON_def)

lemma controlled_simps [simp]:
  "n < 500 \<Longrightarrow> controlled (writeError n msg)" "controlled (resp\<lparr>rs_Cookies := cks\<rparr>) = controlled resp"
  "controlled (status_reply m)" "controlled malformed_body" "controlled missing_file"
  "controlled (writeError 500 ''internal error'')"
  "controlled \<lparr>rs_Status = 200, rs_Headers = hs, rs_Cookies = cks, rs_Body = b\<rparr>"
  by (simp_all add: controlled_def status_reply_def malformed_body_def missing_file_def writeError_def writeJSON_def)

lemma controlled_service_error: "controlled (fst (writeServiceError u e w))"
  by (auto simp: writeServiceError_def internal_error_def controlled_def writeError_def writeJSON_def
      split: service_error.split auth_error.split files_error.split)

lemma answered_error [simp]: "answered (reply_error am e w)"
  using controlled_service_error [of "am_unicode am" e w] by (auto simp: reply_error_def answered_def split: prod.split)

lemma answered_session [simp]: "rs_Status resp < 500 \<Longrightarrow> answered (reply_with_session s am tok resp w)"
  using controlled_service_error [of "am_unicode am" OtherError w]
  by (auto simp: reply_with_session_def controlled_def split: prod.split bool.split)

text \<open>Handlers behind \<open>requireAuth\<close> find the account and the session cookie.\<close>

definition authenticated :: "request \<Rightarrow> bool" where
  "authenticated r \<longleftrightarrow> rq_User r \<noteq> None \<and> map_of (rq_Cookies r) sessionCookie \<noteq> None"

definition serves_users :: "handler \<Rightarrow> bool" where
  "serves_users h \<longleftrightarrow> (\<forall>r w. authenticated r \<longrightarrow> answered (h r w))"

definition serves_all :: "handler \<Rightarrow> bool" where
  "serves_all h \<longleftrightarrow> (\<forall>r w. answered (h r w))"

lemma status_writeJSON [simp]: "rs_Status (writeJSON n v) = n" "rs_Status (status_reply m) = 200"
  by (simp_all add: writeJSON_def status_reply_def)

lemma serves_users_files:
  "serves_users (handleList am)" "serves_users (handleStat am)" "serves_users (handleDownload s am)"
  "serves_users (handleRename am)" "serves_users (handleDelete s am)" "serves_users (handleShare am)" "serves_users (handleRevoke am)"
  by (auto simp: serves_users_def authenticated_def handleList_def handleStat_def handleDownload_def handleRename_def
      handleDelete_def handleShare_def handleRevoke_def split: option.split prod.split sum.split)

lemma serves_users_accounts:
  "serves_users (handleLogout s am)" "serves_users handleMe" "serves_users (handleChangePassword s am)"
  by (auto simp: serves_users_def authenticated_def handleLogout_def handleMe_def handleChangePassword_def
      split: option.split prod.split sum.split)

lemma answered_parts: "answered (upload_parts s am p fin stop left pts w)"
  by (induction s am p fin stop left pts w rule: upload_parts.induct)
    (auto simp: part_error_def Let_def split: prod.split sum.split)

lemma serves_users_upload: "serves_users (handleUpload s am)"
  by (auto simp: serves_users_def authenticated_def handleUpload_def answered_parts split: option.split prod.split)

lemma serves_all_admin:
  "serves_all (handleAdminUsers am)" "serves_all (handleAdminAudit am)" "serves_all (handleAdminInvites am)"
  "serves_all (handleAdminCreateInvite am)" "serves_all (handleAdminRevokeInvite am)"
  by (auto simp: serves_all_def handleAdminUsers_def handleAdminAudit_def handleAdminInvites_def handleAdminCreateInvite_def
      handleAdminRevokeInvite_def split: option.split prod.split sum.split)

lemma serves_all_public:
  "serves_all handleHealth" "serves_all (handleRegistrationStatus s am)" "serves_all (handleRegister s am)" "serves_all (handleLogin s am)"
  by (auto simp: serves_all_def handleHealth_def handleRegistrationStatus_def handleRegister_def handleLogin_def
      split: option.split prod.split sum.split)

lemma serves_all_users: "serves_all h \<Longrightarrow> serves_users h"
  by (simp add: serves_all_def serves_users_def)

lemma serves_guards:
  "serves_users h \<Longrightarrow> serves_users (requireCSRF h)" "serves_users h \<Longrightarrow> serves_users (requireAdmin am h)"
  "serves_users h \<Longrightarrow> serves_all (requireAuth s am h)"
  by (auto simp: serves_users_def serves_all_def requireCSRF_def requireAdmin_def requireAuth_def authenticated_def
      split: option.split prod.split sum.split)

lemmas serves_handlers = serves_users_files serves_users_accounts serves_users_upload serves_all_public
  serves_all_admin [THEN serves_all_users]

lemma routes_serve: "(m, pat, h) \<in> set (routes s am) \<Longrightarrow> serves_all h"
  unfolding routes_def public_routes_def account_routes_def file_routes_def admin_routes_def
  by (simp only: set_append set_simps Un_iff insert_iff empty_iff prod.inject)
    (elim disjE conjE FalseE; hypsubst; intro serves_guards serves_handlers)

lemma mux_answers:
  assumes "api_path (rq_Segments r)"
  shows "answered (mux s am r w)"
proof (cases "find_route (routes s am) r")
  case None
  with assms show ?thesis by (simp add: mux_def)
next
  case (Some hv)
  obtain h vals where hv: "hv = (h, vals)" by fastforce
  obtain m pat where "(m, pat, h) \<in> set (routes s am)" by (rule find_route_Some [OF Some [unfolded hv]])
  from routes_serve [OF this] show ?thesis by (simp add: mux_def Some hv serves_all_def)
qed

text \<open>
  C21 Every request to the API is answered: the multiplexer with its guards and handlers, below the recovery wrapper,
  replies and never panics, whatever the request, the state, the failing calls and the random values, and the whole chain
  passes this reply on with its headers added; a reply that reports an error of the server says no more than one of two
  fixed sentences; and every reply carries all security headers and a request identifier of 16 digits.
\<close>

theorem every_request_is_answered:
  assumes "api_path (rq_Segments r)"
  shows "\<exists>inner w1 resp w'. mux s am (tagged am r) w = (Reply inner, w1) \<and>
    Handler s am r w = (Reply resp, w') \<and> resp = dressed am inner \<and> w' = w1\<lparr>w_log := w_log w1 @ [''request'']\<rparr> \<and>
    controlled resp \<and> set security_headers \<subseteq> set (rs_Headers resp) \<and>
    (\<exists>i. (''X-Request-Id'', i) \<in> set (rs_Headers resp) \<and> length i = 16)"
proof -
  have "answered (mux s am (tagged am r) w)" by (rule mux_answers) (simp add: assms)
  then obtain resp w1 where m: "mux s am (tagged am r) w = (Reply resp, w1)" and c: "controlled resp"
    by (cases "mux s am (tagged am r) w") (auto simp: answered_def split: outcome.split_asm)
  have "controlled (dressed am resp)" using c by (simp add: controlled_def)
  moreover have "length (hex_encode (case rand_read 8 (am_requestID am) of Some b \<Rightarrow> b | None \<Rightarrow> replicate 8 0)) = 16"
    by (auto simp: length_hex_encode dest: rand_read_length split: option.split)
  ultimately show ?thesis
    using Handler_reply [OF m] m by (fastforce simp: dressed_def)
qed

theorem every_request_is_answered_witness:
  "\<exists>resp w'. Handler demo_server demo_ambience (demo_get ''PUT'' [''api'', ''files'', ''x'', ''shares''] []) demo_world = (Reply resp, w') \<and>
     (''X-Content-Type-Options'', ''nosniff'') \<in> set (rs_Headers resp)"
proof -
  have "api_path (rq_Segments (demo_get ''PUT'' [''api'', ''files'', ''x'', ''shares''] []))" by (simp add: api_path_def)
  from every_request_is_answered [OF this, of demo_server demo_ambience demo_world] show ?thesis
    by (auto simp: security_headers_def)
qed

section \<open>Reading changes nothing\<close>

definition reads_only :: "ambience \<Rightarrow> handler \<Rightarrow> bool" where
  "reads_only am h \<longleftrightarrow> (\<forall>r w. untouched_by am r w (snd (h r w)))"

lemma untouched_error [simp]: "untouched H t w (snd (reply_error am e w')) \<longleftrightarrow> untouched H t w w'"
  by (auto simp: reply_error_def writeServiceError_def internal_error_def
      split: service_error.split auth_error.split files_error.split)

lemma snd_reply_same [simp]: "snd (reply resp w) = w"
  by (simp add: reply_def)

lemma authorize_untouched: "authorize env p i act w = (res, w') \<Longrightarrow> untouched H t w w'"
  by (auto simp: authorize_def split: sum.splits files_error.splits if_splits)

lemma Stat_untouched: "Stat env col p i w = (res, w') \<Longrightarrow> untouched H t w w'"
  by (auto simp: Stat_def dest: authorize_untouched split: sum.split_asm prod.split_asm if_split_asm)

lemma Download_untouched: "Download env flt c r p i w = (res, w') \<Longrightarrow> untouched H t w w'"
  by (auto simp: Download_def Let_def dest: authorize_untouched intro!: untouched_Record_after
      split: sum.split_asm prod.split_asm)

lemma List_same: "List env p w = (res, w') \<Longrightarrow> w' = w"
  by (auto simp: List_def split: sum.split_asm)

lemma reads_handlers:
  "reads_only am (handleList am)" "reads_only am (handleStat am)" "reads_only am (handleDownload s am)" "reads_only am handleMe"
  "reads_only am handleHealth" "reads_only am (handleRegistrationStatus s am)"
  "reads_only am (handleAdminUsers am)" "reads_only am (handleAdminAudit am)" "reads_only am (handleAdminInvites am)"
  by (auto simp: reads_only_def handleList_def handleStat_def handleDownload_def handleMe_def handleHealth_def
      handleRegistrationStatus_def handleAdminUsers_def handleAdminAudit_def handleAdminInvites_def
      dest: Stat_untouched Download_untouched List_same split: option.split prod.split sum.split)

lemma reads_guards:
  "reads_only am h \<Longrightarrow> reads_only am (requireAdmin am h)"
  "reads_only am h \<Longrightarrow> reads_only am (requireAuth s am h)"
proof -
  show "reads_only am h \<Longrightarrow> reads_only am (requireAdmin am h)"
    by (auto simp: reads_only_def requireAdmin_def auditDenied_def split: option.split)
  assume h: "reads_only am h"
  have user: "untouched_by am r w1 (snd (h (r\<lparr>rq_User := u\<rparr>) w1))" for r u w1
    using h [unfolded reads_only_def, rule_format, of "r\<lparr>rq_User := u\<rparr>" w1] by (simp add: request_session_def)
  show "reads_only am (requireAuth s am h)"
    unfolding reads_only_def
  proof (intro allI)
    fix r w
    show "untouched_by am r w (snd (requireAuth s am h r w))"
    proof (cases "map_of (rq_Cookies r) sessionCookie")
      case None
      then show ?thesis by (simp add: requireAuth_def)
    next
      case (Some token)
      obtain v w1 where v: "ValidateSession (am_env am) (am_crypto am) (srv_auth s) token w = (v, w1)" by fastforce
      have w1: "untouched_by am r w w1"
        using ValidateSession_untouched [of "am_crypto am" token "am_env am" w "srv_auth s"] v Some
        by (simp add: request_session_def)
      with v Some untouched_trans [OF w1 user] show ?thesis by (cases v) (simp_all add: requireAuth_def)
    qed
  qed
qed

lemma get_routes:
  assumes "(m, pat, h) \<in> set (routes s am)" and "m \<in> {''GET'', ''HEAD''}"
  shows "reads_only am h"
proof -
  have "\<forall>(m, pat, h)\<in>set (routes s am). m \<in> {''GET'', ''HEAD''} \<longrightarrow> reads_only am h"
    by (simp add: routes_def public_routes_def account_routes_def file_routes_def admin_routes_def reads_guards reads_handlers)
  with assms show ?thesis by blast
qed

text \<open>
  C22 Reading changes nothing: whatever a GET or HEAD request asks for and under whatever session, no account,
  session, failure counter, file, object, grant or invite changes, but for the session whose token the request carries,
  which may have its last use set to now; the audit trail at most grows.
\<close>

theorem reads_change_nothing:
  assumes "rq_Method r \<in> {''GET'', ''HEAD''}"
  shows "untouched_by am r w (snd (Handler s am r w))"
proof -
  have "untouched_by am (tagged am r) w (snd (mux s am (tagged am r) w))"
  proof (cases "find_route (routes s am) (tagged am r)")
    case None
    then show ?thesis by (auto simp: mux_def spaHandler_def Let_def split: option.split)
  next
    case (Some hv)
    obtain h vals where hv: "hv = (h, vals)" by fastforce
    obtain m pat where row: "(m, pat, h) \<in> set (routes s am)" "method_matches m (rq_Method (tagged am r))"
      by (rule find_route_Some [OF Some [unfolded hv]])
    have safe: "m \<in> {''GET'', ''HEAD''}" using row(2) assms by (auto simp: method_matches_def)
    have "untouched_by am ((tagged am r)\<lparr>rq_PathValue := path_values vals\<rparr>) w
        (snd (h ((tagged am r)\<lparr>rq_PathValue := path_values vals\<rparr>) w))"
      using get_routes [OF row(1) safe] unfolding reads_only_def by blast
    then show ?thesis by (simp add: mux_def Some hv request_session_def)
  qed
  then have "untouched_by am r w (snd (mux s am (r\<lparr>rq_RequestID := rq_RequestID (tagged am r)\<rparr>) w))"
    by (simp add: tagged_def request_session_def)
  then show ?thesis
    by (auto simp: Handler_def withRequestID_def withRecovery_def withLogging_def withSecurityHeaders_def add_headers_def
        tagged_def Let_def case_prod_unfold split: outcome.split)
qed

theorem reads_change_nothing_witness:
  "untouched (Some (HashToken demo_crypto ''t'')) (en_now demo_env) demo_session
     (snd (Handler demo_server demo_ambience (demo_get ''HEAD'' [''api'', ''files''] demo_cookies) demo_session))"
  using reads_change_nothing [of "demo_get ''HEAD'' [''api'', ''files''] demo_cookies" demo_ambience demo_session demo_server]
  by (simp add: request_session_def demo_cookies_def sessionCookie_def demo_ambience_def)

section \<open>The name in the header of a download\<close>

lemma percent_encode_simps:
  "percent_encode [] = []" "percent_encode (c # s) = (if attribute_char c then [c] else percent_byte c) @ percent_encode s"
  by (simp_all add: percent_encode_def)

lemma attribute_char_plain: "attribute_char c \<Longrightarrow> c \<noteq> CHR ''%''"
  by (auto simp: attribute_char_def)

lemma upperhex_inject: "i < 16 \<Longrightarrow> j < 16 \<Longrightarrow> upperhex ! i = upperhex ! j \<longleftrightarrow> i = j"
  by (subst nth_eq_iff_index_eq) (simp_all add: upperhex_def)

lemma percent_byte_inject: "percent_byte c = percent_byte d \<longleftrightarrow> c = d"
proof -
  have "of_char c < (256 :: nat)" "of_char d < (256 :: nat)" by simp_all
  then have b: "of_char c div 16 < (16 :: nat)" "of_char d div 16 < (16 :: nat)"
    by (auto intro!: less_mult_imp_div_less)
  have m: "of_char c mod 16 < (16 :: nat)" "of_char d mod 16 < (16 :: nat)" by simp_all
  have "percent_byte c = percent_byte d \<longleftrightarrow>
      of_char c div 16 = (of_char d div 16 :: nat) \<and> of_char c mod 16 = (of_char d mod 16 :: nat)"
    by (simp add: percent_byte_def upperhex_inject b m)
  also have "\<dots> \<longleftrightarrow> of_char c = (of_char d :: nat)" by (metis div_mult_mod_eq)
  finally show ?thesis by simp
qed

lemma percent_encode_inject: "percent_encode s = percent_encode t \<Longrightarrow> s = t"
proof (induction s arbitrary: t)
  case Nil
  then show ?case by (cases t) (auto simp: percent_encode_simps percent_byte_def split: if_split_asm)
next
  case (Cons c s)
  obtain d t' where t: "t = d # t'" using Cons.prems by (cases t) (auto simp: percent_encode_simps percent_byte_def split: if_split_asm)
  have "c = d \<and> percent_encode s = percent_encode t'"
    using Cons.prems attribute_char_plain percent_byte_inject [of c d]
    by (auto simp: t percent_encode_simps percent_byte_def split: if_split_asm)
  with Cons.IH t show ?case by simp
qed

lemma quote_param_simps:
  "quote_param [] = []" "quote_param (c # s) = (if c = CHR 0x22 \<or> c = CHR 0x5C then [CHR 0x5C, c] else [c]) @ quote_param s"
  by (simp_all add: quote_param_def)

lemma quote_param_inject: "quote_param s = quote_param t \<Longrightarrow> s = t"
proof (induction s arbitrary: t)
  case Nil
  then show ?case by (cases t) (auto simp: quote_param_simps split: if_split_asm)
next
  case (Cons c s)
  obtain d t' where t: "t = d # t'" using Cons.prems by (cases t) (auto simp: quote_param_simps split: if_split_asm)
  have "c = d \<and> quote_param s = quote_param t'"
    using Cons.prems by (auto simp: t quote_param_simps split: if_split_asm)
  with Cons.IH t show ?case by simp
qed

lemma token_has_no_quote: "is_token s \<Longrightarrow> CHR 0x22 \<notin> set s"
  by (auto simp: is_token_def list_all_iff is_token_char_def is_tspecial_def)

text \<open>Bytes that may stand in a header line: printable ASCII and the tab.\<close>

definition header_byte :: "char \<Rightarrow> bool" where
  "header_byte c \<longleftrightarrow> (of_char c :: nat) = 9 \<or> 32 \<le> (of_char c :: nat) \<and> (of_char c :: nat) \<le> 126"

lemma percent_byte_header: "list_all header_byte (percent_byte c)"
proof -
  have b: "of_char c div 16 < (16 :: nat)" "of_char c mod 16 < (16 :: nat)" by (auto intro!: less_mult_imp_div_less)
  have "\<forall>i<16. header_byte (upperhex ! i)" by (simp add: upperhex_def header_byte_def numeral_eq_Suc All_less_Suc)
  with b show ?thesis by (simp add: percent_byte_def header_byte_def [of "CHR ''%''"])
qed

lemma disposition_header: "list_all header_byte (FormatMediaType ''attachment'' ''filename'' nm)"
proof -
  have enc: "list_all header_byte (percent_encode s)" for s
    using percent_byte_header
    by (induction s) (auto simp: percent_encode_simps attribute_char_def header_byte_def)
  have raw: "list_all header_byte s" if "\<not> needs_encoding s" for s
    using that by (auto simp: needs_encoding_def list_ex_iff list_all_iff header_byte_def not_less)
  have "list_all header_byte (quote_param s)" if "list_all header_byte s" for s
    using that by (induction s) (auto simp: quote_param_simps header_byte_def)
  with raw enc show ?thesis by (simp add: FormatMediaType_def header_byte_def)
qed

lemma disposition_faithful:
  "list_all header_byte (FormatMediaType ''attachment'' ''filename'' nm) \<and>
   (\<exists>rest. FormatMediaType ''attachment'' ''filename'' nm = ''attachment; filename'' @ rest) \<and>
   (FormatMediaType ''attachment'' ''filename'' nm = FormatMediaType ''attachment'' ''filename'' nm') = (nm = nm')"
proof -
  have tok: "is_token ''attachment''" "is_token ''filename''"
    by (simp_all add: is_token_def is_token_char_def is_tspecial_def)
  have q: "\<not> is_token (CHR 0x22 # s)" for s by (simp add: is_token_def is_token_char_def is_tspecial_def)
  have inject: "nm = nm'" if "FormatMediaType ''attachment'' ''filename'' nm = FormatMediaType ''attachment'' ''filename'' nm'"
    using that percent_encode_inject [of nm nm'] quote_param_inject [of nm nm'] q
    by (auto simp: FormatMediaType_def tok split: if_split_asm)
  then show ?thesis
    using disposition_header [of nm] by (auto simp: FormatMediaType_def tok)
qed

lemma error_has_no_disposition:
  "\<exists>resp w'. reply_error am e w = (Reply resp, w') \<and> 400 \<le> rs_Status resp \<and> map_of (rs_Headers resp) ''Content-Disposition'' = None"
  by (auto simp: reply_error_def writeServiceError_def internal_error_def writeError_def writeJSON_def
      split: service_error.split auth_error.split files_error.split)

text \<open>
  The name of a downloaded file stays inside its header and can be recovered from it: whatever bytes the
  stored name holds, the \<^verbatim>\<open>Content-Disposition\<close> of a download consists of printable ASCII and tabs (no line
  break, so no header can be added), it begins with the attachment type, and exactly one name gives this
  header; replies without it are errors.
\<close>

theorem download_header_is_faithful:
  "case fst (handleDownload s am r w) of
     Panic _ \<Rightarrow> rq_User r = None
   | Reply resp \<Rightarrow>
       (case map_of (rs_Headers resp) ''Content-Disposition'' of
          None \<Rightarrow> 400 \<le> rs_Status resp
        | Some v \<Rightarrow> rs_Status resp = 200 \<and> list_all header_byte v \<and> (\<exists>rest. v = ''attachment; filename'' @ rest) \<and>
            (\<exists>!nm. v = FormatMediaType ''attachment'' ''filename'' nm))"
proof (cases "\<exists>i p n plain w1. pathUUID (am_unicode am) r ''id'' = Some i \<and> rq_User r = Some p \<and>
    Download (am_env am) (am_flt am) (am_crypto am) (srv_files s) p i w = (Inr (n, plain), w1)")
  case True
  then obtain i p n plain w1 where h: "pathUUID (am_unicode am) r ''id'' = Some i" "rq_User r = Some p"
      "Download (am_env am) (am_flt am) (am_crypto am) (srv_files s) p i w = (Inr (n, plain), w1)" by blast
  have "\<exists>!nm. FormatMediaType ''attachment'' ''filename'' (nd_Name n) = FormatMediaType ''attachment'' ''filename'' nm"
    using disposition_faithful [of "nd_Name n"] by auto
  with h disposition_faithful [of "nd_Name n" "nd_Name n"] show ?thesis
    by (simp add: handleDownload_def reply_def)
next
  case False
  have err: "case fst (reply_error am e w1) of Panic _ \<Rightarrow> rq_User r = None
     | Reply resp \<Rightarrow> (case map_of (rs_Headers resp) ''Content-Disposition'' of None \<Rightarrow> 400 \<le> rs_Status resp
        | Some v \<Rightarrow> rs_Status resp = 200 \<and> list_all header_byte v \<and> (\<exists>rest. v = ''attachment; filename'' @ rest) \<and>
            (\<exists>!nm. v = FormatMediaType ''attachment'' ''filename'' nm))" for e w1
    using error_has_no_disposition [of am e w1] by auto
  show ?thesis
  proof (cases "pathUUID (am_unicode am) r ''id''")
    case None
    then show ?thesis by (simp add: handleDownload_def reply_def missing_file_def writeError_def writeJSON_def)
  next
    case (Some i)
    show ?thesis
    proof (cases "rq_User r")
      case None
      with Some show ?thesis by (simp add: handleDownload_def)
    next
      case (Some p)
      obtain res w1 where d: "Download (am_env am) (am_flt am) (am_crypto am) (srv_files s) p i w = (res, w1)" by fastforce
      obtain e where "res = Inl e" using False d Some \<open>pathUUID (am_unicode am) r ''id'' = Some i\<close> by (cases res) auto
      with d Some \<open>pathUUID (am_unicode am) r ''id'' = Some i\<close> err show ?thesis by (simp add: handleDownload_def)
    qed
  qed
qed

end
