(* ===== verification/Api_Contract.thy ===== *)
theory Api_Contract
  imports Api_Guards
begin

text \<open>
  What a property of the world needs in order to survive every HTTP request: that the operations of the
  services keep it. The handlers, the guards, the multiplexer and the chain are proved against this contract once.
\<close>

text \<open>Requests all of whose upload contents, cut off anywhere, satisfy \<open>good\<close>.\<close>

definition admissible :: "(bytes \<Rightarrow> bool) \<Rightarrow> request \<Rightarrow> bool" where
  "admissible good r \<longleftrightarrow> (case rq_Multipart r of None \<Rightarrow> True
     | Some b \<Rightarrow> \<forall>pt\<in>set (up_parts b). \<forall>n. good (take n (pt_content pt)))"

lemma admissible_updates [simp]:
  "admissible good (r\<lparr>rq_User := x\<rparr>) \<longleftrightarrow> admissible good r"
  "admissible good (r\<lparr>rq_PathValue := f\<rparr>) \<longleftrightarrow> admissible good r"
  "admissible good (r\<lparr>rq_RequestID := i\<rparr>) \<longleftrightarrow> admissible good r"
  by (simp_all add: admissible_def)

lemma admissible_any [simp]: "admissible (\<lambda>_. True) r"
  by (simp add: admissible_def split: option.split)

definition keeps :: "(bytes \<Rightarrow> bool) \<Rightarrow> (world \<Rightarrow> bool) \<Rightarrow> handler \<Rightarrow> bool" where
  "keeps good Q h \<longleftrightarrow> (\<forall>r w. admissible good r \<longrightarrow> Q w \<longrightarrow> Q (snd (h r w)))"

lemma keepsI: "(\<And>r w. admissible good r \<Longrightarrow> Q w \<Longrightarrow> Q (snd (h r w))) \<Longrightarrow> keeps good Q h"
  by (simp add: keeps_def)

lemma keepsD: "keeps good Q h \<Longrightarrow> admissible good r \<Longrightarrow> Q w \<Longrightarrow> Q (snd (h r w))"
  by (simp add: keeps_def)

lemma snd_reply [simp]: "snd (reply resp w) = w"
  by (simp add: reply_def)

section \<open>The contract\<close>

locale service_contract =
  fixes s :: server and am :: ambience and good :: "bytes \<Rightarrow> bool" and Q :: "world \<Rightarrow> bool"
  assumes logged: "Q w \<Longrightarrow> Q (w\<lparr>w_log := l\<rparr>)"
    and audited: "Q w \<Longrightarrow> Q (Record (am_env am) e w)"
    and validate: "Q w \<Longrightarrow> Q (snd (ValidateSession (am_env am) (am_crypto am) (srv_auth s) tok w))"
    and register: "Q w \<Longrightarrow> Q (snd (Register (am_env am) (am_crypto am) (am_unicode am) (am_salt am) (am_uuid am)
           (srv_auth s) nm pw code w))"
    and login: "Q w \<Longrightarrow> Q (snd (Login (am_env am) (am_crypto am) (am_token am) (am_dummyHash am) (srv_auth s) nm pw addr w))"
    and logout: "Q w \<Longrightarrow> Q (snd (Logout (am_env am) (am_crypto am) tok p w))"
    and change: "Q w \<Longrightarrow> Q (snd (ChangePassword (am_env am) (am_crypto am) (am_salt am) (am_token am) (srv_auth s) p cur new w))"
    and create: "Q w \<Longrightarrow> Q (snd (CreateInvite (am_env am) (am_crypto am) (am_invite am) (am_uuid am) adm note ttl w))"
    and withdraw: "Q w \<Longrightarrow> Q (snd (RevokeInvite (am_env am) adm i w))"
    and upload: "good (rd_data body) \<Longrightarrow> Q w \<Longrightarrow> Q (snd (Upload (am_env am) (am_flt am) (am_crypto am) (am_unicode am)
           (am_detect am) (srv_files s) (am_stage am) (am_attempts am) p nm mime body w))"
    and stat: "Q w \<Longrightarrow> Q (snd (Stat (am_env am) (am_collate am) p i w))"
    and download: "Q w \<Longrightarrow> Q (snd (Download (am_env am) (am_flt am) (am_crypto am) (srv_files s) p i w))"
    and rename: "Q w \<Longrightarrow> Q (snd (Rename (am_env am) (am_unicode am) p i nm w))"
    and delete: "Q w \<Longrightarrow> Q (snd (Delete (am_env am) (am_flt am) (srv_files s) (am_rival1 am) (am_rival2 am) p i w))"
    and share: "Q w \<Longrightarrow> Q (snd (Share (am_env am) p i nm role w))"
    and revoke: "Q w \<Longrightarrow> Q (snd (Revoke (am_env am) p i nm w))"
begin

lemma keeps_error: "Q w \<Longrightarrow> Q (snd (reply_error am e w))"
  by (auto simp: reply_error_def writeServiceError_def internal_error_def logged
      split: service_error.split auth_error.split files_error.split)

lemma keeps_session: "Q w \<Longrightarrow> Q (snd (reply_with_session s am tok resp w))"
  by (auto simp: reply_with_session_def writeServiceError_def internal_error_def logged split: prod.split bool.split)

text \<open>A handler that calls one operation and replies to its result.\<close>

lemma after_call:
  "Q (snd x) \<Longrightarrow> (\<And>e w1. Q w1 \<Longrightarrow> Q (snd (f e w1))) \<Longrightarrow> (\<And>y w1. Q w1 \<Longrightarrow> Q (snd (g y w1))) \<Longrightarrow>
   Q (snd (case x of (Inl e, w1) \<Rightarrow> f e w1 | (Inr y, w1) \<Rightarrow> g y w1))"
  by (cases x) (auto split: sum.split)

lemmas replies = keeps_error keeps_session

lemma keeps_auth_handlers:
  "keeps good Q (handleRegister s am)" "keeps good Q (handleRegistrationStatus s am)" "keeps good Q (handleLogin s am)"
  "keeps good Q (handleLogout s am)" "keeps good Q handleMe" "keeps good Q (handleChangePassword s am)"
proof -
  show "keeps good Q (handleRegister s am)"
    by (auto simp: keeps_def handleRegister_def intro!: after_call register replies split: option.split)
  show "keeps good Q (handleRegistrationStatus s am)"
    by (auto simp: keeps_def handleRegistrationStatus_def intro!: replies split: sum.split)
  show "keeps good Q (handleLogin s am)"
    by (auto simp: keeps_def handleLogin_def intro!: after_call login replies split: option.split)
  show "keeps good Q (handleLogout s am)"
    by (auto simp: keeps_def handleLogout_def intro!: after_call logout replies split: option.split)
  show "keeps good Q handleMe"
    by (auto simp: keeps_def handleMe_def split: option.split)
  show "keeps good Q (handleChangePassword s am)"
    by (auto simp: keeps_def handleChangePassword_def intro!: after_call change replies split: option.split)
qed

lemma keeps_file_handlers:
  "keeps good Q (handleList am)" "keeps good Q (handleStat am)" "keeps good Q (handleDownload s am)"
  "keeps good Q (handleRename am)" "keeps good Q (handleDelete s am)" "keeps good Q (handleShare am)"
  "keeps good Q (handleRevoke am)"
proof -
  have l: "Q (snd (List (am_env am) p w))" if "Q w" for p w using that by (simp add: List_def split: sum.split)
  show "keeps good Q (handleList am)"
    by (auto simp: keeps_def handleList_def intro!: after_call l replies split: option.split)
  show "keeps good Q (handleStat am)"
    by (auto simp: keeps_def handleStat_def intro!: after_call stat replies split: option.split)
  show "keeps good Q (handleDownload s am)"
    by (auto simp: keeps_def handleDownload_def intro!: after_call download replies split: option.split)
  show "keeps good Q (handleRename am)"
    by (auto simp: keeps_def handleRename_def intro!: after_call rename replies split: option.split)
  show "keeps good Q (handleDelete s am)"
    by (auto simp: keeps_def handleDelete_def intro!: after_call delete replies split: option.split)
  show "keeps good Q (handleShare am)"
    by (auto simp: keeps_def handleShare_def intro!: after_call share replies split: option.split)
  show "keeps good Q (handleRevoke am)"
    by (auto simp: keeps_def handleRevoke_def intro!: after_call revoke replies split: option.split)
qed

lemma keeps_parts:
  assumes "\<forall>pt\<in>set pts. \<forall>n. good (take n (pt_content pt))" and "Q w"
  shows "Q (snd (upload_parts s am p fin stop left pts w))"
  using assms
proof (induction pts arbitrary: left w)
  case (Cons pt pts)
  have part: "\<forall>n. good (take n (pt_content pt))" and rest: "\<forall>pt\<in>set pts. \<forall>n. good (take n (pt_content pt))"
    using Cons.prems(1) by simp_all
  have whole: "good (pt_content pt)" using part [rule_format, of "length (pt_content pt)"] by simp
  show ?case
    using part whole Cons.prems(2) Cons.IH [OF rest]
    by (auto simp: Let_def intro!: after_call upload replies)
qed simp

lemma keeps_handleUpload: "keeps good Q (handleUpload s am)"
  by (auto simp: keeps_def handleUpload_def admissible_def intro!: keeps_parts split: option.split prod.split)

lemma keeps_admin_handlers:
  "keeps good Q (handleAdminUsers am)" "keeps good Q (handleAdminAudit am)" "keeps good Q (handleAdminInvites am)"
  "keeps good Q (handleAdminCreateInvite am)" "keeps good Q (handleAdminRevokeInvite am)"
proof -
  show "keeps good Q (handleAdminUsers am)"
    by (auto simp: keeps_def handleAdminUsers_def intro!: replies split: sum.split)
  show "keeps good Q (handleAdminAudit am)"
    by (auto simp: keeps_def handleAdminAudit_def intro!: replies split: sum.split option.split prod.split)
  show "keeps good Q (handleAdminInvites am)"
    by (auto simp: keeps_def handleAdminInvites_def intro!: replies split: sum.split)
  show "keeps good Q (handleAdminCreateInvite am)"
    by (auto simp: keeps_def handleAdminCreateInvite_def intro!: after_call create replies split: option.split)
  show "keeps good Q (handleAdminRevokeInvite am)"
    by (auto simp: keeps_def handleAdminRevokeInvite_def intro!: after_call withdraw replies split: option.split)
qed

section \<open>Guards, routes and the chain\<close>

lemma keeps_requireAuth: "keeps good Q h \<Longrightarrow> keeps good Q (requireAuth s am h)"
  by (auto simp: keeps_def requireAuth_def intro!: after_call validate split: option.split)

lemma keeps_requireCSRF: "keeps good Q h \<Longrightarrow> keeps good Q (requireCSRF h)"
  by (auto simp: keeps_def requireCSRF_def split: option.split)

lemma keeps_requireAdmin: "keeps good Q h \<Longrightarrow> keeps good Q (requireAdmin am h)"
  by (auto simp: keeps_def requireAdmin_def auditDenied_def intro: audited split: option.split)

lemma keeps_health: "keeps good Q handleHealth"
  by (simp add: keeps_def handleHealth_def)

lemmas keeps_handlers = keeps_auth_handlers keeps_file_handlers keeps_handleUpload keeps_admin_handlers keeps_health

lemmas keeps_guards = keeps_requireAuth keeps_requireCSRF keeps_requireAdmin

lemma keeps_routes: "(m, pat, h) \<in> set (routes s am) \<Longrightarrow> keeps good Q h"
  unfolding routes_def public_routes_def account_routes_def file_routes_def admin_routes_def
  by (simp only: set_append set_simps Un_iff insert_iff empty_iff prod.inject) (elim disjE conjE FalseE; hypsubst; intro keeps_guards keeps_handlers)

lemma keeps_mux: "keeps good Q (mux s am)"
proof (rule keepsI)
  fix r w
  assume r: "admissible good r" and w: "Q w"
  show "Q (snd (mux s am r w))"
  proof (cases "find_route (routes s am) r")
    case None
    with w show ?thesis by (auto simp: mux_def spaHandler_def Let_def split: option.split)
  next
    case (Some hv)
    obtain h vals where hv: "hv = (h, vals)" by fastforce
    obtain m pat where "(m, pat, h) \<in> set (routes s am)" by (rule find_route_Some [OF Some [unfolded hv]])
    from keepsD [OF keeps_routes [OF this]] r w show ?thesis by (simp add: mux_def Some hv)
  qed
qed

theorem keeps_Handler: "keeps good Q (Handler s am)"
proof (rule keepsI)
  fix r w
  assume r: "admissible good r" and w: "Q w"
  have "Q (snd (mux s am (r\<lparr>rq_RequestID := i\<rparr>) w))" for i using keepsD [OF keeps_mux] r w by simp
  then show "Q (snd (Handler s am r w))"
    by (auto simp: Handler_def withRequestID_def withRecovery_def withLogging_def withSecurityHeaders_def add_headers_def
        Let_def case_prod_unfold logged split: outcome.split)
qed

end

end
