(* ===== verification/Vault.thy ===== *)
theory Vault
  imports Files_Repo
begin

text \<open>
  The invariant of the file repository, over the database and the object files together, and the
  abstract view it implements: a map from file identifiers to files with their content. Blobs,
  reference counts, wrapped keys and object files do not appear in the abstract view.
\<close>

section \<open>The invariant\<close>

definition content :: "crypto \<Rightarrow> store \<Rightarrow> fsys \<Rightarrow> blob_row \<Rightarrow> bytes" where
  "content c s fs b = (case Open c s no_faults fs (b_hash b) (b_wrapped b) of Inr p \<Rightarrow> p | Inl _ \<Rightarrow> [])"

definition inventory :: "crypto \<Rightarrow> store \<Rightarrow> fsys \<Rightarrow> db \<Rightarrow> (bytes \<times> bytes \<times> bytes) set" where
  "inventory c s fs d = (\<lambda>b. (b_hash b, b_wrapped b, content c s fs b)) ` set (blobs d)"

text \<open>Every blob row is served by the store, with the size it records.\<close>

definition served :: "crypto \<Rightarrow> store \<Rightarrow> fsys \<Rightarrow> db \<Rightarrow> bool" where
  "served c s fs d \<longleftrightarrow> os.catalogue (c, s) fs (inventory c s fs d) \<and>
     (\<forall>b\<in>set (blobs d). b_size b = int (length (content c s fs b)))"

definition node_count :: "bytes \<Rightarrow> db \<Rightarrow> nat" where
  "node_count h d = count_where (\<lambda>n. n_blob n = h) (nodes d)"

definition refs_ok :: "db \<Rightarrow> bool" where
  "refs_ok d \<longleftrightarrow> (\<forall>b\<in>set (blobs d). b_refs b = int (node_count (b_hash b) d) \<and> 1 \<le> node_count (b_hash b) d)"

definition owner_ok :: "db \<Rightarrow> bool" where
  "owner_ok d \<longleftrightarrow> (\<forall>g\<in>set (grants d). \<forall>n\<in>set (nodes d). n_id n = g_node g \<longrightarrow> n_owner n \<noteq> g_grantee g)"

definition meta_ok :: "db \<Rightarrow> bool" where
  "meta_ok d \<longleftrightarrow> schema_ok d \<and> refs_ok d \<and> owner_ok d"

definition vault :: "crypto \<Rightarrow> store \<Rightarrow> world \<Rightarrow> bool" where
  "vault c s w \<longleftrightarrow> meta_ok (w_db w) \<and> served c s (w_fs w) (w_db w)"

lemma vault_meta: "vault c s w \<Longrightarrow> meta_ok (w_db w)"
  and vault_served: "vault c s w \<Longrightarrow> served c s (w_fs w) (w_db w)"
  and vault_schema: "vault c s w \<Longrightarrow> schema_ok (w_db w)"
  by (simp_all add: vault_def meta_ok_def)

lemma vaultI: "meta_ok (w_db w) \<Longrightarrow> served c s (w_fs w) (w_db w) \<Longrightarrow> vault c s w"
  by (simp add: vault_def)

section \<open>What is served\<close>

lemma image_update_where:
  assumes "\<And>x. P x \<Longrightarrow> g (f x) = g x"
  shows "g ` set (update_where P f t) = g ` set t"
proof -
  have "map g (update_where P f t) = map g t" by (rule map_update_where) (rule assms)
  then show ?thesis by (metis list.set_map)
qed

lemma catalogue_inventory:
  "os.catalogue (c, s) fs (inventory c s fs' d) \<longleftrightarrow>
   (\<forall>b\<in>set (blobs d). reads c s fs (b_hash b) (b_wrapped b) (content c s fs' b))"
  by (auto simp: os.catalogue_def inventory_def)

lemma content_reads: "reads c s fs (b_hash b) (b_wrapped b) p \<Longrightarrow> content c s fs b = p"
  by (simp add: reads_def content_def)

lemma served_reads: "served c s fs d \<Longrightarrow> b \<in> set (blobs d) \<Longrightarrow> reads c s fs (b_hash b) (b_wrapped b) (content c s fs b)"
  by (simp add: served_def catalogue_inventory)

lemma content_frame:
  assumes "os.catalogue (c, s) fs' (inventory c s fs d)" and "b \<in> set (blobs d)"
  shows "content c s fs' b = content c s fs b"
  using assms by (simp add: catalogue_inventory content_reads)

text \<open>Once the old inventory is still served by the new files, nothing has changed for it.\<close>

lemma served_frame:
  assumes "os.catalogue (c, s) fs' (inventory c s fs d)" and "served c s fs d"
  shows "served c s fs' d"
proof -
  have "inventory c s fs' d = inventory c s fs d"
    unfolding inventory_def by (rule image_cong) (simp_all add: content_frame [OF assms(1)])
  with assms content_frame [OF assms(1)] show ?thesis
    by (simp add: served_def)
qed

lemma content_cong: "b_hash b' = b_hash b \<Longrightarrow> b_wrapped b' = b_wrapped b \<Longrightarrow> content c s fs b' = content c s fs b"
  by (simp add: content_def)

lemma content_refs [simp]: "content c s fs (b\<lparr>b_refs := k\<rparr>) = content c s fs b"
  by (rule content_cong) simp_all

lemma inventory_mono: "set (blobs d') \<subseteq> set (blobs d) \<Longrightarrow> inventory c s fs d' \<subseteq> inventory c s fs d"
  by (auto simp: inventory_def)

lemma served_subset: "served c s fs d \<Longrightarrow> set (blobs d') \<subseteq> set (blobs d) \<Longrightarrow> served c s fs d'"
  using os.catalogue_mono [OF _ inventory_mono] by (fastforce simp: served_def)

lemma served_cong: "served c s fs d \<Longrightarrow> blobs d' = blobs d \<Longrightarrow> served c s fs d'"
  using served_subset [of c s fs d d'] by simp

lemma served_add_refs:
  assumes "served c s fs d" and "add_refs k h d = Inr d'"
  shows "served c s fs d'"
  using assms(2)
proof (cases rule: add_refs_cases)
  case absent
  with assms(1) show ?thesis by simp
next
  case (present b)
  have "inventory c s fs d' = inventory c s fs d"
    unfolding inventory_def present(4) by (simp add: image_update_where)
  with assms(1) show ?thesis
    unfolding served_def by (simp add: present(4) ball_update_where)
qed

section \<open>The abstract view\<close>

record vfile =
  fl_owner :: string
  fl_name :: string
  fl_mime :: string
  fl_content :: bytes
  fl_grants :: "string \<rightharpoonup> string"

definition blob_content :: "crypto \<Rightarrow> store \<Rightarrow> fsys \<Rightarrow> db \<Rightarrow> bytes \<Rightarrow> bytes" where
  "blob_content c s fs d h = (case blob_by_hash h d of Some b \<Rightarrow> content c s fs b | None \<Rightarrow> [])"

definition grants_of :: "string \<Rightarrow> db \<Rightarrow> string \<rightharpoonup> string" where
  "grants_of i d uid = map_option g_role (grant_of i uid d)"

definition abs_node :: "crypto \<Rightarrow> store \<Rightarrow> fsys \<Rightarrow> db \<Rightarrow> node_row \<Rightarrow> vfile" where
  "abs_node c s fs d n =
     \<lparr>fl_owner = n_owner n, fl_name = n_name n, fl_mime = n_mime n,
      fl_content = blob_content c s fs d (n_blob n), fl_grants = grants_of (n_id n) d\<rparr>"

definition file_map :: "crypto \<Rightarrow> store \<Rightarrow> fsys \<Rightarrow> db \<Rightarrow> string \<rightharpoonup> vfile" where
  "file_map c s fs d i = map_option (abs_node c s fs d) (node_by_id i d)"

definition view :: "crypto \<Rightarrow> store \<Rightarrow> world \<Rightarrow> string \<rightharpoonup> vfile" where
  "view c s w = file_map c s (w_fs w) (w_db w)"

text \<open>What the view depends on.\<close>

lemma file_map_cong:
  assumes "nodes d' = nodes d" and "grants d' = grants d"
    and "\<And>n. n \<in> set (nodes d) \<Longrightarrow> blob_content c s fs' d' (n_blob n) = blob_content c s fs d (n_blob n)"
  shows "file_map c s fs' d' = file_map c s fs d"
proof
  fix i
  have same: "node_by_id i d' = node_by_id i d"
    by (simp add: node_by_id_def assms(1))
  have "abs_node c s fs' d' n = abs_node c s fs d n" if "node_by_id i d = Some n" for n
  proof -
    have "n \<in> set (nodes d)"
      using that query_row_Some [of _ "nodes d" n] by (simp add: node_by_id_def)
    from assms(3) [OF this] show ?thesis
      by (simp add: abs_node_def grants_of_def grant_of_def assms(2) fun_eq_iff)
  qed
  then show "file_map c s fs' d' i = file_map c s fs d i"
    unfolding file_map_def same by (cases "node_by_id i d") simp_all
qed

lemma blob_by_hash_Some: "blob_by_hash h d = Some b \<Longrightarrow> b \<in> set (blobs d) \<and> b_hash b = h"
  unfolding blob_by_hash_def by (drule query_row_Some) simp

lemma blob_content_frame:
  assumes "os.catalogue (c, s) fs' (inventory c s fs d)"
  shows "blob_content c s fs' d h = blob_content c s fs d h"
proof (cases "blob_by_hash h d")
  case (Some b)
  with blob_by_hash_Some [OF Some] content_frame [OF assms] show ?thesis
    by (simp add: blob_content_def)
qed (simp add: blob_content_def)

lemma file_map_frame:
  "os.catalogue (c, s) fs' (inventory c s fs d) \<Longrightarrow> file_map c s fs' d = file_map c s fs d"
  by (rule file_map_cong) (simp_all add: blob_content_frame)

lemma blob_content_cong: "blobs d' = blobs d \<Longrightarrow> blob_content c s fs d' h = blob_content c s fs d h"
  by (simp add: blob_content_def blob_by_hash_def)

lemma file_map_core:
  assumes "nodes d' = nodes d" "grants d' = grants d" "blobs d' = blobs d"
  shows "file_map c s fs d' = file_map c s fs d"
  by (rule file_map_cong) (rule assms blob_content_cong)+

lemma query_row_update_where:
  "(\<And>x. P (f x) = P x) \<Longrightarrow>
   query_row P (update_where Q f t) = map_option (\<lambda>x. if Q x then f x else x) (query_row P t)"
  by (induction t) (auto simp: query_row_def update_where_def)

lemma blob_content_add_refs:
  assumes "add_refs k h d = Inr d'"
  shows "blob_content c s fs d' h' = blob_content c s fs d h'"
  using assms
proof (cases rule: add_refs_cases)
  case (present b)
  then show ?thesis
    by (auto simp: blob_content_def blob_by_hash_def query_row_update_where split: option.split)
qed simp

lemma blob_content_insert:
  assumes "insert_blob r d = Inr d'"
  shows "blob_content c s fs d' h = (if h = b_hash r then content c s fs r else blob_content c s fs d h)"
  using blob_hashes.lookup_inserted [OF assms] blob_hashes.lookup_other [OF assms, of h]
  by (simp add: blob_content_def blob_by_hash_def)

section \<open>Recording and frames\<close>

lemma meta_ok_core:
  assumes "meta_ok d" and "schema_ok d'" and "nodes d' = nodes d" "grants d' = grants d" "blobs d' = blobs d"
  shows "meta_ok d'"
  using assms(1,2) unfolding meta_ok_def refs_ok_def owner_ok_def node_count_def assms(3-5) by blast

lemma vault_Record [simp]: "vault c s w \<Longrightarrow> vault c s (Record env e w)"
proof (rule vaultI)
  assume v: "vault c s w"
  show "meta_ok (w_db (Record env e w))"
    by (rule meta_ok_core [OF vault_meta [OF v]]) (simp_all add: vault_schema [OF v])
  show "served c s (w_fs (Record env e w)) (w_db (Record env e w))"
    using served_cong [OF vault_served [OF v]] by simp
qed

lemma view_Record [simp]: "view c s (Record env e w) = view c s w"
  unfolding view_def Record_frame(8) by (rule file_map_core) simp_all

lemma vault_fs:
  assumes "vault c s w" and "os.catalogue (c, s) fs' (inventory c s (w_fs w) (w_db w))"
  shows "vault c s (w\<lparr>w_fs := fs'\<rparr>)" "view c s (w\<lparr>w_fs := fs'\<rparr>) = view c s w"
  using assms served_frame [OF assms(2)] file_map_frame [OF assms(2)]
  by (simp_all add: vault_def view_def)

lemma catalogue_kept:
  assumes "served c s fs d" and "\<And>h k q. reads c s fs h k q \<Longrightarrow> h \<in> b_hash ` set (blobs d) \<Longrightarrow> reads c s fs' h k q"
  shows "os.catalogue (c, s) fs' (inventory c s fs d)"
  unfolding catalogue_inventory
proof
  fix b
  assume "b \<in> set (blobs d)"
  then show "reads c s fs' (b_hash b) (b_wrapped b) (content c s fs b)"
    by (intro assms(2) served_reads [OF assms(1)] imageI)
qed

section \<open>The metadata transaction of an upload\<close>

text \<open>Between its two statements, exactly one reference of blob \<open>h\<close> has no node yet.\<close>

definition pending :: "bytes \<Rightarrow> db \<Rightarrow> bool" where
  "pending h d \<longleftrightarrow> schema_ok d \<and> owner_ok d \<and> (\<exists>b\<in>set (blobs d). b_hash b = h) \<and>
     (\<forall>b\<in>set (blobs d). b_refs b = int (node_count (b_hash b) d) + (if b_hash b = h then 1 else 0) \<and>
        1 \<le> node_count (b_hash b) d + (if b_hash b = h then 1 else 0))"

lemma meta_parts:
  assumes "meta_ok d"
  shows "schema_ok d" "owner_ok d" "refs_ok d"
  using assms by (simp_all add: meta_ok_def)

lemma no_blob_no_nodes:
  assumes "schema_ok d" and "\<forall>b\<in>set (blobs d). b_hash b \<noteq> h"
  shows "node_count h d = 0"
  using schema_parts(4) [OF assms(1)] assms(2) unfolding node_count_def count_where_zero nodes_ok_def
  by blast

lemma insert_blob_form:
  assumes "insert_blob r d = Inr d'"
  shows "d' = d\<lparr>blobs := blobs d @ [r]\<rparr>" "\<forall>b\<in>set (blobs d). b_hash b \<noteq> b_hash r"
  using assms by (auto simp: insert_blob_def split: if_splits)

lemma pending_new:
  assumes m: "meta_ok d" and i: "insert_blob r d = Inr d'" and one: "b_refs r = 1"
  shows "pending (b_hash r) d'"
proof -
  note d' = insert_blob_form(1) [OF i] and fresh = insert_blob_form(2) [OF i]
  have zero: "node_count (b_hash r) d = 0"
    by (rule no_blob_no_nodes [OF meta_parts(1) [OF m] fresh])
  have "\<forall>b\<in>set (blobs d). b_refs b = int (node_count (b_hash b) d) + (if b_hash b = b_hash r then 1 else 0) \<and>
      1 \<le> node_count (b_hash b) d + (if b_hash b = b_hash r then 1 else 0)"
    using meta_parts(3) [OF m] fresh by (simp add: refs_ok_def)
  moreover have "node_count h d' = node_count h d" for h by (simp add: d' node_count_def)
  moreover have "owner_ok d'" using meta_parts(2) [OF m] by (simp add: d' owner_ok_def)
  moreover have "schema_ok d'" by (rule schema_insert_blob [OF meta_parts(1) [OF m] i])
  ultimately show ?thesis
    using zero one by (simp add: pending_def d')
qed

lemma pending_again:
  assumes m: "meta_ok d" and i: "add_refs 1 h d = Inr d'" and b: "blob_by_hash h d = Some b"
  shows "pending h d'"
  using i
proof (cases rule: add_refs_cases)
  case (present b')
  have nodes: "node_count x d' = node_count x d" for x by (simp add: present(4) node_count_def)
  have "owner_ok d'" using meta_parts(2) [OF m] by (simp add: present(4) owner_ok_def)
  moreover have "schema_ok d'" by (rule schema_add_refs [OF meta_parts(1) [OF m] i])
  moreover have "\<exists>b\<in>set (blobs d'). b_hash b = h"
    using blob_by_hash_Some [OF b] by (auto simp: present(4) bex_update_where intro!: bexI [of _ b])
  moreover have "\<forall>b\<in>set (blobs d'). b_refs b = int (node_count (b_hash b) d') + (if b_hash b = h then 1 else 0) \<and>
      1 \<le> node_count (b_hash b) d' + (if b_hash b = h then 1 else 0)"
    using meta_parts(3) [OF m] unfolding nodes by (simp add: present(4) ball_update_where refs_ok_def)
  ultimately show ?thesis by (simp add: pending_def)
qed (use b in simp)

lemma insert_node_form:
  assumes "insert_node r d = Inr d'"
  shows "d' = d\<lparr>nodes := nodes d @ [r]\<rparr>" "\<forall>n\<in>set (nodes d). n_id n \<noteq> n_id r" "pg_uuid (n_id r)"
    "\<exists>u\<in>set (users d). ur_id u = n_owner r"
  using assms by (auto simp: insert_node_def split: if_splits)

lemma no_node_no_grants:
  assumes "schema_ok d" and "\<forall>n\<in>set (nodes d). n_id n \<noteq> i"
  shows "g \<in> set (grants d) \<Longrightarrow> g_node g \<noteq> i"
  using schema_parts(5) [OF assms(1)] assms(2) unfolding grants_ok_def by blast

lemma pending_done:
  assumes p: "pending h d" and i: "insert_node r d = Inr d'" and h: "n_blob r = h"
  shows "meta_ok d'"
proof -
  note d' = insert_node_form(1) [OF i]
  have s: "schema_ok d" "owner_ok d" using p by (simp_all add: pending_def)
  have "node_count x d' = node_count x d + (if x = h then 1 else 0)" for x
    using h by (simp add: d' node_count_def table_simps)
  then have "refs_ok d'"
    using p by (simp add: refs_ok_def pending_def d')
  moreover have "\<forall>g\<in>set (grants d). n_id r \<noteq> g_node g"
    using no_node_no_grants [OF s(1) insert_node_form(2) [OF i]] by metis
  then have "owner_ok d'" using s(2) by (simp add: owner_ok_def d')
  moreover have "schema_ok d'" by (rule schema_insert_node [OF s(1) i])
  ultimately show ?thesis by (simp add: meta_ok_def)
qed

definition new_file :: "string \<Rightarrow> string \<Rightarrow> string \<Rightarrow> bytes \<Rightarrow> vfile" where
  "new_file uid name mime bs =
     \<lparr>fl_owner = uid, fl_name = name, fl_mime = mime, fl_content = bs, fl_grants = Map.empty\<rparr>"

lemma grants_of_none: "(\<And>g. g \<in> set (grants d) \<Longrightarrow> g_node g \<noteq> i) \<Longrightarrow> grants_of i d = Map.empty"
  by (auto simp: grants_of_def grant_of_def query_row_None fun_eq_iff)

lemma file_map_insert_node:
  assumes s: "schema_ok d" and i: "insert_node r d = Inr d'"
  shows "file_map c s fs d' = (file_map c s fs d)(n_id r \<mapsto>
      new_file (n_owner r) (n_name r) (n_mime r) (blob_content c s fs d (n_blob r)))"
    and "file_map c s fs d (n_id r) = None"
proof -
  note d' = insert_node_form(1) [OF i]
  have abs: "abs_node c s fs d' n = abs_node c s fs d n" for n
    by (simp add: abs_node_def d' blob_content_def blob_by_hash_def grants_of_def grant_of_def fun_eq_iff)
  have new: "abs_node c s fs d r = new_file (n_owner r) (n_name r) (n_mime r) (blob_content c s fs d (n_blob r))"
    using grants_of_none [OF no_node_no_grants [OF s insert_node_form(2) [OF i]]]
    by (simp add: abs_node_def new_file_def)
  have found: "node_by_id (n_id r) d' = Some r" "k \<noteq> n_id r \<Longrightarrow> node_by_id k d' = node_by_id k d" for k
    using node_ids.lookup_inserted [OF i] node_ids.lookup_other [OF i, of k] by (simp_all add: node_by_id_def)
  show "file_map c s fs d' = (file_map c s fs d)(n_id r \<mapsto>
      new_file (n_owner r) (n_name r) (n_mime r) (blob_content c s fs d (n_blob r)))"
    by (rule ext) (auto simp: file_map_def found intro: option.map_cong0 abs trans [OF abs new])
  show "file_map c s fs d (n_id r) = None"
    using insert_node_form(2) [OF i] by (simp add: file_map_def node_by_id_def query_row_None)
qed

section \<open>Upload keeps the invariant\<close>

text \<open>
  A rival is tame when it keeps the invariant and leaves other sessions' staged files alone.
\<close>

definition tame :: "crypto \<Rightarrow> store \<Rightarrow> rival \<Rightarrow> bool" where
  "tame c s rv \<longleftrightarrow> (\<forall>w. vault c s w \<longrightarrow> vault c s (rv w) \<and>
     (\<forall>st p. ready c s (w_fs w) st p \<longrightarrow> ready c s (w_fs (rv w)) st p))"

text \<open>
  Nobody has a second content with the digest of \<open>q\<close>: the one thing deduplication needs that only
  the digest can give.
\<close>

definition collision_free :: "crypto \<Rightarrow> bytes \<Rightarrow> bool" where
  "collision_free c q \<longleftrightarrow> (\<forall>p. c_sha256 c p = c_sha256 c q \<longrightarrow> p = q)"

text \<open>The staged object of content \<open>q\<close>, finalised or not.\<close>

definition staged_ok :: "crypto \<Rightarrow> store \<Rightarrow> fsys \<Rightarrow> staged \<Rightarrow> bytes \<Rightarrow> bool" where
  "staged_ok c s fs st q \<longleftrightarrow> sg_done st \<and> sg_hash st = c_sha256 c q \<or> ready c s fs st q"

lemma staged_ok_hash: "staged_ok c s fs st q \<Longrightarrow> sg_hash st = c_sha256 c q"
  by (auto simp: staged_ok_def ready_def)

lemma staged_ok_Commit:
  assumes "crypto_ok c" and "staged_ok c s fs st q" and "Commit s flt st fs = (Inl e, st', fs')"
    and "reads c s fs h k p"
  shows "reads c s fs' h k p"
proof (cases "sg_done st")
  case True
  with assms(3,4) show ?thesis by (simp add: Commit_def)
next
  case False
  with assms Commit_frame [OF assms(1) _ assms(3)] show ?thesis by (auto simp: staged_ok_def)
qed

lemma staged_ok_committed:
  "staged_ok c s fs st q \<Longrightarrow> Commit s flt st fs = (Inr x, st', fs') \<Longrightarrow> ready c s fs st q"
  by (auto simp: staged_ok_def Commit_def)

lemma staged_ok_Abort:
  assumes "staged_ok c s fs st q" and "reads c s fs h k p"
  shows "reads c s (snd (Abort flt st fs)) h k p"
proof (cases "sg_done st")
  case True
  with assms(2) show ?thesis by (simp add: Abort_def)
next
  case False
  with assms Abort_frame show ?thesis by (auto simp: staged_ok_def)
qed

text \<open>
  What an upload may do to the view: nothing, reporting an error, or adding file \<open>f\<close> under a new
  identifier \<open>i\<close>, reporting it, unless the reply to the commit was lost.
\<close>

definition upload_outcome ::
  "crypto \<Rightarrow> store \<Rightarrow> world \<Rightarrow> string \<Rightarrow> vfile \<Rightarrow> files_error + node \<Rightarrow> world \<Rightarrow> bool" where
  "upload_outcome c s w i f res w' \<longleftrightarrow>
     (view c s w' = view c s w \<and> isl res) \<or>
     (view c s w' = (view c s w)(i \<mapsto> f) \<and> view c s w i = None \<and>
       (res = Inl (FErrDb Unavailable) \<or>
        (\<exists>nd. res = Inr nd \<and> nd_ID nd = i \<and> nd_Name nd = fl_name f \<and> nd_MimeType nd = fl_mime f)))"

lemma outcome_error: "view c s w' = view c s w \<Longrightarrow> upload_outcome c s w i f (Inl e) w'"
  by (simp add: upload_outcome_def)

lemma finish_upload_step:
  assumes f: "finish_upload a p name mime st w d = (res, w')"
    and w: "vault c s w" and p: "pending (sg_hash st) d" and sv: "served c s (w_fs w) d"
    and same: "file_map c s (w_fs w) d = view c s w"
    and vf: "vf = new_file (u_ID p) name mime (blob_content c s (w_fs w) d (sg_hash st))"
  shows "vault c s w' \<and> w_fs w' = w_fs w \<and> upload_outcome c s w (at_id a) vf res w'"
proof -
  let ?row = "\<lparr>n_id = at_id a, n_owner = u_ID p, n_blob = sg_hash st, n_name = name, n_mime = mime,
      n_created = en_now (at_env a), n_updated = en_now (at_env a)\<rparr>"
  show ?thesis
  proof (cases "exec (at_env a) CallInsertNode (insert_node ?row d)")
    case (Inl e)
    with f w show ?thesis by (auto simp: finish_upload_def Let_def intro: outcome_error)
  next
    case (Inr d')
    then have i: "insert_node ?row d = Inr d'" by (simp add: exec_Inr)
    have s: "schema_ok d" using p by (simp add: pending_def)
    have m: "meta_ok d'" by (rule pending_done [OF p i]) simp
    have sv': "served c s (w_fs w) d'"
      by (rule served_cong [OF sv]) (simp add: insert_node_form(1) [OF i])
    have view: "file_map c s (w_fs w) d' = (view c s w)(at_id a \<mapsto> vf)" "view c s w (at_id a) = None"
      using file_map_insert_node [OF s i, where c = c and s = s and fs = "w_fs w"] unfolding same
      by (simp_all add: vf)
    have new: "vault c s (w\<lparr>w_db := d'\<rparr>)" "view c s (w\<lparr>w_db := d'\<rparr>) = (view c s w)(at_id a \<mapsto> vf)"
      using m sv' view by (simp_all add: vault_def view_def [of c s "w\<lparr>w_db := d'\<rparr>"])
    have names: "fl_name vf = name" "fl_mime vf = mime" by (simp_all add: vf new_file_def)
    show ?thesis
      using f Inr new view(2) w names
      by (auto simp: finish_upload_def Let_def commit_tx_def upload_outcome_def split: commit_outcome.splits)
  qed
qed

text \<open>Publishing a new blob: the committed object serves it, and all others are served as before.\<close>

lemma published:
  assumes ok: "crypto_ok c" and v: "vault c s w" and rd: "ready c s (w_fs w) st q"
    and i: "insert_blob \<lparr>b_hash = sg_hash st, b_size = sg_size st, b_wrapped = sg_wrapped st, b_refs = 1\<rparr> (w_db w) = Inr d"
    and com: "Commit s flt st (w_fs w) = (Inr x, st', fs)"
  shows "vault c s (w\<lparr>w_fs := fs\<rparr>)" "view c s (w\<lparr>w_fs := fs\<rparr>) = view c s w"
    "served c s fs d" "file_map c s fs d = view c s w" "blob_content c s fs d (sg_hash st) = q"
proof -
  let ?row = "\<lparr>b_hash = sg_hash st, b_size = sg_size st, b_wrapped = sg_wrapped st, b_refs = 1\<rparr>"
  note form = insert_blob_form [OF i]
  have fresh: "h \<noteq> sg_hash st" if "h \<in> b_hash ` set (blobs (w_db w))" for h
    using form(2) that by auto
  have new: "reads c s fs (b_hash ?row) (b_wrapped ?row) q"
    using Commit_reads [OF ok rd com] by simp
  have cat: "os.catalogue (c, s) fs (inventory c s (w_fs w) (w_db w))"
    by (rule catalogue_kept [OF vault_served [OF v]], rule Commit_frame [OF ok rd com]) (use fresh in blast)+
  show "vault c s (w\<lparr>w_fs := fs\<rparr>)" and view: "view c s (w\<lparr>w_fs := fs\<rparr>) = view c s w"
    by (rule vault_fs [OF v cat])+
  have old: "served c s fs (w_db w)" by (rule served_frame [OF cat vault_served [OF v]])
  have q: "content c s fs ?row = q" by (rule content_reads [OF new])
  have size: "sg_size st = int (length q)" using rd by (simp add: ready_def)
  have "blobs d = blobs (w_db w) @ [?row]" using form(1) by simp
  with old new q size show "served c s fs d"
    unfolding served_def catalogue_inventory by auto
  show bc: "blob_content c s fs d (sg_hash st) = q"
    using blob_content_insert [OF i] q by simp
  have "blob_content c s fs d (n_blob n) = blob_content c s fs (w_db w) (n_blob n)" if n: "n \<in> set (nodes (w_db w))" for n
  proof -
    have "n_blob n \<noteq> sg_hash st"
      using schema_parts(4) [OF vault_schema [OF v]] n form(2) unfolding nodes_ok_def by force
    then show ?thesis using blob_content_insert [OF i] by simp
  qed
  then have "file_map c s fs d = file_map c s fs (w_db w)"
    by (intro file_map_cong) (simp_all add: form(1))
  with view show "file_map c s fs d = view c s w" by (simp add: view_def)
qed

text \<open>Taking another reference on a blob: the staged file goes, what is stored already stays.\<close>

lemma deduplicated:
  assumes v: "vault c s w" and rd: "staged_ok c s (w_fs w) st q" and cf: "collision_free c q"
    and b: "blob_by_hash (sg_hash st) (w_db w) = Some b" and i: "add_refs 1 (sg_hash st) (w_db w) = Inr d"
    and ab: "Abort flt st (w_fs w) = (st', fs)"
  shows "vault c s (w\<lparr>w_fs := fs\<rparr>)" "view c s (w\<lparr>w_fs := fs\<rparr>) = view c s w"
    "served c s fs d" "file_map c s fs d = view c s w" "blob_content c s fs d (sg_hash st) = q"
proof -
  have cat: "os.catalogue (c, s) fs (inventory c s (w_fs w) (w_db w))"
    using staged_ok_Abort [OF rd, of _ _ _ flt] ab by (intro catalogue_kept [OF vault_served [OF v]]) simp
  show "vault c s (w\<lparr>w_fs := fs\<rparr>)" and view: "view c s (w\<lparr>w_fs := fs\<rparr>) = view c s w"
    by (rule vault_fs [OF v cat])+
  show "served c s fs d"
    by (rule served_add_refs [OF served_frame [OF cat vault_served [OF v]] i])
  have "nodes d = nodes (w_db w) \<and> grants d = grants (w_db w)"
    using i by (auto simp: add_refs_def split: option.splits if_splits)
  then have "file_map c s fs d = file_map c s fs (w_db w)"
    by (intro file_map_cong) (simp_all add: blob_content_add_refs [OF i])
  with view show "file_map c s fs d = view c s w" by (simp add: view_def)
  have "c_sha256 c (content c s (w_fs w) b) = sg_hash st"
    using reads_sha [OF served_reads [OF vault_served [OF v]]] blob_by_hash_Some [OF b] by simp
  then have "content c s (w_fs w) b = q"
    using cf staged_ok_hash [OF rd] by (simp add: collision_free_def)
  then have "blob_content c s (w_fs w) (w_db w) (sg_hash st) = q"
    by (simp add: blob_content_def b)
  then show "blob_content c s fs d (sg_hash st) = q"
    by (simp add: blob_content_add_refs [OF i] blob_content_frame [OF cat])
qed

lemma Abort_done: "sg_done (fst (Abort flt st fs))"
  by (simp add: Abort_def)

text \<open>
  An attempt that started at \<open>w\<close> with staged content \<open>q\<close> keeps the invariant, leaves the staged
  object finalised or as it was, and has the effect of an upload.
\<close>

definition attempt_result ::
  "crypto \<Rightarrow> store \<Rightarrow> bytes \<Rightarrow> world \<Rightarrow> string \<Rightarrow> vfile \<Rightarrow> files_error + node \<Rightarrow> staged \<Rightarrow> world \<Rightarrow> bool" where
  "attempt_result c s q w i f res st' w' \<longleftrightarrow> vault c s w' \<and>
     staged_ok c s (w_fs w') st' q \<and> upload_outcome c s w i f res w'"

lemma attempt_unchanged:
  "vault c s w \<Longrightarrow> staged_ok c s (w_fs w) st q \<Longrightarrow> attempt_result c s q w i f (Inl e) st w"
  by (simp add: attempt_result_def outcome_error)

lemma attempt_finished:
  assumes fin: "finish_upload a p name mime st1 (w\<lparr>w_fs := fs\<rparr>) d = (res, w')"
    and v: "vault c s (w\<lparr>w_fs := fs\<rparr>)" "view c s (w\<lparr>w_fs := fs\<rparr>) = view c s w"
    and d: "served c s fs d" "file_map c s fs d = view c s w" "blob_content c s fs d (sg_hash st) = q"
    and st: "sg_done st1" "sg_hash st1 = sg_hash st" "sg_hash st = c_sha256 c q" and p: "pending (sg_hash st) d"
  shows "attempt_result c s q w (at_id a) (new_file (u_ID p) name mime q) res st1 w'"
proof -
  have "vault c s w' \<and> w_fs w' = w_fs (w\<lparr>w_fs := fs\<rparr>) \<and>
      upload_outcome c s (w\<lparr>w_fs := fs\<rparr>) (at_id a) (new_file (u_ID p) name mime q) res w'"
    by (rule finish_upload_step [OF fin v(1)]) (simp_all add: st(1,2) p d v(2))
  then show ?thesis
    using st by (simp add: attempt_result_def upload_outcome_def staged_ok_def v(2))
qed

lemma first_reference_step:
  assumes ok: "crypto_ok c" and v: "vault c (re_store r) w" and rd: "staged_ok c (re_store r) (w_fs w) st q"
    and fr: "first_reference a r p name mime st w = (res, st', w')"
  shows "attempt_result c (re_store r) q w (at_id a) (new_file (u_ID p) name mime q) res st' w'"
proof (cases "exec (at_env a) CallInsertBlob (insert_blob \<lparr>b_hash = sg_hash st, b_size = sg_size st,
             b_wrapped = sg_wrapped st, b_refs = 1\<rparr> (w_db w))")
  case (Inl e)
  with fr v rd show ?thesis by (auto simp: first_reference_def intro: attempt_unchanged)
next
  case (Inr d)
  then have i: "insert_blob \<lparr>b_hash = sg_hash st, b_size = sg_size st, b_wrapped = sg_wrapped st,
      b_refs = 1\<rparr> (w_db w) = Inr d" by (simp add: exec_Inr)
  obtain cr st1 fs where com: "Commit (re_store r) (at_flt a) st (w_fs w) = (cr, st1, fs)"
    by (metis surjective_pairing)
  have st1: "sg_done st1" "sg_hash st1 = sg_hash st" "sg_hash st = c_sha256 c q"
    using Commit_done [OF com] staged_ok_hash [OF rd] by simp_all
  show ?thesis
  proof (cases cr)
    case (Inl e)
    have cat: "os.catalogue (c, re_store r) fs (inventory c (re_store r) (w_fs w) (w_db w))"
      using staged_ok_Commit [OF ok rd com [unfolded Inl]]
      by (intro catalogue_kept [OF vault_served [OF v]])
    have "st' = st1 \<and> w' = w\<lparr>w_fs := fs\<rparr> \<and> res = Inl (of_storage e)"
      using fr Inr com Inl by (auto simp: first_reference_def)
    then show ?thesis
      using vault_fs [OF v cat] st1 by (simp add: attempt_result_def staged_ok_def outcome_error)
  next
    case ok': (Inr x)
    obtain res2 w2 where fin: "finish_upload a p name mime st1 (w\<lparr>w_fs := fs\<rparr>) d = (res2, w2)"
      by fastforce
    have "st' = st1 \<and> w' = w2 \<and> res = res2"
      using fr Inr com ok' fin by (auto simp: first_reference_def)
    moreover have "pending (sg_hash st) d"
      using pending_new [OF vault_meta [OF v] i] by simp
    ultimately show ?thesis
      using attempt_finished [OF fin published [OF ok v staged_ok_committed [OF rd com [unfolded ok']] i com [unfolded ok']] st1] by simp
  qed
qed

lemma further_reference_step:
  assumes v: "vault c s w" and rd: "staged_ok c s (w_fs w) st q" and cf: "collision_free c q"
    and b: "blob_by_hash (sg_hash st) (w_db w) = Some b"
    and fr: "further_reference a p name mime st w = (res, st', w')"
  shows "attempt_result c s q w (at_id a) (new_file (u_ID p) name mime q) res st' w'"
proof (cases "exec (at_env a) CallIncrementRefs (add_refs 1 (sg_hash st) (w_db w))")
  case (Inl e)
  with fr v rd show ?thesis by (auto simp: further_reference_def intro: attempt_unchanged)
next
  case (Inr d)
  then have i: "add_refs 1 (sg_hash st) (w_db w) = Inr d" by (simp add: exec_Inr)
  obtain st1 fs where ab: "Abort (at_flt a) st (w_fs w) = (st1, fs)" by fastforce
  have st1: "sg_done st1" "sg_hash st1 = sg_hash st" "sg_hash st = c_sha256 c q"
    using Abort_done [of "at_flt a" st "w_fs w"] ab staged_ok_hash [OF rd] by (auto simp: Abort_def split: if_splits)
  obtain res2 w2 where fin: "finish_upload a p name mime st1 (w\<lparr>w_fs := fs\<rparr>) d = (res2, w2)"
    by fastforce
  have "st' = st1 \<and> w' = w2 \<and> res = res2"
    using fr Inr ab fin by (auto simp: further_reference_def)
  then show ?thesis
    using attempt_finished [OF fin deduplicated [OF v rd cf b i ab] st1 pending_again [OF vault_meta [OF v] i b]]
    by simp
qed

lemma insertUpload_step:
  assumes ok: "crypto_ok c" and v: "vault c (re_store r) w" and rd: "staged_ok c (re_store r) (w_fs w) st q"
    and tm: "tame c (re_store r) (at_rival a)" and cf: "collision_free c q"
    and iu: "insertUpload a r p name mime st w = (res, st', w')"
  obtains w0 where "w0 = w \<or> w0 = at_rival a w"
    "attempt_result c (re_store r) q w0 (at_id a) (new_file (u_ID p) name mime q) res st' w'"
proof (cases "en_fail (at_env a) CallBegin \<or> en_fail (at_env a) CallSelectBlob")
  case True
  then have "res = Inl (FErrDb Unavailable) \<and> st' = st \<and> w' = w"
    using iu by (auto simp: insertUpload_def exec_def split: if_splits)
  with that [of w] v rd show thesis by (simp add: attempt_unchanged)
next
  case False
  show thesis
  proof (cases "blob_by_hash (sg_hash st) (w_db w)")
    case None
    with iu False have "first_reference a r p name mime st (at_rival a w) = (res, st', w')"
      by (simp add: insertUpload_def exec_def)
    moreover have "vault c (re_store r) (at_rival a w)" "staged_ok c (re_store r) (w_fs (at_rival a w)) st q"
      using tm v rd by (auto simp: tame_def staged_ok_def)
    ultimately show thesis
      using that [of "at_rival a w"] first_reference_step [OF ok] by blast
  next
    case (Some b)
    with iu False have "further_reference a p name mime st w = (res, st', w')"
      by (simp add: insertUpload_def exec_def)
    with that [of w] further_reference_step [OF v rd cf Some] show thesis by blast
  qed
qed

definition idle :: rival where
  "idle w = w"

lemma tame_idle [simp]: "tame c s idle"
  by (simp add: tame_def idle_def)

lemma upload_attempts_step:
  assumes ok: "crypto_ok c" and v: "vault c (re_store r) w" and rd: "staged_ok c (re_store r) (w_fs w) st q"
    and tm: "\<forall>k. tame c (re_store r) (at_rival (att k))" and cf: "collision_free c q"
    and ua: "upload_attempts att r p name mime st w = (res, st', w')"
  shows "vault c (re_store r) w' \<and> staged_ok c (re_store r) (w_fs w') st' q \<and>
    ((\<forall>k. at_rival (att k) = idle) \<longrightarrow>
     (\<exists>k. upload_outcome c (re_store r) w (at_id (att k)) (new_file (u_ID p) name mime q) res w'))"
proof -
  let ?s = "re_store r" and ?f = "new_file (u_ID p) name mime q"
  obtain res1 st1 w1 where first: "insertUpload (att 0) r p name mime st w = (res1, st1, w1)"
    by (metis surjective_pairing)
  obtain w0 where w0: "w0 = w \<or> w0 = at_rival (att 0) w"
      "attempt_result c ?s q w0 (at_id (att 0)) ?f res1 st1 w1"
    using insertUpload_step [OF ok v rd tm [rule_format] cf first] by metis
  show ?thesis
  proof (cases "res1 = Inl (FErrDb UniqueViolation)")
    case False
    then have "res = res1 \<and> st' = st1 \<and> w' = w1"
      using ua first by (auto simp: upload_attempts_def split: sum.splits files_error.splits pg_error.splits)
    then show ?thesis
      using w0 by (auto simp: attempt_result_def idle_def fun_eq_iff)
  next
    case True
    then have second: "insertUpload (att 1) r p name mime st1 w1 = (res, st', w')"
      using ua first by (simp add: upload_attempts_def)
    have v1: "vault c ?s w1" and rd1: "staged_ok c ?s (w_fs w1) st1 q"
        and same: "view c ?s w1 = view c ?s w0"
      using w0(2) True by (auto simp: attempt_result_def upload_outcome_def)
    obtain w2 where w2: "w2 = w1 \<or> w2 = at_rival (att 1) w1"
        "attempt_result c ?s q w2 (at_id (att 1)) ?f res st' w'"
      using insertUpload_step [OF ok v1 rd1 tm [rule_format] cf second] by metis
    have "view c ?s w2 = view c ?s w" if "\<forall>k. at_rival (att k) = idle"
      using that w0(1) w2(1) same by (auto simp: idle_def)
    then show ?thesis
      using w2(2) by (auto simp: attempt_result_def upload_outcome_def)
  qed
qed

lemma read_full_reassembled:
  "read_full n r = Inr (head, rest) \<Longrightarrow> multi_reader head rest = r"
  by (auto simp: read_full_def multi_reader_def split: if_splits option.splits read_error.splits)

lemma read_full_head:
  "read_full n r = Inr (head, rest) \<Longrightarrow> head = take n (rd_data r)"
  by (auto simp: read_full_def split: if_splits option.splits read_error.splits)

lemma Stage_staged:
  assumes ok: "crypto_ok c" and st: "Stage c s rnd flt rd limit fs = (Inr st, fs')" and lim: "sint limit < 2 ^ 63 - 1"
  shows "ready c s fs' st (rd_data rd)"
proof -
  obtain p where p: "read_all_limited (sint (limit + 1)) rd = Inr p" "int (length p) \<le> sint limit"
      and r: "ready c s fs' st p"
    using Stage_ready [OF ok st] by metis
  have "p = rd_data rd"
    using p read_all_limited_short sint_succ [OF lim] by simp
  with r show ?thesis by simp
qed

text \<open>The whole of \<^verbatim>\<open>Upload\<close>, on both of its outcomes.\<close>

lemma Upload_step:
  assumes ok: "crypto_ok c" and v: "vault c (re_store r) w"
    and tm: "\<forall>k. tame c (re_store r) (at_rival (att k))" and cf: "collision_free c (rd_data body)"
    and lim: "sint (re_maxBytes r) < 2 ^ 63 - 1"
    and up: "Upload env flt c u detect r rnd att p filename mime body w = (res, w')"
  shows "vault c (re_store r) w' \<and> ((\<forall>k. at_rival (att k) = idle) \<longrightarrow>
     (view c (re_store r) w' = view c (re_store r) w \<and> isl res) \<or>
     (\<exists>k t. ValidateContent u detect mime (take 512 (rd_data body)) = Inr t \<and>
        upload_outcome c (re_store r) w (at_id (att k))
          (new_file (u_ID p) (SanitizeFilename u filename) t (rd_data body)) res w'))"
proof (cases "read_full 512 body")
  case (Inl e)
  with up v show ?thesis by (auto simp: Upload_def)
next
  case (Inr hr)
  obtain head rest where hr: "hr = (head, rest)" by fastforce
  have head: "head = take 512 (rd_data body)"
    using Inr hr by (intro read_full_head) simp
  have whole: "multi_reader head rest = body" by (rule read_full_reassembled) (use Inr hr in simp)
  show ?thesis
  proof (cases "ValidateContent u detect mime head")
    case (Inl e)
    with up v Inr hr show ?thesis by (auto simp: Upload_def)
  next
    case t: (Inr t)
    obtain sr fs where stg: "Stage c (re_store r) rnd flt body (re_maxBytes r) (w_fs w) = (sr, fs)"
      by fastforce
    have cat: "os.catalogue (c, re_store r) fs (inventory c (re_store r) (w_fs w) (w_db w))"
      by (rule catalogue_kept [OF vault_served [OF v] Stage_frame [OF stg]])
    note w1 = vault_fs [OF v cat]
    show ?thesis
    proof (cases sr)
      case (Inl e)
      with up w1 Inr hr t stg whole show ?thesis by (auto simp: Upload_def)
    next
      case st: (Inr st)
      have rd: "staged_ok c (re_store r) fs st (rd_data body)"
        using Stage_staged [OF ok stg [unfolded st] lim] by (simp add: staged_ok_def)
      obtain res1 st1 w2 where ua: "upload_attempts att r p (SanitizeFilename u filename) t st (w\<lparr>w_fs := fs\<rparr>) = (res1, st1, w2)"
        by (metis surjective_pairing)
      note step = upload_attempts_step [OF ok w1(1) _ tm cf ua, simplified, OF rd]
      define w3 where "w3 = (case res1 of Inl _ \<Rightarrow> w2
          | Inr nd \<Rightarrow> Record env (user_event p ''file.upload'' (nd_ID nd) ResultOK []) w2)"
      have w3: "vault c (re_store r) w3" "view c (re_store r) w3 = view c (re_store r) w2" "w_fs w3 = w_fs w2"
        using step by (auto simp: w3_def split: sum.split)
      have w': "res = res1 \<and> w' = w3\<lparr>w_fs := snd (Abort flt st1 (w_fs w3))\<rparr>"
        using up Inr hr t stg whole st ua by (auto simp: Upload_def w3_def Let_def)
      have "os.catalogue (c, re_store r) (snd (Abort flt st1 (w_fs w3))) (inventory c (re_store r) (w_fs w3) (w_db w3))"
        using step w3(3) by (intro catalogue_kept [OF vault_served [OF w3(1)]] staged_ok_Abort [where q = "rd_data body"]) auto
      from vault_fs [OF w3(1) this] show ?thesis
        using step w' w3(2) t head w1(2) by (auto simp: upload_outcome_def)
    qed
  qed
qed

end
