(* ===== verification/Vault_Ops.thy ===== *)
theory Vault_Ops
  imports Vault
begin

text \<open>
  The operations on stored files seen through the abstract view: what authorisation decides, what a
  reader gets, and the effect of renaming, sharing, revoking and deleting, with the invariant kept
  on every path.
\<close>

section \<open>Authorisation on the view\<close>

definition permitted :: "user \<Rightarrow> vfile \<Rightarrow> action \<Rightarrow> bool" where
  "permitted p f a \<longleftrightarrow> Can (Some p) \<lparr>acl_OwnerID = fl_owner f, acl_Grants = fl_grants f\<rparr> a"

lemma foldl_upd_other:
  "\<forall>g\<in>set gs. g_grantee g \<noteq> uid \<Longrightarrow> foldl (\<lambda>m g. m(g_grantee g \<mapsto> g_role g)) m gs uid = m uid"
  by (induction gs arbitrary: m) auto

lemma foldl_grants:
  "distinct (map g_grantee gs) \<Longrightarrow>
   foldl (\<lambda>m g. m(g_grantee g \<mapsto> g_role g)) m gs uid =
     (case query_row (\<lambda>g. g_grantee g = uid) gs of Some g \<Rightarrow> Some (g_role g) | None \<Rightarrow> m uid)"
proof (induction gs arbitrary: m)
  case Nil
  then show ?case by (simp add: query_row_def)
next
  case (Cons a gs)
  show ?case
  proof (cases "g_grantee a = uid")
    case True
    have "\<forall>g\<in>set gs. g_grantee g \<noteq> g_grantee a" using Cons.prems by (force simp: image_iff)
    then have "\<forall>g\<in>set gs. g_grantee g \<noteq> uid" unfolding True .
    from foldl_upd_other [OF this, of "m(g_grantee a \<mapsto> g_role a)"] True show ?thesis
      by (simp add: query_row_Cons del: fun_upd_apply) simp
  next
    case False
    with Cons show ?thesis by (simp add: query_row_Cons)
  qed
qed

lemma query_row_cong: "(\<And>x. x \<in> set t \<Longrightarrow> P x = Q x) \<Longrightarrow> query_row P t = query_row Q t"
  by (induction t) (simp_all add: query_row_def)

lemma query_row_filter: "query_row P (filter Q t) = query_row (\<lambda>x. Q x \<and> P x) t"
  by (induction t) (auto simp: query_row_def)

lemma distinct_pair_filter:
  "distinct (map (\<lambda>x. (f x, h x)) t) \<Longrightarrow> distinct (map h (filter (\<lambda>x. f x = i) t))"
  by (auto simp: distinct_map inj_on_def)

text \<open>The loop that loads the grants builds the map the table describes.\<close>

lemma load_grants_eq:
  assumes "schema_ok d"
  shows "load_grants i d = grants_of i d"
proof
  fix uid
  have "distinct (map g_grantee (filter (\<lambda>g. g_node g = i) (grants d)))"
    using schema_parts(5) [OF assms] by (intro distinct_pair_filter) (simp add: grants_ok_def)
  then have "load_grants i d uid =
      (case query_row (\<lambda>g. g_grantee g = uid) (filter (\<lambda>g. g_node g = i) (grants d)) of
         Some g \<Rightarrow> Some (g_role g) | None \<Rightarrow> None)"
    by (simp add: load_grants_def select_where_def foldl_grants)
  then show "load_grants i d uid = grants_of i d uid"
    by (cases "query_row (\<lambda>g. g_node g = i \<and> g_grantee g = uid) (grants d)")
      (simp_all add: query_row_filter grants_of_def grant_of_def)
qed

lemma node_row_unique:
  assumes "schema_ok d" and "n \<in> set (nodes d)"
  shows "node_by_id (n_id n) d = Some n"
  using query_row_key [of n_id "nodes d" n] schema_parts(4) [OF assms(1)] assms(2)
  by (simp add: node_by_id_def nodes_ok_def)

lemma node_by_id_Some: "node_by_id i d = Some n \<Longrightarrow> n \<in> set (nodes d) \<and> n_id n = i"
  unfolding node_by_id_def by (drule query_row_Some) simp

lemma node_joins:
  assumes "schema_ok d" and "node_by_id i d = Some n"
  obtains b ou where "blob_by_hash (n_blob n) d = Some b" "user_by_id (n_owner n) d = Some ou"
    "b \<in> set (blobs d)" "b_hash b = n_blob n"
proof -
  have n: "n \<in> set (nodes d)" using node_by_id_Some [OF assms(2)] by simp
  then obtain b u where "b \<in> set (blobs d)" "b_hash b = n_blob n" "u \<in> set (users d)" "ur_id u = n_owner n"
    using schema_parts(4) [OF assms(1)] unfolding nodes_ok_def by blast
  then have "blob_by_hash (n_blob n) d \<noteq> None" "user_by_id (n_owner n) d \<noteq> None"
    by (auto simp: blob_by_hash_def user_by_id_def query_row_None)
  with blob_by_hash_Some that show thesis by blast
qed

definition loaded :: "db \<Rightarrow> node_row \<Rightarrow> blob_row \<Rightarrow> user_row \<Rightarrow> node_state" where
  "loaded d n b ou = \<lparr>ns_node = node_view n b ou [], ns_ownerID = n_owner n, ns_blobHash = n_blob n,
     ns_wrappedDEK = b_wrapped b, ns_acl = \<lparr>acl_OwnerID = n_owner n, acl_Grants = grants_of (n_id n) d\<rparr>\<rparr>"

lemma loadNode_cases:
  assumes s: "schema_ok (w_db w)" and l: "loadNode env i w = x"
  obtains (fault) e where "x = Inl (FErrDb e)" "en_fail env CallLoadNode \<or> en_fail env CallLoadGrants \<or> \<not> pg_uuid i"
  | (missing) "x = Inl FErrNotFound" "node_by_id i (w_db w) = None"
  | (found) n b ou where "x = Inr (loaded (w_db w) n b ou)" "node_by_id i (w_db w) = Some n" "n_id n = i"
      "b \<in> set (blobs (w_db w))" "b_hash b = n_blob n" "blob_by_hash (n_blob n) (w_db w) = Some b"
      "user_by_id (n_owner n) (w_db w) = Some ou"
proof (cases "en_fail env CallLoadNode \<or> \<not> pg_uuid i")
  case True
  then obtain e where "x = Inl (FErrDb e)"
    using l by (auto simp: loadNode_def exec_def Let_def split: if_splits)
  with True fault show thesis by blast
next
  case False
  show thesis
  proof (cases "node_by_id i (w_db w)")
    case None
    with False l missing show thesis by (simp add: loadNode_def exec_def)
  next
    case (Some n)
    obtain b ou where j: "blob_by_hash (n_blob n) (w_db w) = Some b" "user_by_id (n_owner n) (w_db w) = Some ou"
        "b \<in> set (blobs (w_db w))" "b_hash b = n_blob n"
      using node_joins [OF s Some] by blast
    have i: "n_id n = i" using node_by_id_Some [OF Some] by simp
    show thesis
    proof (cases "en_fail env CallLoadGrants")
      case True
      with False Some j l have "x = Inl (FErrDb Unavailable)" by (auto simp: loadNode_def exec_def)
      with True fault show thesis by blast
    next
      case ok: False
      with False Some j l i have "x = Inr (loaded (w_db w) n b ou)"
        by (auto simp: loadNode_def exec_def loaded_def load_grants_eq [OF s])
      with Some i j found show thesis by blast
    qed
  qed
qed

definition with_role :: "user \<Rightarrow> node_state \<Rightarrow> node_state" where
  "with_role p st = st\<lparr>ns_node := (ns_node st)\<lparr>nd_MyRole :=
     (if u_ID p = ns_ownerID st then ''owner''
      else case acl_Grants (ns_acl st) (u_ID p) of Some role \<Rightarrow> role | None \<Rightarrow> [])\<rparr>\<rparr>"

definition denial :: "env \<Rightarrow> user \<Rightarrow> action \<Rightarrow> string \<Rightarrow> string \<Rightarrow> world \<Rightarrow> world" where
  "denial env p a i reason w = Record env (user_event p (''file.'' @ a) i ResultDenied reason) w"

lemma permitted_loaded:
  "permitted p (abs_node c s fs d n) a \<longleftrightarrow> Can (Some p) (ns_acl (loaded d n b ou)) a"
  by (simp add: permitted_def abs_node_def loaded_def)

text \<open>Every way an authorisation can end, in terms of the abstract view.\<close>

lemma authorize_cases:
  assumes v: "vault c s w" and a: "authorize env p i a w = (res, w')"
  obtains (fault) e where "res = Inl (FErrDb e)" "w' = w"
      "en_fail env CallLoadNode \<or> en_fail env CallLoadGrants \<or> \<not> pg_uuid i"
  | (missing) "res = Inl FErrNotFound" "w' = denial env p a i ''not_found'' w" "view c s w i = None"
  | (denied) f where "res = Inl FErrNotFound" "w' = denial env p a i ''no_grant'' w" "view c s w i = Some f"
      "\<not> permitted p f a"
  | (allowed) n b ou where "res = Inr (with_role p (loaded (w_db w) n b ou))" "w' = w"
      "node_by_id i (w_db w) = Some n" "n_id n = i" "b \<in> set (blobs (w_db w))" "b_hash b = n_blob n"
      "blob_by_hash (n_blob n) (w_db w) = Some b" "user_by_id (n_owner n) (w_db w) = Some ou"
      "view c s w i = Some (abs_node c s (w_fs w) (w_db w) n)" "permitted p (abs_node c s (w_fs w) (w_db w) n) a"
proof -
  have view: "view c s w i = map_option (abs_node c s (w_fs w) (w_db w)) (node_by_id i (w_db w))"
    by (simp add: view_def file_map_def)
  obtain x where x: "loadNode env i w = x" by blast
  show thesis
  proof (cases rule: loadNode_cases [OF vault_schema [OF v] x])
    case (1 e)
    with a x have "res = Inl (FErrDb e)" "w' = w" by (auto simp: authorize_def)
    from this 1(2) show thesis by (rule fault)
  next
    case 2
    with a x have "res = Inl FErrNotFound" "w' = denial env p a i ''not_found'' w"
      by (auto simp: authorize_def denial_def)
    then show thesis by (rule missing) (simp add: view 2)
  next
    case (3 n b ou)
    show thesis
    proof (cases "Can (Some p) (ns_acl (loaded (w_db w) n b ou)) a")
      case True
      with a x 3 have "res = Inr (with_role p (loaded (w_db w) n b ou))" "w' = w"
        by (auto simp: authorize_def with_role_def)
    with 3 True view permitted_loaded [of p c s "w_fs w" "w_db w" n a b ou] show thesis by (intro allowed) auto
    next
      case False
      with a x 3 have "res = Inl FErrNotFound" "w' = denial env p a i ''no_grant'' w"
        by (auto simp: authorize_def denial_def)
    with 3 False view permitted_loaded [of p c s "w_fs w" "w_db w" n a b ou] show thesis by (intro denied) auto
    qed
  qed
qed

lemma authorize_allowed:
  assumes v: "vault c s w" and f: "view c s w i = Some f" and p: "permitted p f a"
    and ok: "pg_uuid i" "\<not> en_fail env CallLoadNode" "\<not> en_fail env CallLoadGrants"
  obtains st where "authorize env p i a w = (Inr st, w)" "ns_ownerID st = fl_owner f" "node_by_id i (w_db w) \<noteq> None"
proof -
  obtain res w' where x: "authorize env p i a w = (res, w')" by fastforce
  show thesis
  proof (cases rule: authorize_cases [OF v x])
    case (4 n b ou)
    have "f = abs_node c s (w_fs w) (w_db w) n" using f 4(9) by simp
    then have "ns_ownerID (with_role p (loaded (w_db w) n b ou)) = fl_owner f"
      by (simp add: with_role_def loaded_def abs_node_def)
    with x 4(1-3) that show thesis by simp
  qed (use ok f p in simp_all)
qed

lemma denial_frame [simp]:
  "vault c s w \<Longrightarrow> vault c s (denial env p a i reason w)" "view c s (denial env p a i reason w) = view c s w"
  "core (w_db (denial env p a i reason w)) = core (w_db w)" "w_fs (denial env p a i reason w) = w_fs w"
  by (simp_all add: denial_def)

lemma authorize_frame:
  assumes "vault c s w" and "authorize env p i a w = (res, w')"
  shows "vault c s w' \<and> view c s w' = view c s w"
  using assms by (rule authorize_cases) (use assms(1) in simp_all)

section \<open>Reading\<close>

lemma content_served:
  assumes v: "vault c s w" and n: "node_by_id i (w_db w) = Some n" and b: "blob_by_hash (n_blob n) (w_db w) = Some b"
    and flt: "\<not> flt CallReadFile"
  shows "Open c s flt (w_fs w) (n_blob n) (b_wrapped b) = Inr (fl_content (abs_node c s (w_fs w) (w_db w) n))"
proof -
  have b': "b \<in> set (blobs (w_db w))" "b_hash b = n_blob n" using blob_by_hash_Some [OF b] by simp_all
  from served_reads [OF vault_served [OF v] b'(1)] show ?thesis
    using flt by (simp add: Open_reads abs_node_def blob_content_def b b'(2))
qed

text \<open>Without faults, a download gives the content of the abstract file to whom it is permitted.\<close>

lemma Download_view:
  assumes v: "vault c (re_store r) w" and i: "pg_uuid i"
    and ok: "\<not> en_fail env CallLoadNode" "\<not> en_fail env CallLoadGrants" "\<not> flt CallReadFile"
    and d: "Download env flt c r p i w = (res, w')"
  shows "case view c (re_store r) w i of
      None \<Rightarrow> res = Inl FErrNotFound \<and> w' = denial env p ActionDownload i ''not_found'' w
    | Some f \<Rightarrow>
        if permitted p f ActionDownload
        then (\<exists>nd. res = Inr (nd, fl_content f) \<and> nd_ID nd = i \<and> nd_Name nd = fl_name f \<and> nd_MimeType nd = fl_mime f) \<and>
          w' = Record env (user_event p ''file.download'' i ResultOK []) w
        else res = Inl FErrNotFound \<and> w' = denial env p ActionDownload i ''no_grant'' w"
proof -
  obtain ar w1 where a: "authorize env p i ActionDownload w = (ar, w1)" by fastforce
  show ?thesis
  proof (cases rule: authorize_cases [OF v a])
    case (4 n b ou)
    have o: "Open c (re_store r) flt (w_fs w) (n_blob n) (b_wrapped b) =
        Inr (fl_content (abs_node c (re_store r) (w_fs w) (w_db w) n))"
      by (rule content_served [where i = i, OF v]) (use 4 ok in simp_all)
    have "res = Inr (ns_node (with_role p (loaded (w_db w) n b ou)), fl_content (abs_node c (re_store r) (w_fs w) (w_db w) n)) \<and>
        w' = Record env (user_event p ''file.download'' i ResultOK []) w"
      using d a 4(1,2) o by (auto simp: Download_def with_role_def loaded_def)
    then show ?thesis
      using 4 by (simp add: with_role_def loaded_def node_view_def abs_node_def)
  qed (use d a i ok in \<open>auto simp: Download_def\<close>)
qed

section \<open>Deleting\<close>

lemma delete_node_forms [simp]:
  "users (delete_node i d) = users d" "blobs (delete_node i d) = blobs d"
  "nodes (delete_node i d) = delete_where (\<lambda>n. n_id n = i) (nodes d)"
  "grants (delete_node i d) = delete_where (\<lambda>g. g_node g = i) (grants d)"
  by (simp_all add: delete_node_def)

lemma node_count_delete:
  assumes s: "schema_ok d" and n: "node_by_id i d = Some n"
  shows "node_count h d = node_count h (delete_node i d) + (if h = n_blob n then 1 else 0)"
proof -
  have dist: "distinct (map n_id (nodes d))" using schema_parts(4) [OF s] by (simp add: nodes_ok_def)
  note in_n = node_by_id_Some [OF n]
  have del: "node_count h (delete_node i d) = count_where (\<lambda>x. n_blob x = h \<and> n_id x \<noteq> n_id n) (nodes d)"
    using in_n by (simp add: node_count_def count_where_delete)
  show ?thesis
  proof (cases "h = n_blob n")
    case True
    with count_where_split_one [OF dist, of n "\<lambda>x. n_blob x = h"] in_n del show ?thesis
      by (simp add: node_count_def)
  next
    case False
    have "n_id x \<noteq> n_id n" if "x \<in> set (nodes d)" "n_blob x = h" for x
      using distinct_key_unique [OF dist, of x n] that in_n False by auto
    then have "count_where (\<lambda>x. n_blob x = h \<and> n_id x \<noteq> n_id n) (nodes d) = node_count h d"
      unfolding node_count_def by (intro count_where_cong) blast
    with False del show ?thesis by simp
  qed
qed

lemma owner_ok_subset:
  "owner_ok d \<Longrightarrow> set (nodes d') \<subseteq> set (nodes d) \<Longrightarrow> set (grants d') \<subseteq> set (grants d) \<Longrightarrow> owner_ok d'"
  unfolding owner_ok_def by blast

lemma file_map_delete_node:
  "file_map c s fs (delete_node i d) = (file_map c s fs d)(i := None)"
proof
  fix k
  show "file_map c s fs (delete_node i d) k = ((file_map c s fs d)(i := None)) k"
  proof (cases "k = i")
    case True
    then show ?thesis
      by (simp add: file_map_def node_by_id_def query_row_None set_delete_where)
  next
    case False
    have node: "node_by_id k (delete_node i d) = node_by_id k d"
      using False by (simp add: node_by_id_def delete_where_def query_row_filter cong: conj_cong)
        (metis (mono_tags, opaque_lifting))
    have "grants_of k (delete_node i d) = grants_of k d"
    proof
      fix uid
      have "query_row (\<lambda>g. g_node g \<noteq> i \<and> g_node g = k \<and> g_grantee g = uid) (grants d) =
          query_row (\<lambda>g. g_node g = k \<and> g_grantee g = uid) (grants d)"
        using False by (intro query_row_cong) auto
      then show "grants_of k (delete_node i d) uid = grants_of k d uid"
        by (simp add: grants_of_def grant_of_def delete_where_def query_row_filter)
    qed
    then have "abs_node c s fs (delete_node i d) n = abs_node c s fs d n" if "node_by_id k d = Some n" for n
      using node_by_id_Some [OF that] by (simp add: abs_node_def blob_content_def blob_by_hash_def)
    with node False show ?thesis by (cases "node_by_id k d") (simp_all add: file_map_def)
  qed
qed

lemma refs_update_lookup:
  "query_row (\<lambda>b. b_hash b = h) (update_where (\<lambda>b. b_hash b = h) (\<lambda>b. b\<lparr>b_refs := b_refs b + k\<rparr>) t) =
   map_option (\<lambda>b. b\<lparr>b_refs := b_refs b + k\<rparr>) (query_row (\<lambda>b. b_hash b = h) t)"
  by (induction t) (auto simp: query_row_def update_where_def)

text \<open>Once a node of blob \<open>h\<close> is gone and its reference given back, only \<open>h\<close> may have none left.\<close>

definition released :: "bytes \<Rightarrow> db \<Rightarrow> bool" where
  "released h d \<longleftrightarrow> schema_ok d \<and> owner_ok d \<and>
     (\<forall>b\<in>set (blobs d). b_refs b = int (node_count (b_hash b) d) \<and> (b_hash b \<noteq> h \<longrightarrow> 1 \<le> node_count (b_hash b) d))"

lemma released_refs: "released h d \<Longrightarrow> blob_by_hash h d = Some b \<Longrightarrow> b_refs b = int (node_count h d)"
  unfolding released_def using blob_by_hash_Some by blast

lemma dereferenced:
  assumes m: "meta_ok d" and n: "node_by_id i d = Some n" and a: "add_refs (- 1) (n_blob n) (delete_node i d) = Inr d2"
  shows "released (n_blob n) d2" "blob_by_hash (n_blob n) d2 \<noteq> None"
    "file_map c s fs d2 = (file_map c s fs d)(i := None)" "served c s fs d \<Longrightarrow> served c s fs d2"
proof -
  let ?h = "n_blob n" and ?d1 = "delete_node i d"
  note s = meta_parts(1) [OF m]
  obtain b where b: "blob_by_hash ?h d = Some b" using node_joins [OF s n] by metis
  have d2: "d2 = ?d1\<lparr>blobs := update_where (\<lambda>b. b_hash b = ?h) (\<lambda>b. b\<lparr>b_refs := b_refs b + - 1\<rparr>) (blobs d)\<rparr>"
    using a by (cases rule: add_refs_cases) (use b in \<open>simp_all add: blob_by_hash_def\<close>)
  show "blob_by_hash ?h d2 \<noteq> None"
    using b refs_update_lookup [of ?h "- 1" "blobs d"] unfolding d2 by (simp add: blob_by_hash_def)
  have "b_refs x = int (node_count (b_hash x) d2) \<and> (b_hash x \<noteq> ?h \<longrightarrow> 1 \<le> node_count (b_hash x) d2)"
    if x: "x \<in> set (blobs d2)" for x
  proof -
    obtain y where y: "y \<in> set (blobs d)" "x = (if b_hash y = ?h then y\<lparr>b_refs := b_refs y + - 1\<rparr> else y)"
      using x by (auto simp: d2 set_update_where)
    have nc: "node_count h d2 = node_count h ?d1" for h by (simp add: d2 node_count_def)
    have "b_refs y = int (node_count (b_hash y) d) \<and> 1 \<le> node_count (b_hash y) d"
      using meta_parts(3) [OF m] y(1) by (simp add: refs_ok_def)
    then show ?thesis
      using y(2) nc node_count_delete [OF s n, of "b_hash y"] by (cases "b_hash y = ?h") auto
  qed
  moreover have "schema_ok d2" by (rule schema_add_refs [OF schema_delete_node [OF s] a])
  moreover have "owner_ok d2"
    by (rule owner_ok_subset [OF meta_parts(2) [OF m]]) (auto simp: d2 set_delete_where)
  ultimately show "released ?h d2" by (simp add: released_def)
  have "nodes d2 = nodes ?d1" "grants d2 = grants ?d1" by (simp_all add: d2)
  then have "file_map c s fs d2 = file_map c s fs ?d1"
    by (rule file_map_cong) (rule blob_content_add_refs [OF a])
  then show "file_map c s fs d2 = (file_map c s fs d)(i := None)"
    by (simp add: file_map_delete_node)
  show "served c s fs d2" if "served c s fs d"
    by (rule served_add_refs [OF served_cong [OF that] a]) simp
qed

lemma released_kept:
  assumes "released h d" and "1 \<le> node_count h d"
  shows "meta_ok d"
proof -
  have "1 \<le> node_count (b_hash x) d" if "x \<in> set (blobs d)" for x
    using assms that by (cases "b_hash x = h") (auto simp: released_def)
  with assms(1) show ?thesis by (simp add: meta_ok_def released_def refs_ok_def)
qed

lemma released_dropped:
  assumes r: "released h d" and zero: "node_count h d = 0" and db: "delete_blob h d = Inr d'"
  shows "meta_ok d'" "file_map c s fs d' = file_map c s fs d" "served c s fs d \<Longrightarrow> served c s fs d'"
    "h \<notin> b_hash ` set (blobs d')"
proof -
  have d': "d' = d\<lparr>blobs := delete_where (\<lambda>b. b_hash b = h) (blobs d)\<rparr>"
    using db by (auto simp: delete_blob_def split: if_splits)
  have "schema_ok d'" using schema_delete_blob db r unfolding released_def by blast
  moreover have "owner_ok d'" using r by (simp add: d' owner_ok_def released_def)
  moreover have "refs_ok d'"
    using r by (simp add: d' refs_ok_def released_def set_delete_where node_count_def)
  ultimately show "meta_ok d'" by (simp add: meta_ok_def)
  show "served c s fs d'" if "served c s fs d"
    by (rule served_subset [OF that]) (auto simp: d' set_delete_where)
  show "h \<notin> b_hash ` set (blobs d')" by (auto simp: d' set_delete_where)
  show "file_map c s fs d' = file_map c s fs d"
  proof (rule file_map_cong)
    fix x
    assume "x \<in> set (nodes d)"
    then have "n_blob x \<noteq> h" using zero by (auto simp: node_count_def count_where_zero)
    then have "query_row (\<lambda>b. b_hash b \<noteq> h \<and> b_hash b = n_blob x) (blobs d) = query_row (\<lambda>b. b_hash b = n_blob x) (blobs d)"
      by (intro query_row_cong) auto
    then show "blob_content c s fs d' (n_blob x) = blob_content c s fs d (n_blob x)"
      by (simp add: d' blob_content_def blob_by_hash_def delete_where_def query_row_filter)
  qed (simp_all add: d')
qed

text \<open>
  The transaction of \<^verbatim>\<open>Delete\<close>, when it goes through: the count reaches zero exactly when no node
  refers to the blob any more, and then its row is gone.
\<close>

lemma delete_tx_step:
  assumes m: "meta_ok d" and n: "node_by_id i d = Some n"
    and t: "delete_tx env i (n_blob n) d = Inr (refs, d')"
  shows "meta_ok d' \<and> file_map c s fs d' = (file_map c s fs d)(i := None) \<and>
    (served c s fs d \<longrightarrow> served c s fs d') \<and> (refs = 0 \<longrightarrow> n_blob n \<notin> b_hash ` set (blobs d'))"
proof -
  from t obtain d2 where d2: "add_refs (- 1) (n_blob n) (delete_node i d) = Inr d2"
    by (auto simp: delete_tx_def exec_def split: if_splits sum.splits)
  note deref = dereferenced [OF m n d2]
  obtain b where b: "blob_by_hash (n_blob n) d2 = Some b" using deref(2) by blast
  note refs = released_refs [OF deref(1) b]
  show ?thesis
  proof (cases "b_refs b = 0")
    case False
    then have "d' = d2 \<and> refs = b_refs b"
      using t d2 b by (auto simp: delete_tx_def exec_def split: if_splits)
    with False refs released_kept [OF deref(1)] deref(3,4) show ?thesis by auto
  next
    case True
    then have "delete_blob (n_blob n) d2 = Inr d' \<and> refs = 0"
      using t d2 b by (auto simp: delete_tx_def exec_def split: if_splits sum.splits)
    with released_dropped [OF deref(1)] True refs deref(3,4) show ?thesis by simp
  qed
qed

text \<open>
  A rival does not bring content back when no blob reappears that was not there before.
\<close>

definition no_republish :: "rival \<Rightarrow> bool" where
  "no_republish rv \<longleftrightarrow> (\<forall>w h. h \<notin> b_hash ` set (blobs (w_db w)) \<longrightarrow> h \<notin> b_hash ` set (blobs (w_db (rv w))))"

lemma no_republish_idle [simp]: "no_republish idle"
  by (simp add: no_republish_def idle_def)

lemma removed:
  assumes v: "vault c s w" and gone: "h \<notin> b_hash ` set (blobs (w_db w))" and h: "length h = HashSize"
    and rm: "Remove s flt h (w_fs w) = (x, fs)"
  shows "vault c s (w\<lparr>w_fs := fs\<rparr>)" "view c s (w\<lparr>w_fs := fs\<rparr>) = view c s w"
proof -
  have "os.catalogue (c, s) fs (inventory c s (w_fs w) (w_db w))"
  proof (rule catalogue_kept [OF vault_served [OF v]])
    fix h' k q
    assume "reads c s (w_fs w) h' k q" "h' \<in> b_hash ` set (blobs (w_db w))"
    with Remove_frame [OF _ h, of h' c s "w_fs w" k q flt] gone rm show "reads c s fs h' k q"
      by auto
  qed
  from vault_fs [OF v this] show "vault c s (w\<lparr>w_fs := fs\<rparr>)" "view c s (w\<lparr>w_fs := fs\<rparr>) = view c s w"
    by blast+
qed

lemma finish_delete_step:
  assumes v: "vault c (re_store r) w" and rv: "tame c (re_store r) rv" "no_republish rv"
    and h: "length h = HashSize" and gone: "refs = 0 \<Longrightarrow> h \<notin> b_hash ` set (blobs (w_db w))"
    and f: "finish_delete env flt r rv p i h refs w = (res, w')"
  shows "vault c (re_store r) w' \<and> (rv = idle \<longrightarrow> view c (re_store r) w' = view c (re_store r) w)"
proof (cases "refs = 0")
  case False
  with f v show ?thesis by (auto simp: finish_delete_def)
next
  case True
  have v1: "vault c (re_store r) (rv w)" using rv(1) v by (simp add: tame_def)
  have gone1: "h \<notin> b_hash ` set (blobs (w_db (rv w)))" using rv(2) gone [OF True] by (simp add: no_republish_def)
  obtain rr fs where rm: "Remove (re_store r) flt h (w_fs (rv w)) = (rr, fs)" by fastforce
  note rem = removed [OF v1 gone1 h rm]
  have "w' = (rv w)\<lparr>w_fs := fs\<rparr> \<or> w' = Record env (user_event p ''file.delete'' i ResultOK []) ((rv w)\<lparr>w_fs := fs\<rparr>)"
    using f True rm by (cases rr) (auto simp: finish_delete_def)
  with rem show ?thesis by (auto simp: idle_def)
qed

lemma loaded_hash [simp]: "ns_blobHash (with_role p (loaded d n b ou)) = n_blob n"
  by (simp add: with_role_def loaded_def)

lemma Delete_step:
  assumes v: "vault c (re_store r) w" and rv: "tame c (re_store r) rv" "no_republish rv"
    and d: "Delete env flt r idle rv p i w = (res, w')"
  shows "vault c (re_store r) w' \<and> (rv = idle \<longrightarrow>
     (view c (re_store r) w' = view c (re_store r) w \<and> isl res) \<or>
     (view c (re_store r) w' = (view c (re_store r) w)(i := None) \<and>
       (\<exists>f. view c (re_store r) w i = Some f \<and> permitted p f ActionDelete)))"
proof -
  obtain ar w1 where a: "authorize env p i ActionDelete w = (ar, w1)" by fastforce
  show ?thesis
  proof (cases rule: authorize_cases [OF v a])
    case (4 n b ou)
    let ?s = "re_store r" and ?h = "n_blob n"
    have len: "length ?h = HashSize"
      using reads_length [OF served_reads [OF vault_served [OF v] 4(5)]] 4(6) by simp
    consider "w' = w" "isl res" | refs d' where "delete_tx env i ?h (w_db w) = Inr (refs, d')"
        "w' = w\<lparr>w_db := d'\<rparr> \<or> finish_delete env flt r rv p i ?h refs (w\<lparr>w_db := d'\<rparr>) = (res, w')"
      using d a 4(1,2)
      by (auto simp: Delete_def idle_def Let_def commit_tx_def split: if_splits sum.splits commit_outcome.splits)
    then show ?thesis
    proof cases
      case 1
      with v show ?thesis by simp
    next
      case (2 refs d')
      note step = delete_tx_step [OF vault_meta [OF v] 4(3) 2(1), where c = c and s = ?s and fs = "w_fs w"]
      have v3: "vault c ?s (w\<lparr>w_db := d'\<rparr>)" and view3: "view c ?s (w\<lparr>w_db := d'\<rparr>) = (view c ?s w)(i := None)"
        using step vault_served [OF v] by (simp_all add: vault_def view_def)
      from 2(2) have "vault c ?s w' \<and> (rv = idle \<longrightarrow> view c ?s w' = view c ?s (w\<lparr>w_db := d'\<rparr>))"
      proof
        assume "finish_delete env flt r rv p i ?h refs (w\<lparr>w_db := d'\<rparr>) = (res, w')"
        from finish_delete_step [OF v3 rv len _ this] step show ?thesis by simp
      qed (use v3 in simp)
      then show ?thesis using view3 4(9,10) by auto
    qed
  qed (use d a v in \<open>auto simp: Delete_def\<close>)
qed

section \<open>Renaming\<close>

lemma node_count_update_name:
  "(\<And>n. n_blob (f n) = n_blob n) \<Longrightarrow> nodes d' = update_where P f (nodes d) \<Longrightarrow> node_count h d' = node_count h d"
  by (simp add: node_count_def count_where_update)

lemma rename_view:
  assumes m: "meta_ok d" and r: "rename_node i nm t d = Inr d'" and f: "file_map c s fs d i = Some f"
  shows "meta_ok d'" "blobs d' = blobs d" "file_map c s fs d' = (file_map c s fs d)(i \<mapsto> f\<lparr>fl_name := nm\<rparr>)"
proof -
  let ?upd = "\<lambda>n. n\<lparr>n_name := nm, n_updated := t\<rparr>"
  have d': "d' = d\<lparr>nodes := update_where (\<lambda>n. n_id n = i) ?upd (nodes d)\<rparr>"
    using r by (auto simp: rename_node_def split: if_splits)
  show blobs: "blobs d' = blobs d" by (simp add: d')
  have "node_count h d' = node_count h d" for h
    by (rule node_count_update_name [of ?upd]) (simp_all add: d')
  then have "refs_ok d'" using meta_parts(3) [OF m] by (simp add: refs_ok_def blobs)
  moreover have "owner_ok d'"
    using meta_parts(2) [OF m] by (simp add: owner_ok_def d' ball_update_where)
  moreover have "schema_ok d'" by (rule schema_rename_node [OF meta_parts(1) [OF m] r])
  ultimately show "meta_ok d'" by (simp add: meta_ok_def)
  have look: "node_by_id k d' = map_option (\<lambda>n. if n_id n = i then ?upd n else n) (node_by_id k d)" for k
    by (simp add: node_by_id_def d' query_row_update_where)
  have abs: "abs_node c s fs d' n = abs_node c s fs d n" for n
    by (simp add: abs_node_def d' blob_content_def blob_by_hash_def grants_of_def grant_of_def fun_eq_iff)
  obtain n where n: "node_by_id i d = Some n" "f = abs_node c s fs d n"
    using f by (auto simp: file_map_def)
  have "abs_node c s fs d (?upd n) = f\<lparr>fl_name := nm\<rparr>" by (simp add: n(2) abs_node_def)
  then show "file_map c s fs d' = (file_map c s fs d)(i \<mapsto> f\<lparr>fl_name := nm\<rparr>)"
    using n(1) node_by_id_Some
    by (auto simp: fun_eq_iff file_map_def look abs option.map_comp intro!: option.map_cong0 dest: node_by_id_Some)
qed

section \<open>Sharing\<close>

definition share_row :: "string \<Rightarrow> string \<Rightarrow> string \<Rightarrow> string \<Rightarrow> grant_row" where
  "share_row i uid role by = \<lparr>g_node = i, g_grantee = uid, g_role = role, g_by = by\<rparr>"

lemma upsert_grant_cases:
  assumes "upsert_grant r d = Inr d'"
  obtains (update) "d' = d\<lparr>grants := update_where (\<lambda>x. g_node x = g_node r \<and> g_grantee x = g_grantee r)
      (\<lambda>x. x\<lparr>g_role := g_role r\<rparr>) (grants d)\<rparr>" "\<exists>x\<in>set (grants d). g_node x = g_node r \<and> g_grantee x = g_grantee r"
  | (insert) "d' = d\<lparr>grants := grants d @ [r]\<rparr>" "\<forall>x\<in>set (grants d). \<not> (g_node x = g_node r \<and> g_grantee x = g_grantee r)"
  using assms by (auto simp: upsert_grant_def split: if_splits)

lemma upsert_lookup:
  assumes "upsert_grant r d = Inr d'"
  shows "map_option g_role (grant_of i uid d') =
    (if i = g_node r \<and> uid = g_grantee r then Some (g_role r) else map_option g_role (grant_of i uid d))"
  using assms
proof (cases rule: upsert_grant_cases)
  case update
  have look: "grant_of i uid d' = map_option (\<lambda>x. if g_node x = g_node r \<and> g_grantee x = g_grantee r
      then x\<lparr>g_role := g_role r\<rparr> else x) (grant_of i uid d)"
    by (simp add: update(1) grant_of_def query_row_update_where)
  show ?thesis
  proof (cases "i = g_node r \<and> uid = g_grantee r")
    case True
    then have "grant_of i uid d \<noteq> None"
      using update(2) by (auto simp: grant_of_def query_row_None)
    then obtain g where g: "grant_of i uid d = Some g" by blast
    have "g_node g = i \<and> g_grantee g = uid"
      using query_row_Some [OF g [unfolded grant_of_def]] by simp
    then have "grant_of i uid d' = Some (g\<lparr>g_role := g_role r\<rparr>)"
      unfolding look g using True by simp
    with True show ?thesis by simp
  next
    case False
    have "\<not> (g_node g = g_node r \<and> g_grantee g = g_grantee r)" if "grant_of i uid d = Some g" for g
      using query_row_Some [OF that [unfolded grant_of_def]] False by auto
    then show ?thesis using False by (cases "grant_of i uid d") (auto simp: look)
  qed
next
  case insert
  have "query_row (\<lambda>g. g_node g = i \<and> g_grantee g = uid) (grants d) = None" if "i = g_node r \<and> uid = g_grantee r"
    using insert(2) that by (auto simp: query_row_None)
  then show ?thesis
    by (auto simp: insert(1) grant_of_def query_row_append query_row_Cons query_row_Nil split: option.split)
qed

lemma grants_frame:
  assumes "nodes d' = nodes d" "blobs d' = blobs d" and "\<And>k. k \<noteq> i \<Longrightarrow> grants_of k d' = grants_of k d"
    and f: "file_map c s fs d i = Some f"
  shows "file_map c s fs d' = (file_map c s fs d)(i \<mapsto> f\<lparr>fl_grants := grants_of i d'\<rparr>)"
proof
  fix k
  have node: "node_by_id k d' = node_by_id k d" by (simp add: node_by_id_def assms(1))
  have bc: "blob_content c s fs d' h = blob_content c s fs d h" for h
    by (rule blob_content_cong [OF assms(2)])
  show "file_map c s fs d' k = ((file_map c s fs d)(i \<mapsto> f\<lparr>fl_grants := grants_of i d'\<rparr>)) k"
  proof (cases "node_by_id k d")
    case None
    with f show ?thesis by (auto simp: file_map_def node)
  next
    case (Some n)
    then have "n_id n = k" using node_by_id_Some by blast
    with Some f show ?thesis
      by (auto simp: file_map_def node abs_node_def bc assms(3))
  qed
qed

lemma share_view:
  assumes m: "meta_ok d" and u: "upsert_grant r d = Inr d'" and f: "file_map c s fs d (g_node r) = Some f"
    and ne: "g_grantee r \<noteq> fl_owner f"
  shows "meta_ok d'" "blobs d' = blobs d"
    "file_map c s fs d' = (file_map c s fs d)(g_node r \<mapsto> f\<lparr>fl_grants := (fl_grants f)(g_grantee r \<mapsto> g_role r)\<rparr>)"
proof -
  have eq: "nodes d' = nodes d" and blobs: "blobs d' = blobs d"
    using u by (auto elim: upsert_grant_cases)
  show "blobs d' = blobs d" by (rule blobs)
  obtain n where n: "node_by_id (g_node r) d = Some n" "f = abs_node c s fs d n"
    using f by (auto simp: file_map_def)
  have n': "n \<in> set (nodes d)" "n_id n = g_node r" using node_by_id_Some [OF n(1)] by simp_all
  have owner: "n_owner x \<noteq> g_grantee r" if "x \<in> set (nodes d)" "n_id x = g_node r" for x
    using node_row_unique [OF meta_parts(1) [OF m] that(1)] n that(2) ne by (simp add: abs_node_def)
  have "owner_ok d'"
    using u
  proof (cases rule: upsert_grant_cases)
    case update
    with meta_parts(2) [OF m] owner show ?thesis by (auto simp: owner_ok_def ball_update_where)
  next
    case insert
    with meta_parts(2) [OF m] owner show ?thesis by (auto simp: owner_ok_def)
  qed
  moreover have "refs_ok d'"
    using meta_parts(3) [OF m] by (simp add: refs_ok_def blobs node_count_def eq)
  ultimately show "meta_ok d'"
    using schema_upsert_grant [OF meta_parts(1) [OF m] u] by (simp add: meta_ok_def)
  have g: "grants_of k d' = (if k = g_node r then (grants_of k d)(g_grantee r \<mapsto> g_role r) else grants_of k d)" for k
    by (auto simp: grants_of_def upsert_lookup [OF u] fun_eq_iff)
  have "fl_grants f = grants_of (g_node r) d" using n' by (simp add: n(2) abs_node_def)
  then show "file_map c s fs d' = (file_map c s fs d)(g_node r \<mapsto> f\<lparr>fl_grants := (fl_grants f)(g_grantee r \<mapsto> g_role r)\<rparr>)"
    using grants_frame [OF eq blobs _ f] by (simp add: g)
qed

section \<open>Revoking\<close>

lemma schema_delete_grants:
  assumes "schema_ok d"
  shows "schema_ok (d\<lparr>grants := delete_where P (grants d)\<rparr>)"
proof -
  have "grants_ok (d\<lparr>grants := delete_where P (grants d)\<rparr>)"
    using schema_parts(5) [OF assms] by (simp add: grants_ok_def set_delete_where)
  then show ?thesis
    using schema_parts [OF assms] by (intro schema_okI) simp_all
qed

text \<open>A user name names at most one user, so a revocation takes away at most one grant.\<close>

lemma names_grantee_eq:
  assumes s: "schema_ok d" and u: "user_by_name nm d = Some us"
  shows "names_grantee i nm d g \<longleftrightarrow> g_node g = i \<and> g_grantee g = ur_id us"
proof -
  have us: "us \<in> set (users d)" "ur_username us = nm"
    using query_row_Some [OF u [unfolded user_by_name_def]] by simp_all
  have "x = us" if "x \<in> set (users d)" "ur_username x = nm" for x
    using distinct_key_unique [of ur_username "users d" x us] us that schema_parts(1) [OF s]
    by (simp add: users_ok_def)
  with us show ?thesis unfolding names_grantee_def by blast
qed

lemma names_grantee_unknown: "user_by_name nm d = None \<Longrightarrow> \<not> names_grantee i nm d g"
  by (auto simp: names_grantee_def user_by_name_def query_row_None)

lemma revoke_view:
  assumes m: "meta_ok d" and u: "user_by_name nm d = Some us" and f: "file_map c s fs d i = Some f"
  defines "d' \<equiv> d\<lparr>grants := delete_where (names_grantee i nm d) (grants d)\<rparr>"
  shows "meta_ok d'" "blobs d' = blobs d"
    "file_map c s fs d' = (file_map c s fs d)(i \<mapsto> f\<lparr>fl_grants := (fl_grants f)(ur_id us := None)\<rparr>)"
    "count_where (names_grantee i nm d) (grants d) = 0 \<longleftrightarrow> fl_grants f (ur_id us) = None"
proof -
  note s = meta_parts(1) [OF m]
  have eq: "nodes d' = nodes d" and blobs: "blobs d' = blobs d" by (simp_all add: d'_def)
  show "blobs d' = blobs d" by (rule blobs)
  have "owner_ok d'" by (rule owner_ok_subset [OF meta_parts(2) [OF m]]) (auto simp: d'_def set_delete_where)
  moreover have "refs_ok d'"
    using meta_parts(3) [OF m] by (simp add: refs_ok_def blobs node_count_def eq)
  moreover have "schema_ok d'" unfolding d'_def by (rule schema_delete_grants [OF s])
  ultimately show "meta_ok d'" by (simp add: meta_ok_def)
  obtain n where n: "node_by_id i d = Some n" "f = abs_node c s fs d n"
    using f by (auto simp: file_map_def)
  have fg: "fl_grants f = grants_of i d" using node_by_id_Some [OF n(1)] by (simp add: n(2) abs_node_def)
  have other: "grants_of k d' uid = grants_of k d uid" if "k \<noteq> i \<or> uid \<noteq> ur_id us" for k uid
  proof -
    have "query_row (\<lambda>g. \<not> names_grantee i nm d g \<and> g_node g = k \<and> g_grantee g = uid) (grants d) =
        query_row (\<lambda>g. g_node g = k \<and> g_grantee g = uid) (grants d)"
      using that by (intro query_row_cong) (auto simp: names_grantee_eq [OF s u])
    then show ?thesis
      by (simp add: grants_of_def grant_of_def d'_def delete_where_def query_row_filter)
  qed
  have none: "grants_of i d' (ur_id us) = None"
    by (auto simp: grants_of_def grant_of_def query_row_None d'_def set_delete_where names_grantee_eq [OF s u])
  have "grants_of i d' = (fl_grants f)(ur_id us := None)"
    using none other by (auto simp: fg fun_eq_iff)
  moreover have "grants_of k d' = grants_of k d" if "k \<noteq> i" for k
    using other that by (simp add: fun_eq_iff)
  ultimately show "file_map c s fs d' = (file_map c s fs d)(i \<mapsto> f\<lparr>fl_grants := (fl_grants f)(ur_id us := None)\<rparr>)"
    using grants_frame [OF eq blobs _ f] by simp
  show "count_where (names_grantee i nm d) (grants d) = 0 \<longleftrightarrow> fl_grants f (ur_id us) = None"
    by (simp add: count_where_zero names_grantee_eq [OF s u] fg grants_of_def grant_of_def query_row_None)
qed

section \<open>The three operations in one form\<close>

text \<open>
  Running a metadata statement for an authorised file: the invariant is kept and the view changes
  at that file only.
\<close>

lemma metadata_step:
  assumes v: "vault c s w" and m: "meta_ok d'" and b: "blobs d' = blobs (w_db w)"
  shows "vault c s (w\<lparr>w_db := d'\<rparr>)" "view c s (w\<lparr>w_db := d'\<rparr>) = file_map c s (w_fs w) d'"
  using m served_cong [OF vault_served [OF v] b] by (simp_all add: vault_def view_def)

lemma Rename_step:
  assumes v: "vault c s w" and r: "Rename env u p i nm w = (res, w')"
  shows "vault c s w' \<and> ((view c s w' = view c s w \<and> isl res) \<or>
    (\<exists>f. view c s w i = Some f \<and> permitted p f ActionRename \<and>
       view c s w' = (view c s w)(i \<mapsto> f\<lparr>fl_name := SanitizeFilename u nm\<rparr>) \<and> \<not> isl res))"
proof -
  obtain ar w1 where a: "authorize env p i ActionRename w = (ar, w1)" by fastforce
  show ?thesis
  proof (cases rule: authorize_cases [OF v a])
    case (4 n b ou)
    let ?nm = "SanitizeFilename u nm"
    show ?thesis
    proof (cases "exec env CallRenameNode (rename_node i ?nm (en_now env) (w_db w))")
      case (Inl e)
      with r a 4(1,2) v show ?thesis by (auto simp: Rename_def Let_def)
    next
      case (Inr d)
      then have d: "rename_node i ?nm (en_now env) (w_db w) = Inr d" by (simp add: exec_Inr)
      have f: "file_map c s (w_fs w) (w_db w) i = Some (abs_node c s (w_fs w) (w_db w) n)"
        using 4(9) by (simp add: view_def)
      note rv = rename_view [OF vault_meta [OF v] d f]
      have "w' = Record env (user_event p ''file.rename'' i ResultOK []) (w\<lparr>w_db := d\<rparr>) \<and> \<not> isl res"
        using r a 4(1,2,3) Inr by (auto simp: Rename_def Let_def)
      moreover have "view c s (w\<lparr>w_db := d\<rparr>) = (view c s w)(i \<mapsto> (abs_node c s (w_fs w) (w_db w) n)\<lparr>fl_name := ?nm\<rparr>)"
        using metadata_step(2) [OF v rv(1,2)] rv(3) by (simp add: view_def)
      ultimately show ?thesis
        using metadata_step(1) [OF v rv(1,2)] 4(9,10) by simp
    qed
  qed (use r a v in \<open>auto simp: Rename_def\<close>)
qed

text \<open>How a share and a revocation go on once they are authorised.\<close>

lemma Share_authorized:
  assumes r: "Share env p i nm role w = (res, w')" and a: "authorize env p i ActionShare w = (Inr st, w)"
    and role: "role \<in> {RoleEditor, RoleViewer}"
  shows "(w' = w \<and> isl res) \<or>
    (\<exists>us d. user_by_name nm (w_db w) = Some us \<and> ur_id us \<noteq> ns_ownerID st \<and>
       upsert_grant (share_row i (ur_id us) role (u_ID p)) (w_db w) = Inr d \<and>
       w' = Record env (user_event p ''share.grant'' i ResultOK (role @ '':'' @ nm)) (w\<lparr>w_db := d\<rparr>) \<and> \<not> isl res)"
proof (cases "exec env CallSelectGrantee (if pg_text nm then Inr (user_by_name nm (w_db w)) else Inl InvalidText)")
  case (Inl e)
  with r a role show ?thesis by (auto simp: Share_def)
next
  case (Inr x)
  show ?thesis
  proof (cases x)
    case None
    with r a role Inr show ?thesis by (auto simp: Share_def)
  next
    case (Some us)
    then have us: "user_by_name nm (w_db w) = Some us" using Inr by (auto simp: exec_Inr split: if_splits)
    show ?thesis
    proof (cases "ur_id us = ns_ownerID st \<or> isl (exec env CallUpsertGrant (upsert_grant (share_row i (ur_id us) role (u_ID p)) (w_db w)))")
      case True
      from True have "w' = w \<and> isl res"
      proof
        assume "isl (exec env CallUpsertGrant (upsert_grant (share_row i (ur_id us) role (u_ID p)) (w_db w)))"
        then obtain e where "exec env CallUpsertGrant (upsert_grant (share_row i (ur_id us) role (u_ID p)) (w_db w)) = Inl e"
          by (auto simp: isl_def)
        with r a role Inr Some show ?thesis by (auto simp: Share_def share_row_def split: if_splits)
      qed (use r a role Inr Some in \<open>auto simp: Share_def\<close>)
      then show ?thesis ..
    next
      case False
      then obtain d where d: "exec env CallUpsertGrant (upsert_grant (share_row i (ur_id us) role (u_ID p)) (w_db w)) = Inr d"
        by (cases "exec env CallUpsertGrant (upsert_grant (share_row i (ur_id us) role (u_ID p)) (w_db w))") auto
      with r a role Inr Some False
      have "w' = Record env (user_event p ''share.grant'' i ResultOK (role @ '':'' @ nm)) (w\<lparr>w_db := d\<rparr>) \<and> \<not> isl res"
        by (auto simp: Share_def share_row_def)
      with us d False show ?thesis by (auto simp: exec_Inr)
    qed
  qed
qed

lemma Revoke_authorized:
  assumes r: "Revoke env p i nm w = (res, w')" and a: "authorize env p i ActionShare w = (Inr st, w)"
  shows "(w' = w \<and> isl res) \<or>
    (count_where (names_grantee i nm (w_db w)) (grants (w_db w)) \<noteq> 0 \<and> \<not> isl res \<and>
     w' = Record env (user_event p ''share.revoke'' i ResultOK nm)
       (w\<lparr>w_db := (w_db w)\<lparr>grants := delete_where (names_grantee i nm (w_db w)) (grants (w_db w))\<rparr>\<rparr>))"
proof (cases "en_fail env CallDeleteGrant \<or> \<not> pg_text nm")
  case True
  with r a have "w' = w \<and> isl res" by (auto simp: Revoke_def exec_def Let_def split: if_splits)
  then show ?thesis ..
next
  case False
  with r a show ?thesis by (auto simp: Revoke_def exec_def Let_def split: if_splits)
qed

lemma Share_step:
  assumes v: "vault c s w" and r: "Share env p i nm role w = (res, w')"
  shows "vault c s w' \<and> ((view c s w' = view c s w \<and> isl res) \<or>
    (\<exists>f us. view c s w i = Some f \<and> permitted p f ActionShare \<and> role \<in> {RoleEditor, RoleViewer} \<and>
       user_by_name nm (w_db w) = Some us \<and> ur_id us \<noteq> fl_owner f \<and>
       view c s w' = (view c s w)(i \<mapsto> f\<lparr>fl_grants := (fl_grants f)(ur_id us \<mapsto> role)\<rparr>) \<and> \<not> isl res))"
proof (cases "role \<in> {RoleEditor, RoleViewer}")
  case False
  with r v show ?thesis by (auto simp: Share_def)
next
  case role: True
  obtain ar w1 where a: "authorize env p i ActionShare w = (ar, w1)" by fastforce
  show ?thesis
  proof (cases rule: authorize_cases [OF v a])
    case (4 n b ou)
    let ?f = "abs_node c s (w_fs w) (w_db w) n"
    from Share_authorized [OF r a [unfolded 4(1,2)] role] show ?thesis
    proof (elim disjE exE conjE)
      fix us d
      assume us: "user_by_name nm (w_db w) = Some us" and "ur_id us \<noteq> ns_ownerID (with_role p (loaded (w_db w) n b ou))"
        and d: "upsert_grant (share_row i (ur_id us) role (u_ID p)) (w_db w) = Inr d"
        and w': "w' = Record env (user_event p ''share.grant'' i ResultOK (role @ '':'' @ nm)) (w\<lparr>w_db := d\<rparr>)" and res: "\<not> isl res"
      then have ne: "ur_id us \<noteq> fl_owner ?f" by (simp add: with_role_def loaded_def abs_node_def)
      have f: "file_map c s (w_fs w) (w_db w) (g_node (share_row i (ur_id us) role (u_ID p))) = Some ?f"
        using 4(9) by (simp add: view_def share_row_def)
      have ne': "g_grantee (share_row i (ur_id us) role (u_ID p)) \<noteq> fl_owner ?f"
        using ne by (simp add: share_row_def)
      note sv = share_view [OF vault_meta [OF v] d f ne']
      have "file_map c s (w_fs w) d = (view c s w)(i \<mapsto> ?f\<lparr>fl_grants := (fl_grants ?f)(ur_id us \<mapsto> role)\<rparr>)"
        using sv(3) by (simp add: view_def share_row_def)
      then have "view c s w' = (view c s w)(i \<mapsto> ?f\<lparr>fl_grants := (fl_grants ?f)(ur_id us \<mapsto> role)\<rparr>)"
        unfolding w' view_Record metadata_step(2) [OF v sv(1,2)] .
      moreover have "vault c s w'" unfolding w' by (rule vault_Record [OF metadata_step(1) [OF v sv(1,2)]])
      ultimately show ?thesis using 4(9,10) us res role ne by blast
    qed (use v in simp)
  qed (use r a v role in \<open>auto simp: Share_def\<close>)
qed

lemma Revoke_step:
  assumes v: "vault c s w" and r: "Revoke env p i nm w = (res, w')"
  shows "vault c s w' \<and> ((view c s w' = view c s w \<and> isl res) \<or>
    (\<exists>f us. view c s w i = Some f \<and> permitted p f ActionShare \<and>
       user_by_name nm (w_db w) = Some us \<and> fl_grants f (ur_id us) \<noteq> None \<and>
       view c s w' = (view c s w)(i \<mapsto> f\<lparr>fl_grants := (fl_grants f)(ur_id us := None)\<rparr>) \<and> \<not> isl res))"
proof -
  obtain ar w1 where a: "authorize env p i ActionShare w = (ar, w1)" by fastforce
  show ?thesis
  proof (cases rule: authorize_cases [OF v a])
    case (4 n b ou)
    let ?f = "abs_node c s (w_fs w) (w_db w) n" and ?hit = "names_grantee i nm (w_db w)"
    from Revoke_authorized [OF r a [unfolded 4(1,2)]] show ?thesis
    proof (elim disjE conjE)
      assume hit: "count_where ?hit (grants (w_db w)) \<noteq> 0" and res: "\<not> isl res"
        and w': "w' = Record env (user_event p ''share.revoke'' i ResultOK nm)
           (w\<lparr>w_db := (w_db w)\<lparr>grants := delete_where ?hit (grants (w_db w))\<rparr>\<rparr>)"
      have "user_by_name nm (w_db w) \<noteq> None"
        using hit names_grantee_unknown [of nm "w_db w"] by (auto simp: count_where_zero)
      then obtain us where us: "user_by_name nm (w_db w) = Some us" by blast
      have f: "file_map c s (w_fs w) (w_db w) i = Some ?f" using 4(9) by (simp add: view_def)
      note rv = revoke_view [OF vault_meta [OF v] us f]
      have "file_map c s (w_fs w) ((w_db w)\<lparr>grants := delete_where ?hit (grants (w_db w))\<rparr>) =
          (view c s w)(i \<mapsto> ?f\<lparr>fl_grants := (fl_grants ?f)(ur_id us := None)\<rparr>)"
        unfolding rv(3) view_def ..
      then have "view c s w' = (view c s w)(i \<mapsto> ?f\<lparr>fl_grants := (fl_grants ?f)(ur_id us := None)\<rparr>)"
        unfolding w' view_Record metadata_step(2) [OF v rv(1,2)] .
      moreover have "fl_grants ?f (ur_id us) \<noteq> None" using rv(4) hit by blast
      moreover have "vault c s w'" unfolding w' by (rule vault_Record [OF metadata_step(1) [OF v rv(1,2)]])
      ultimately show ?thesis using 4(9,10) res us by blast
    qed (use v in simp)
  qed (use r a v in \<open>auto simp: Revoke_def\<close>)
qed

end
