(* ===== verification/Vault_Properties.thy ===== *)
theory Vault_Properties
  imports Vault_Ops Registration
begin

text \<open>
  The properties of the file repository, each with a concrete deployment in which it applies: the
  invariant, the refinement of the abstract file map, who can read what, and the windows between
  steps in which two sessions can get in each other's way.
\<close>

section \<open>A concrete deployment\<close>

definition demo_repo :: repo where
  "demo_repo = NewRepo demo_store 100"

definition demo_attempt :: "string \<Rightarrow> rival \<Rightarrow> nat \<Rightarrow> attempt" where
  "demo_attempt i rv k = \<lparr>at_env = demo_env, at_flt = no_faults, at_rival = rv, at_id = demo_id i\<rparr>"

definition demo_start :: world where
  "demo_start = demo_world\<lparr>w_db := demo_db\<rparr>"

definition demo_bob :: user where
  "demo_bob = demo_user ''02'' ''bob'' ''user''"

definition demo_sniff :: "bytes \<Rightarrow> string" where
  "demo_sniff head = ''text/plain''"

definition demo_upload :: "string \<Rightarrow> world \<Rightarrow> (files_error + node) \<times> world" where
  "demo_upload i w = Upload demo_env no_faults demo_crypto demo_unicode demo_sniff demo_repo (demo_random 5)
     (demo_attempt i idle) demo_bob ''a.csv'' ''text/csv'' (demo_reader [1, 2, 3]) w"

lemma demo_start_vault: "vault demo_crypto demo_store demo_start"
proof -
  have "schema_ok (w_db demo_start)" by (simp add: demo_start_def demo_schema_ok)
  moreover have "blobs (w_db demo_start) = []" "grants (w_db demo_start) = []"
    by (simp_all add: demo_start_def demo_db_def empty_db_def)
  ultimately show ?thesis
    by (simp add: vault_def meta_ok_def refs_ok_def owner_ok_def served_def os.catalogue_def inventory_def)
qed

lemma demo_store_repo [simp]: "re_store demo_repo = demo_store"
  by (simp add: demo_repo_def NewRepo_def)

lemma demo_limit: "sint (re_maxBytes demo_repo) < 2 ^ 63 - 1"
  by (simp add: demo_repo_def NewRepo_def)

lemma demo_collision_free: "length q < 32 \<Longrightarrow> collision_free demo_crypto q"
  unfolding collision_free_def using demo_sha_inject by blast

lemma demo_csv_name: "SanitizeFilename u ''a.csv'' = ''a.csv''"
  by (rule Sanitize_plain) (simp_all add: after_last_any_def plain_name_def maxFilenameLen_def)

lemma demo_csv_type: "ValidateContent demo_unicode demo_sniff ''text/csv'' head = Inr ''text/csv''"
  using demo_types by (simp add: ValidateContent_def has_prefix_def demo_sniff_def)

lemma demo_staged:
  obtains st fs where
    "Stage demo_crypto demo_store (demo_random 5) no_faults (demo_reader [1, 2, 3]) (re_maxBytes demo_repo) demo_fs = (Inr st, fs)"
    "ready demo_crypto demo_store fs st [1, 2, 3]"
proof -
  define x where "x = Stage demo_crypto demo_store (demo_random 5) no_faults (demo_reader [1, 2, 3]) 100 demo_fs"
  have "\<not> isl (fst x)" unfolding x_def by code_simp
  then have x: "Stage demo_crypto demo_store (demo_random 5) no_faults (demo_reader [1, 2, 3]) (re_maxBytes demo_repo) demo_fs
      = (Inr (staged_of x), snd x)"
    using staged_of_Inr x_def by (metis demo_repo_def NewRepo_def repo.select_convs(2))
  with Stage_staged [OF demo_crypto_ok x demo_limit] that show thesis
    by (simp add: demo_reader_def)
qed

lemma Commit_no_faults:
  assumes "ready c s fs st q"
  obtains st' fs' where "Commit s no_faults st fs = (Inr (), st', fs')"
  using assms by (auto simp: ready_def Commit_def no_faults_def Let_def)

text \<open>On the start state the upload goes through and the file is there.\<close>

lemma demo_upload_ok:
  obtains nd w where "demo_upload ''11'' demo_start = (Inr nd, w)" "nd_ID nd = demo_id ''11''"
    "users (w_db w) = users demo_db"
proof -
  obtain st fs where st: "Stage demo_crypto demo_store (demo_random 5) no_faults (demo_reader [1, 2, 3]) (re_maxBytes demo_repo) demo_fs = (Inr st, fs)"
      and rd: "ready demo_crypto demo_store fs st [1, 2, 3]"
    by (rule demo_staged)
  obtain st' fs' where com: "Commit demo_store no_faults st fs = (Inr (), st', fs')"
    using Commit_no_faults [OF rd] by blast
  have size: "sg_size st = 3" using rd by (simp add: ready_def)
  have storable: "pg_text ''a.csv''" "pg_text ''text/csv''" by (simp_all add: pg_text_ascii ascii_def)
  have uuid: "pg_uuid (demo_id ''11'')" by (simp add: demo_id_def pg_uuid_def hex_alphabet_def)
  have db: "w_db demo_start = demo_db" "w_fs demo_start = demo_fs" by (simp_all add: demo_start_def demo_world_def)
  have rf: "read_full 512 (demo_reader [1, 2, 3]) = Inr ([1, 2, 3], demo_reader [])"
    "multi_reader [1, 2, 3] (demo_reader []) = demo_reader [1, 2, 3]"
    by (simp_all add: read_full_def demo_reader_def multi_reader_def)
  have "\<exists>nd w. demo_upload ''11'' demo_start = (Inr nd, w) \<and> nd_ID nd = demo_id ''11'' \<and> users (w_db w) = users demo_db"
    using st com size storable uuid
    by (simp add: demo_upload_def Upload_def demo_csv_name demo_csv_type rf upload_attempts_def insertUpload_def
        first_reference_def finish_upload_def exec_def demo_attempt_def idle_def demo_env_def db Commit_done [OF com]
        blob_by_hash_def demo_db_def empty_db_def query_row_def insert_blob_def insert_node_def commit_tx_def
        demo_bob_def demo_user_def demo_user_row_def Let_def)
  with that show thesis by blast
qed

definition demo_file :: vfile where
  "demo_file = new_file (demo_id ''02'') ''a.csv'' ''text/csv'' [1, 2, 3]"

lemma demo_attempt_simps [simp]:
  "at_rival (demo_attempt i rv k) = rv" "at_id (demo_attempt i rv k) = demo_id i"
  by (simp_all add: demo_attempt_def)

lemma demo_view_empty: "view demo_crypto demo_store demo_start = Map.empty"
  by (simp add: fun_eq_iff view_def file_map_def node_by_id_def demo_start_def demo_db_def empty_db_def query_row_def)

lemma demo_uploaded:
  obtains nd w where "demo_upload ''11'' demo_start = (Inr nd, w)" "nd_ID nd = demo_id ''11''"
    "vault demo_crypto demo_store w" "view demo_crypto demo_store w = [demo_id ''11'' \<mapsto> demo_file]"
    "users (w_db w) = users demo_db"
proof -
  obtain nd w where up: "demo_upload ''11'' demo_start = (Inr nd, w)" "nd_ID nd = demo_id ''11''" "users (w_db w) = users demo_db"
    by (rule demo_upload_ok)
  have "vault demo_crypto (re_store demo_repo) w \<and> ((\<forall>k. at_rival (demo_attempt ''11'' idle k) = idle) \<longrightarrow>
     (view demo_crypto (re_store demo_repo) w = view demo_crypto (re_store demo_repo) demo_start \<and> isl (Inr nd :: files_error + node)) \<or>
     (\<exists>k t. ValidateContent demo_unicode demo_sniff ''text/csv'' (take 512 (rd_data (demo_reader [1, 2, 3]))) = Inr t \<and>
        upload_outcome demo_crypto (re_store demo_repo) demo_start (at_id (demo_attempt ''11'' idle k))
          (new_file (u_ID demo_bob) (SanitizeFilename demo_unicode ''a.csv'') t (rd_data (demo_reader [1, 2, 3]))) (Inr nd) w))"
    by (rule Upload_step [OF demo_crypto_ok _ _ _ demo_limit up(1) [unfolded demo_upload_def]])
      (simp_all add: demo_start_vault demo_collision_free demo_reader_def)
  then have "vault demo_crypto demo_store w" "view demo_crypto demo_store w = [demo_id ''11'' \<mapsto> demo_file]"
    by (auto simp: upload_outcome_def demo_csv_name demo_csv_type demo_view_empty demo_file_def demo_bob_def
        demo_user_def demo_reader_def)
  with up that show thesis by blast
qed

text \<open>Sharing the uploaded file, and taking it back.\<close>

definition demo_share :: "world \<Rightarrow> (files_error + unit) \<times> world" where
  "demo_share w = Share demo_env demo_bob (demo_id ''11'') ''root'' ''viewer'' w"

lemma demo_ids: "pg_uuid (demo_id ''11'')" "demo_id ''01'' \<noteq> demo_id ''02''" "demo_id ''02'' \<noteq> []"
  by (simp_all add: demo_id_def pg_uuid_def hex_alphabet_def)

lemma demo_env_ok [simp]: "\<not> en_fail demo_env call"
  by (simp add: demo_env_def)

lemma demo_owner: "permitted demo_bob demo_file a \<longleftrightarrow> acl_action a"
  by (auto simp: permitted_def Can_def demo_bob_def demo_user_def demo_file_def new_file_def acl_action_def demo_ids)

lemma demo_root_row: "users (w_db w) = users demo_db \<Longrightarrow> user_by_name ''root'' (w_db w) = Some (demo_user_row ''01'' ''root'' ''admin'')"
  by (simp add: user_by_name_def demo_db_def query_row_def demo_user_row_def)

lemma demo_authorized:
  assumes v: "vault demo_crypto demo_store w" and f: "view demo_crypto demo_store w (demo_id ''11'') = Some demo_file"
  obtains st where "authorize demo_env demo_bob (demo_id ''11'') ActionShare w = (Inr st, w)"
    "ns_ownerID st = demo_id ''02''" "node_by_id (demo_id ''11'') (w_db w) \<noteq> None"
proof (rule authorize_allowed [OF v f _ demo_ids(1) demo_env_ok demo_env_ok])
  show "permitted demo_bob demo_file ActionShare" by (simp add: demo_owner acl_action_def)
qed (use that in \<open>simp add: demo_file_def new_file_def\<close>)

lemma upsert_ok:
  assumes "g_role r = ''editor'' \<or> g_role r = ''viewer''" and "\<exists>x\<in>set (nodes d). n_id x = g_node r"
    and "\<exists>x\<in>set (users d). ur_id x = g_grantee r" and "\<exists>x\<in>set (users d). ur_id x = g_by r"
  shows "\<exists>d'. upsert_grant r d = Inr d' \<and> users d' = users d"
proof (cases "\<exists>x\<in>set (grants d). g_node x = g_node r \<and> g_grantee x = g_grantee r")
  case True
  with assms show ?thesis by (auto simp: upsert_grant_def)
next
  case False
  with assms show ?thesis by (auto simp: upsert_grant_def)
qed

lemma demo_share_ok:
  assumes v: "vault demo_crypto demo_store w" and f: "view demo_crypto demo_store w = [demo_id ''11'' \<mapsto> demo_file]"
    and u: "users (w_db w) = users demo_db"
  obtains w' where "demo_share w = (Inr (), w')" "users (w_db w') = users demo_db"
proof -
  obtain st where st: "authorize demo_env demo_bob (demo_id ''11'') ActionShare w = (Inr st, w)"
      "ns_ownerID st = demo_id ''02''" and node: "node_by_id (demo_id ''11'') (w_db w) \<noteq> None"
    using demo_authorized [OF v] f by (metis fun_upd_same)
  have "\<exists>x\<in>set (nodes (w_db w)). n_id x = demo_id ''11''"
    using node by (auto simp: node_by_id_def query_row_None)
  moreover have "\<exists>x\<in>set (users (w_db w)). ur_id x = demo_id ''01''" "\<exists>x\<in>set (users (w_db w)). ur_id x = demo_id ''02''"
    by (simp_all add: u demo_db_def demo_user_row_def)
  ultimately obtain d where d: "upsert_grant \<lparr>g_node = demo_id ''11'', g_grantee = demo_id ''01'', g_role = ''viewer'',
      g_by = demo_id ''02''\<rparr> (w_db w) = Inr d" "users d = users (w_db w)"
    using upsert_ok [of "\<lparr>g_node = demo_id ''11'', g_grantee = demo_id ''01'', g_role = ''viewer'', g_by = demo_id ''02''\<rparr>" "w_db w"]
    by auto
  have "pg_text ''root''" by (simp add: pg_text_ascii ascii_def)
  then have "demo_share w = (Inr (), Record demo_env (user_event demo_bob ''share.grant'' (demo_id ''11'') ResultOK
      ''viewer:root'') (w\<lparr>w_db := d\<rparr>))"
    using st d(1) demo_ids by (simp add: demo_share_def Share_def role_defs exec_def demo_root_row [OF u]
        demo_user_row_def demo_bob_def demo_user_def)
  with that d(2) u show thesis by simp
qed

lemma demo_revoke_ok:
  assumes v: "vault demo_crypto demo_store w" and f: "view demo_crypto demo_store w = [demo_id ''11'' \<mapsto> demo_file]"
    and u: "users (w_db w) = users demo_db" and sh: "demo_share w = (Inr (), w1)"
  obtains w2 where "Revoke demo_env demo_bob (demo_id ''11'') ''root'' w1 = (Inr (), w2)"
proof -
  let ?f1 = "demo_file\<lparr>fl_grants := (fl_grants demo_file)(demo_id ''01'' \<mapsto> ''viewer'')\<rparr>"
  have step: "vault demo_crypto demo_store w1" "view demo_crypto demo_store w1 (demo_id ''11'') = Some ?f1"
    using Share_step [OF v sh [unfolded demo_share_def]] demo_root_row [OF u] by (auto simp: f demo_user_row_def)
  obtain w' where w': "demo_share w = (Inr (), w')" "users (w_db w') = users demo_db"
    using demo_share_ok [OF v f u] by blast
  with sh have u1: "users (w_db w1) = users demo_db" by simp
  have may: "permitted demo_bob ?f1 ActionShare"
    by (simp add: permitted_def Can_def demo_bob_def demo_user_def demo_file_def new_file_def demo_ids)
  obtain st where st: "authorize demo_env demo_bob (demo_id ''11'') ActionShare w1 = (Inr st, w1)"
    by (rule authorize_allowed [OF step(1,2) may demo_ids(1) demo_env_ok demo_env_ok])
  have fm: "file_map demo_crypto demo_store (w_fs w1) (w_db w1) (demo_id ''11'') = Some ?f1"
    using step(2) by (simp add: view_def)
  have "count_where (names_grantee (demo_id ''11'') ''root'' (w_db w1)) (grants (w_db w1)) \<noteq> 0"
    using revoke_view(4) [OF vault_meta [OF step(1)] demo_root_row [OF u1] fm] by (simp add: demo_user_row_def)
  then have "\<exists>w2. Revoke demo_env demo_bob (demo_id ''11'') ''root'' w1 = (Inr (), w2)"
    using st by (simp add: Revoke_def exec_def Let_def pg_text_ascii ascii_def)
  with that show thesis by blast
qed

section \<open>Operations as rivals\<close>

text \<open>The file a staged object waits in is not touched by what other sessions do.\<close>

lemma ready_cong:
  assumes "ready c s fs st q" and "fs_files fs' (sg_tmp st) = fs_files fs (sg_tmp st)"
  shows "ready c s fs' st q"
  using assms(1) unfolding ready_def assms(2) .

lemma Stage_keeps_files:
  assumes "Stage c s rnd flt r limit fs = (res, fs')" and "q \<noteq> temp_path s rnd \<or> fs_files fs q \<noteq> None"
  shows "fs_files fs' q = fs_files fs q"
proof (cases "q = temp_path s rnd")
  case True
  with assms show ?thesis
    by (auto simp: Stage_def write_temp_def Let_def split: if_splits sum.splits prod.splits)
next
  case False
  with Stage_effect(1) [OF assms(1)] assms(2) show ?thesis by simp
qed

lemma Stage_temp: "Stage c s rnd flt r limit fs = (Inr st, fs') \<Longrightarrow> sg_tmp st = temp_path s rnd \<and> fs_files fs (temp_path s rnd) = None"
  by (auto simp: Stage_def write_temp_def Let_def split: if_splits sum.splits prod.splits)

lemma Commit_keeps_files:
  assumes "Commit s flt st fs = (res, st', fs')" and "q \<noteq> sg_tmp st" and "q \<noteq> objectPath s (sg_hash st)"
  shows "fs_files fs' q = fs_files fs q" "sg_tmp st' = sg_tmp st" "sg_hash st' = sg_hash st"
  using assms by (auto simp: Commit_def remove_temp_def Let_def split: if_splits option.splits)

lemma Abort_keeps_files:
  "q \<noteq> sg_tmp st \<Longrightarrow> fs_files (snd (Abort flt st fs)) q = fs_files fs q"
  "sg_tmp (fst (Abort flt st fs)) = sg_tmp st" "sg_hash (fst (Abort flt st fs)) = sg_hash st"
  by (simp_all add: Abort_def remove_temp_def)

lemma finish_upload_files: "w_fs (snd (finish_upload a p name mime st w d)) = w_fs w"
  by (simp add: finish_upload_def Let_def split: sum.split prod.split bool.split)

lemma insertUpload_keeps_files:
  assumes "insertUpload a r p name mime st w = (res, st', w')" and "at_rival a = idle"
    and "q \<noteq> sg_tmp st" and "q \<noteq> objectPath (re_store r) (sg_hash st)"
  shows "fs_files (w_fs w') q = fs_files (w_fs w) q \<and> sg_tmp st' = sg_tmp st \<and> sg_hash st' = sg_hash st"
proof -
  have fin: "w_fs w'' = w_fs w1" if "finish_upload a p name mime st1 w1 d = (x, w'')" for st1 w1 d x w''
    using finish_upload_files [of a p name mime st1 w1 d] that by simp
  have first: ?thesis if "first_reference a r p name mime st w = (res, st', w')"
    using that Commit_keeps_files [OF _ assms(3,4)]
    by (auto simp: first_reference_def Let_def dest!: fin split: sum.splits prod.splits)
  have further: ?thesis if "further_reference a p name mime st w = (res, st', w')"
    using that Abort_keeps_files(1) [OF assms(3), of "at_flt a" "w_fs w"] Abort_keeps_files(2,3) [of "at_flt a" st "w_fs w"]
    by (auto simp: further_reference_def Let_def dest!: fin split: sum.splits prod.splits)
  show ?thesis
    using assms(1,2) first further
    by (auto simp: insertUpload_def idle_def split: if_splits sum.splits option.splits)
qed

lemma upload_attempts_keeps_files:
  assumes "upload_attempts att r p name mime st w = (res, st', w')" and "\<forall>k. at_rival (att k) = idle"
    and "q \<noteq> sg_tmp st" and "q \<noteq> objectPath (re_store r) (sg_hash st)"
  shows "fs_files (w_fs w') q = fs_files (w_fs w) q \<and> sg_tmp st' = sg_tmp st"
proof -
  obtain res1 st1 w1 where first: "insertUpload (att 0) r p name mime st w = (res1, st1, w1)"
    by (metis surjective_pairing)
  note f = insertUpload_keeps_files [OF first assms(2) [rule_format] assms(3,4)]
  show ?thesis
  proof (cases "res1 = Inl (FErrDb UniqueViolation)")
    case True
    then have "insertUpload (att 1) r p name mime st1 w1 = (res, st', w')"
      using assms(1) first by (simp add: upload_attempts_def)
    from insertUpload_keeps_files [OF this assms(2) [rule_format], of q] f assms(3,4) show ?thesis by simp
  next
    case False
    then have "st' = st1 \<and> w' = w1"
      using assms(1) first by (auto simp: upload_attempts_def split: sum.splits files_error.splits pg_error.splits)
    with f show ?thesis by simp
  qed
qed

lemma Upload_keeps_files:
  assumes ok: "crypto_ok c" and idle: "\<forall>k. at_rival (att k) = idle"
    and q: "q \<noteq> temp_path (re_store r) rnd \<or> fs_files (w_fs w) q \<noteq> None"
    and no: "\<And>h. length h = HashSize \<Longrightarrow> q \<noteq> objectPath (re_store r) h"
    and up: "Upload env flt c u detect r rnd att p filename mime body w = (res, w')"
  shows "fs_files (w_fs w') q = fs_files (w_fs w) q"
proof (cases "read_full 512 body")
  case (Inl e)
  with up q show ?thesis by (auto simp: Upload_def)
next
  case (Inr hr)
  obtain head rest where hr: "hr = (head, rest)" by fastforce
  show ?thesis
  proof (cases "ValidateContent u detect mime head")
    case (Inl e)
    with up q Inr hr show ?thesis by (auto simp: Upload_def)
  next
    case t: (Inr t)
    obtain sr fs where stg: "Stage c (re_store r) rnd flt (multi_reader head rest) (re_maxBytes r) (w_fs w) = (sr, fs)"
      by fastforce
    note kept = Stage_keeps_files [OF stg q]
    show ?thesis
    proof (cases sr)
      case (Inl e)
      with up Inr hr t stg kept show ?thesis by (auto simp: Upload_def)
    next
      case st: (Inr st)
      have "length (sg_hash st) = HashSize"
        using Stage_ready [OF ok stg [unfolded st]] ready_length [OF ok] by metis
      then have "q \<noteq> objectPath (re_store r) (sg_hash st)" by (rule no)
      moreover have tmp: "q \<noteq> sg_tmp st" using Stage_temp [OF stg [unfolded st]] q by auto
      moreover obtain res1 st1 w2 where ua: "upload_attempts att r p (SanitizeFilename u filename) t st (w\<lparr>w_fs := fs\<rparr>) = (res1, st1, w2)"
        by (metis surjective_pairing)
      ultimately have "fs_files (w_fs w2) q = fs_files (w_fs w) q \<and> sg_tmp st1 = sg_tmp st"
        using upload_attempts_keeps_files [OF ua idle] kept by simp
      then show ?thesis
        using up Inr hr t stg st ua Abort_keeps_files(1) [of q st1 flt "w_fs w2"] tmp
        by (auto simp: Upload_def Let_def split: sum.splits)
    qed
  qed
qed

lemma ready_file:
  assumes "ready c s fs st q"
  shows "\<exists>x. fs_files fs (sg_tmp st) = Some x" "length h = HashSize \<Longrightarrow> sg_tmp st \<noteq> objectPath s h"
  using assms ready_temp_not_object [OF assms] by (auto simp: ready_def)

text \<open>Uploads and deletions by other sessions are tame: they may run in each other's windows.\<close>

lemma tame_upload:
  assumes "crypto_ok c" and "\<forall>k. at_rival (att k) = idle" and "collision_free c (rd_data body)"
    and "sint (re_maxBytes r) < 2 ^ 63 - 1"
  shows "tame c (re_store r) (\<lambda>w. snd (Upload env flt c u detect r rnd att p filename mime body w))"
  unfolding tame_def
proof (intro allI impI conjI)
  fix w
  assume v: "vault c (re_store r) w"
  obtain res w' where up: "Upload env flt c u detect r rnd att p filename mime body w = (res, w')" by fastforce
  have "\<forall>k. tame c (re_store r) (at_rival (att k))" using assms(2) by simp
  from Upload_step [OF assms(1) v this assms(3,4) up] up
  show "vault c (re_store r) (snd (Upload env flt c u detect r rnd att p filename mime body w))" by simp
  fix st q
  assume rd: "ready c (re_store r) (w_fs w) st q"
  obtain x where x: "fs_files (w_fs w) (sg_tmp st) = Some x" using ready_file(1) [OF rd] by blast
  from Upload_keeps_files [OF assms(1,2) _ ready_file(2) [OF rd] up] x
  show "ready c (re_store r) (w_fs (snd (Upload env flt c u detect r rnd att p filename mime body w))) st q"
    using up by (intro ready_cong [OF rd]) simp
qed

section \<open>The invariant\<close>

text \<open>
  Uploading keeps the vault consistent under every fault: whatever database call, system call
  or commit fails in either attempt, and whatever other sessions (that keep the invariant themselves) commit between its
  \<^verbatim>\<open>SELECT\<close> and its \<^verbatim>\<open>INSERT\<close>, afterwards the schema constraints hold, every blob's count is the number of
  its files and not zero, every blob row is served by the store with its recorded size, and no
  owner holds a grant on their own file.
\<close>

theorem upload_keeps_vault:
  assumes "crypto_ok c" and "vault c (re_store r) w" and "\<forall>k. tame c (re_store r) (at_rival (att k))"
    and "collision_free c (rd_data body)" and "sint (re_maxBytes r) < 2 ^ 63 - 1"
  shows "vault c (re_store r) (snd (Upload env flt c u detect r rnd att p filename mime body w))"
  using Upload_step [OF assms] by (metis surjective_pairing)

theorem upload_keeps_vault_witness:
  "vault demo_crypto (re_store demo_repo) (snd (Upload demo_env (\<lambda>x. x = CallCleanup) demo_crypto demo_unicode demo_sniff demo_repo
     (demo_random 6) (demo_attempt ''12'' (\<lambda>w. snd (demo_upload ''11'' w))) demo_bob ''a.csv'' ''text/csv''
     (demo_reader [1, 2, 3]) demo_start))"
proof (rule upload_keeps_vault [OF demo_crypto_ok _ _ _ demo_limit])
  have "tame demo_crypto (re_store demo_repo) (\<lambda>w. snd (demo_upload ''11'' w))"
    unfolding demo_upload_def by (rule tame_upload [OF demo_crypto_ok _ _ demo_limit])
      (simp_all add: demo_collision_free demo_reader_def)
  then show "\<forall>k. tame demo_crypto (re_store demo_repo) (at_rival (demo_attempt ''12'' (\<lambda>w. snd (demo_upload ''11'' w)) k))"
    by simp
qed (simp_all add: demo_start_vault demo_collision_free demo_reader_def)

section \<open>Refinement of the file map\<close>

text \<open>
  C2 Deduplication is invisible: seen through the abstract map, an upload either changes nothing
  and reports an error, or adds exactly one file, owned by the uploader, ungranted, with the
  sanitised name, the validated type and all bytes of the body, under an identifier that was free. In the second case it
  reports the file, unless the reply to the commit was lost. Whether the content was stored
  before makes no difference, and no other file changes.
\<close>

theorem upload_adds_one_file:
  assumes "crypto_ok c" and "vault c (re_store r) w" and "\<forall>k. at_rival (att k) = idle"
    and "collision_free c (rd_data body)" and "sint (re_maxBytes r) < 2 ^ 63 - 1"
    and "Upload env flt c u detect r rnd att p filename mime body w = (res, w')"
  shows "view c (re_store r) w' = view c (re_store r) w \<and> isl res \<or>
    (\<exists>i t. ValidateContent u detect mime (take 512 (rd_data body)) = Inr t \<and> view c (re_store r) w i = None \<and>
       view c (re_store r) w' = (view c (re_store r) w)(i \<mapsto>
         \<lparr>fl_owner = u_ID p, fl_name = SanitizeFilename u filename, fl_mime = t,
          fl_content = rd_data body, fl_grants = Map.empty\<rparr>) \<and>
       (res = Inl (FErrDb Unavailable) \<or> (\<exists>nd. res = Inr nd \<and> nd_ID nd = i)))"
proof -
  have "\<forall>k. tame c (re_store r) (at_rival (att k))" using assms(3) by simp
  from Upload_step [OF assms(1,2) this assms(4-6)] assms(3) show ?thesis
    unfolding upload_outcome_def new_file_def by blast
qed

theorem upload_adds_one_file_witness:
  "\<exists>nd w f. demo_upload ''11'' demo_start = (Inr nd, w) \<and>
     view demo_crypto (re_store demo_repo) w = (view demo_crypto (re_store demo_repo) demo_start)(nd_ID nd \<mapsto> f) \<and>
     fl_content f = [1, 2, 3]"
proof -
  obtain nd w where up: "demo_upload ''11'' demo_start = (Inr nd, w)" by (rule demo_upload_ok)
  have "\<forall>k. at_rival (demo_attempt ''11'' idle k) = idle" "collision_free demo_crypto (rd_data (demo_reader [1, 2, 3]))"
    "vault demo_crypto (re_store demo_repo) demo_start"
    by (simp_all add: demo_collision_free demo_reader_def demo_start_vault)
  from upload_adds_one_file [OF demo_crypto_ok this(3,1,2) demo_limit up [unfolded demo_upload_def]] up
  show ?thesis by (auto simp: demo_reader_def)
qed

text \<open>
  C4 Download, decided by the abstract map: on a consistent vault without faults it
  returns exactly the content, name and type of the file if there is one and the caller is its owner or
  an editor or viewer, and \<open>ErrNotFound\<close> in all other cases; only the audit trail changes.
\<close>

theorem download_decision:
  assumes "vault c (re_store r) w" and "pg_uuid i"
    and "\<not> en_fail env CallLoadNode" "\<not> en_fail env CallLoadGrants" "\<not> flt CallReadFile"
    and "Download env flt c r p i w = (res, w')"
  shows "(case view c (re_store r) w i of
      None \<Rightarrow> res = Inl FErrNotFound
    | Some f \<Rightarrow>
        if permitted p f ActionDownload
        then (\<exists>nd. res = Inr (nd, fl_content f) \<and> nd_ID nd = i \<and> nd_Name nd = fl_name f \<and> nd_MimeType nd = fl_mime f)
        else res = Inl FErrNotFound) \<and>
    view c (re_store r) w' = view c (re_store r) w \<and> w_fs w' = w_fs w"
  using Download_view [OF assms] by (cases "view c (re_store r) w i") (auto split: if_splits)

theorem download_decision_witness:
  "\<exists>nd w nd' w'. demo_upload ''11'' demo_start = (Inr nd, w) \<and>
     Download demo_env no_faults demo_crypto demo_repo demo_bob (demo_id ''11'') w = (Inr (nd', [1, 2, 3]), w')"
proof -
  obtain nd w where up: "demo_upload ''11'' demo_start = (Inr nd, w)" "vault demo_crypto demo_store w"
      "view demo_crypto demo_store w = [demo_id ''11'' \<mapsto> demo_file]"
    by (rule demo_uploaded)
  obtain res w' where d: "Download demo_env no_faults demo_crypto demo_repo demo_bob (demo_id ''11'') w = (res, w')"
    by fastforce
  have uuid: "pg_uuid (demo_id ''11'')" by (simp add: demo_id_def pg_uuid_def hex_alphabet_def)
  have may: "permitted demo_bob demo_file ActionDownload"
    by (simp add: permitted_def Can_def demo_bob_def demo_user_def demo_file_def new_file_def demo_id_def action_defs)
  have "\<exists>nd'. res = Inr (nd', [1, 2, 3])"
    using download_decision [OF _ uuid _ _ _ d] up(2,3) may
    by (auto simp: demo_env_def no_faults_def demo_file_def new_file_def)
  with up(1) d show ?thesis by blast
qed

text \<open>
  C3 Deleting, seen through the abstract map: it removes the one file it names, for its owner only, or
  changes nothing and reports an error; in particular files that share the deleted content keep
  it. The vault stays consistent under every fault, a lost commit reply and a failing unlink included, and also when other sessions
  work between the commit and the unlink, as long as they do not store that content anew.
\<close>

theorem delete_removes_one_file:
  assumes "vault c (re_store r) w" and "tame c (re_store r) rv" and "no_republish rv"
    and "Delete env flt r idle rv p i w = (res, w')"
  shows "vault c (re_store r) w' \<and> (rv = idle \<longrightarrow>
     (view c (re_store r) w' = view c (re_store r) w \<and> isl res) \<or>
     (view c (re_store r) w' = (view c (re_store r) w)(i := None) \<and>
       (\<exists>f. view c (re_store r) w i = Some f \<and> u_ID p \<noteq> [] \<and> u_ID p = fl_owner f)))"
proof -
  have "u_ID p \<noteq> [] \<and> u_ID p = fl_owner f" if "permitted p f ActionDelete" for f
    using cp.beyond_grant_is_owner [OF that [unfolded permitted_def] no_role_deletes] by (auto simp: acl_owns_def)
  with Delete_step [OF assms] show ?thesis by blast
qed

theorem delete_removes_one_file_witness:
  "\<exists>nd w. demo_upload ''11'' demo_start = (Inr nd, w) \<and>
     vault demo_crypto (re_store demo_repo) (snd (Delete (demo_env\<lparr>en_commit := CommitLost\<rparr>) no_faults demo_repo idle idle
       demo_bob (demo_id ''11'') w))"
proof -
  obtain nd w where up: "demo_upload ''11'' demo_start = (Inr nd, w)" and v: "vault demo_crypto demo_store w"
    by (rule demo_uploaded)
  obtain res w' where d: "Delete (demo_env\<lparr>en_commit := CommitLost\<rparr>) no_faults demo_repo idle idle
       demo_bob (demo_id ''11'') w = (res, w')"
    by fastforce
  from delete_removes_one_file [OF _ _ _ d, of demo_crypto] v have "vault demo_crypto (re_store demo_repo) w'" by simp
  with up d show ?thesis by auto
qed

lemma share_permission: "permitted p f ActionShare \<Longrightarrow> u_ID p = fl_owner f"
  using cp.beyond_grant_is_owner [OF _ no_role_shares] by (auto simp: permitted_def acl_owns_def)

text \<open>
  Sharing, seen through the abstract map: a grant goes through only for the owner, with role
  editor or viewer, to an existing other user, and then sets exactly that user's entry of exactly
  that file. Everything else is an error that changes nothing. The vault stays consistent under
  every fault.
\<close>

theorem share_sets_one_grant:
  assumes "vault c s w" and "Share env p i nm role w = (res, w')"
  shows "vault c s w' \<and>
     (view c s w' = view c s w \<and> isl res \<or>
      (\<exists>f us. view c s w i = Some f \<and> u_ID p = fl_owner f \<and> role \<in> {''editor'', ''viewer''} \<and>
         user_by_name nm (w_db w) = Some us \<and> ur_id us \<noteq> fl_owner f \<and>
         view c s w' = (view c s w)(i \<mapsto> f\<lparr>fl_grants := (fl_grants f)(ur_id us \<mapsto> role)\<rparr>) \<and> \<not> isl res))"
  using Share_step [OF assms] share_permission unfolding role_defs by blast

theorem share_sets_one_grant_witness:
  "\<exists>w w' f. vault demo_crypto demo_store w \<and> demo_share w = (Inr (), w') \<and>
     view demo_crypto demo_store w' (demo_id ''11'') = Some f \<and> fl_grants f (demo_id ''01'') = Some ''viewer''"
proof -
  obtain nd w where w: "vault demo_crypto demo_store w" "view demo_crypto demo_store w = [demo_id ''11'' \<mapsto> demo_file]"
      "users (w_db w) = users demo_db"
    by (rule demo_uploaded)
  obtain w' where sh: "demo_share w = (Inr (), w')" using demo_share_ok [OF w] by blast
  from share_sets_one_grant [OF w(1) sh [unfolded demo_share_def]] demo_root_row [OF w(3)]
  have "\<exists>f. view demo_crypto demo_store w' (demo_id ''11'') = Some f \<and> fl_grants f (demo_id ''01'') = Some ''viewer''"
    by (auto simp: demo_user_row_def)
  with w(1) sh show ?thesis by blast
qed

text \<open>
  Revoking, seen through the abstract map: for the owner, it takes exactly the named user's
  existing entry of exactly that file away; everything else is an error that changes nothing.
\<close>

theorem revoke_removes_one_grant:
  assumes "vault c s w" and "Revoke env p i nm w = (res, w')"
  shows "vault c s w' \<and>
     (view c s w' = view c s w \<and> isl res \<or>
      (\<exists>f us. view c s w i = Some f \<and> u_ID p = fl_owner f \<and>
         user_by_name nm (w_db w) = Some us \<and> fl_grants f (ur_id us) \<noteq> None \<and>
         view c s w' = (view c s w)(i \<mapsto> f\<lparr>fl_grants := (fl_grants f)(ur_id us := None)\<rparr>) \<and> \<not> isl res))"
  using Revoke_step [OF assms] share_permission by blast

theorem revoke_removes_one_grant_witness:
  "\<exists>w w'. vault demo_crypto demo_store w \<and> Revoke demo_env demo_bob (demo_id ''11'') ''root'' w = (Inl (FErrValidation NoSuchGrant), w') \<and>
     view demo_crypto demo_store w' = view demo_crypto demo_store w"
proof -
  obtain nd w where w: "vault demo_crypto demo_store w" "view demo_crypto demo_store w = [demo_id ''11'' \<mapsto> demo_file]"
      "users (w_db w) = users demo_db"
    by (rule demo_uploaded)
  obtain res w' where rv: "Revoke demo_env demo_bob (demo_id ''11'') ''root'' w = (res, w')" by fastforce
  obtain st where st: "authorize demo_env demo_bob (demo_id ''11'') ActionShare w = (Inr st, w)"
    using demo_authorized [OF w(1)] w(2) by (metis fun_upd_same)
  have none: "fl_grants f (demo_id ''01'') = None" if "view demo_crypto demo_store w (demo_id ''11'') = Some f" for f
    using that by (auto simp: w(2) demo_file_def new_file_def)
  from revoke_removes_one_grant [OF w(1) rv] none demo_root_row [OF w(3)]
  have "view demo_crypto demo_store w' = view demo_crypto demo_store w \<and> isl res"
    by (auto simp: demo_user_row_def)
  moreover from this have "res = Inl (FErrValidation NoSuchGrant)"
    using rv st by (auto simp: Revoke_def exec_def Let_def pg_text_ascii ascii_def split: if_splits)
  ultimately show ?thesis using w(1) rv by blast
qed

section \<open>Who sees what\<close>

definition barred :: "crypto \<Rightarrow> store \<Rightarrow> world \<Rightarrow> user \<Rightarrow> string \<Rightarrow> action \<Rightarrow> bool" where
  "barred c s w p i a \<longleftrightarrow> (case view c s w i of None \<Rightarrow> True | Some f \<Rightarrow> \<not> permitted p f a)"

lemma authorize_barred:
  assumes v: "vault c s w" and b: "barred c s w p i a"
    and ok: "pg_uuid i" "\<not> en_fail env CallLoadNode" "\<not> en_fail env CallLoadGrants"
  shows "\<exists>reason. authorize env p i a w = (Inl FErrNotFound, denial env p a i reason w)"
proof -
  obtain res w' where a: "authorize env p i a w = (res, w')" by fastforce
  show ?thesis
    by (cases rule: authorize_cases [OF v a]) (use a b ok in \<open>auto simp: barred_def\<close>)
qed

text \<open>
  C5 No enumeration: when there is no such file, or there is one that the caller may not
  perform the action on, every file operation gives the same \<open>ErrNotFound\<close>, changes nothing and records
  one denial under the action's name; so nothing a caller gets back depends on which of the
  two it was.
\<close>

theorem denials_are_uniform:
  assumes "vault c (re_store r) w" and "pg_uuid i" "\<not> en_fail env CallLoadNode" "\<not> en_fail env CallLoadGrants"
  shows "(barred c (re_store r) w p i ActionView \<longrightarrow>
       (\<exists>why. Stat env collate p i w = (Inl FErrNotFound, denial env p ActionView i why w))) \<and>
    (barred c (re_store r) w p i ActionDownload \<longrightarrow>
       (\<exists>why. Download env flt c r p i w = (Inl FErrNotFound, denial env p ActionDownload i why w))) \<and>
    (barred c (re_store r) w p i ActionRename \<longrightarrow>
       (\<exists>why. Rename env u p i nm w = (Inl FErrNotFound, denial env p ActionRename i why w))) \<and>
    (barred c (re_store r) w p i ActionDelete \<longrightarrow>
       (\<exists>why. Delete env flt r rv1 rv2 p i w = (Inl FErrNotFound, denial env p ActionDelete i why w))) \<and>
    (barred c (re_store r) w p i ActionShare \<longrightarrow>
       (\<exists>why. Revoke env p i nm w = (Inl FErrNotFound, denial env p ActionShare i why w)) \<and>
       (role \<in> {''editor'', ''viewer''} \<longrightarrow>
        (\<exists>why. Share env p i nm role w = (Inl FErrNotFound, denial env p ActionShare i why w))))"
proof -
  note b = authorize_barred [OF assms(1) _ assms(2-4)]
  have roles: "role \<in> {''editor'', ''viewer''} \<Longrightarrow> role = RoleEditor \<or> role = RoleViewer" by (simp add: role_defs)
  show ?thesis
    by (intro conjI impI)
      (drule b, use roles in \<open>fastforce simp: Stat_def Download_def Rename_def Delete_def Share_def Revoke_def\<close>)+
qed

theorem denials_are_uniform_witness:
  "\<exists>w why. vault demo_crypto (re_store demo_repo) w \<and> view demo_crypto (re_store demo_repo) w (demo_id ''11'') \<noteq> None \<and>
     Stat demo_env length (demo_user ''01'' ''root'' ''admin'') (demo_id ''11'') w =
       (Inl FErrNotFound, denial demo_env (demo_user ''01'' ''root'' ''admin'') ActionView (demo_id ''11'') why w)"
proof -
  obtain nd w where w: "vault demo_crypto demo_store w" "view demo_crypto demo_store w = [demo_id ''11'' \<mapsto> demo_file]"
    by (rule demo_uploaded)
  have "barred demo_crypto (re_store demo_repo) w (demo_user ''01'' ''root'' ''admin'') (demo_id ''11'') ActionView"
    using demo_ids by (simp add: barred_def w(2) permitted_def Can_def demo_user_def demo_file_def new_file_def)
  with denials_are_uniform [of demo_crypto demo_repo w "demo_id ''11''" demo_env, OF _ demo_ids(1) demo_env_ok demo_env_ok] w
  show ?thesis by fastforce
qed

lemma grant_role_ok: "schema_ok d \<Longrightarrow> grant_of i uid d = Some g \<Longrightarrow> g_role g = ''editor'' \<or> g_role g = ''viewer''"
  using schema_parts(5) query_row_Some [of _ "grants d" g] unfolding grants_ok_def grant_of_def by blast

lemma permitted_view:
  assumes s: "schema_ok d" and p: "u_ID p \<noteq> []"
  shows "permitted p (abs_node c st fs d n) ActionView \<longleftrightarrow>
    u_ID p = n_owner n \<or> grant_of (n_id n) (u_ID p) d \<noteq> None"
proof (cases "grant_of (n_id n) (u_ID p) d")
  case None
  with p show ?thesis by (simp add: permitted_def Can_def abs_node_def grants_of_def)
next
  case (Some g)
  with grant_role_ok [OF s Some] p show ?thesis
    by (auto simp: permitted_def Can_def abs_node_def grants_of_def rolePermissions_def role_defs)
qed

lemma list_row_Some:
  assumes s: "schema_ok d" and n: "n \<in> set (nodes d)"
  shows "(\<exists>nd. list_row uid d n = Some nd) \<longleftrightarrow> uid = n_owner n \<or> grant_of (n_id n) uid d \<noteq> None"
    and "list_row uid d n = Some nd \<Longrightarrow> nd_ID nd = n_id n"
proof -
  obtain b ou where "blob_by_hash (n_blob n) d = Some b" "user_by_id (n_owner n) d = Some ou"
    using node_joins [OF s node_row_unique [OF s n]] by metis
  then show "(\<exists>nd. list_row uid d n = Some nd) \<longleftrightarrow> uid = n_owner n \<or> grant_of (n_id n) uid d \<noteq> None"
    and "list_row uid d n = Some nd \<Longrightarrow> nd_ID nd = n_id n"
    by (auto simp: list_row_def node_view_def split: if_splits)
qed

lemma map_filter_keys:
  assumes "\<And>x y. x \<in> set xs \<Longrightarrow> f x = Some y \<Longrightarrow> k y = h x"
  shows "map k (List.map_filter f xs) = map h (filter (\<lambda>x. f x \<noteq> None) xs)"
  using assms by (induction xs) (auto simp: List.map_filter_simps split: option.split)

text \<open>
  C24 The file list is exact: it shows, once each and newest first, exactly the files the caller may view.
\<close>

theorem list_shows_exactly_viewable:
  assumes "vault c s w" and "u_ID p \<noteq> []" and "List env p w = (Inr ns, w')"
  shows "(\<forall>i. i \<in> nd_ID ` set ns \<longleftrightarrow> (\<exists>f. view c s w i = Some f \<and> permitted p f ActionView)) \<and>
    distinct (map nd_ID ns) \<and> sorted_wrt (\<lambda>a b. nd_CreatedAt b \<le> nd_CreatedAt a) ns \<and> w' = w"
proof -
  let ?d = "w_db w"
  define xs where "xs = List.map_filter (list_row (u_ID p) ?d) (nodes ?d)"
  note s = vault_schema [OF assms(1)]
  have ns: "ns = sort_key (\<lambda>n. - nd_CreatedAt n) xs" and w': "w' = w"
    using assms(3) by (auto simp: List_def exec_def xs_def split: if_splits)
  have keys: "map nd_ID xs = map n_id (filter (\<lambda>n. list_row (u_ID p) ?d n \<noteq> None) (nodes ?d))"
    unfolding xs_def by (rule map_filter_keys) (rule list_row_Some(2) [OF s])
  have dist: "distinct (map n_id (nodes ?d))" using schema_parts(4) [OF s] by (simp add: nodes_ok_def)
  have "distinct (map nd_ID xs)"
    unfolding keys by (rule distinct_map_filter [OF dist])
  then have "distinct xs" "inj_on nd_ID (set xs)" by (simp_all add: distinct_map)
  then have d: "distinct (map nd_ID ns)" by (simp add: ns distinct_map)
  have sorted: "sorted_wrt (\<lambda>a b. nd_CreatedAt b \<le> nd_CreatedAt a) ns"
    using sorted_sort_key [of "\<lambda>n. - nd_CreatedAt n" xs] by (simp add: ns sorted_map)
  have "i \<in> nd_ID ` set ns \<longleftrightarrow> (\<exists>f. view c s w i = Some f \<and> permitted p f ActionView)" for i
  proof -
    have "nd_ID ` set ns = set (map nd_ID xs)" by (simp add: ns)
    then have "i \<in> nd_ID ` set ns \<longleftrightarrow> (\<exists>n\<in>set (nodes ?d). n_id n = i \<and> list_row (u_ID p) ?d n \<noteq> None)"
      unfolding keys by auto
    also have "\<dots> \<longleftrightarrow> (\<exists>n\<in>set (nodes ?d). n_id n = i \<and> permitted p (abs_node c s (w_fs w) ?d n) ActionView)"
      using list_row_Some(1) [OF s] permitted_view [OF s assms(2)] by auto
    also have "\<dots> \<longleftrightarrow> (\<exists>n. node_by_id i ?d = Some n \<and> permitted p (abs_node c s (w_fs w) ?d n) ActionView)"
      using node_row_unique [OF s] node_by_id_Some by blast
    also have "\<dots> \<longleftrightarrow> (\<exists>f. view c s w i = Some f \<and> permitted p f ActionView)"
      by (auto simp: view_def file_map_def)
    finally show ?thesis .
  qed
  with d sorted w' show ?thesis by blast
qed

theorem list_shows_exactly_viewable_witness:
  "\<exists>w ns w'. List demo_env demo_bob w = (Inr ns, w') \<and> demo_id ''11'' \<in> nd_ID ` set ns"
proof -
  obtain nd w where w: "vault demo_crypto demo_store w" "view demo_crypto demo_store w = [demo_id ''11'' \<mapsto> demo_file]"
    by (rule demo_uploaded)
  obtain ns where l: "List demo_env demo_bob w = (Inr ns, w)" by (simp add: List_def exec_def)
  have "u_ID demo_bob \<noteq> []" using demo_ids by (simp add: demo_bob_def demo_user_def)
  from list_shows_exactly_viewable [OF w(1) this l] w(2) have "demo_id ''11'' \<in> nd_ID ` set ns"
    by (simp add: demo_owner acl_action_def)
  with l show ?thesis by blast
qed

section \<open>The life of a shared file\<close>

lemma Share_users:
  assumes v: "vault c s w" and sh: "Share env p i nm role w = (Inr (), w')"
  shows "users (w_db w') = users (w_db w)"
proof -
  obtain ar w1 where a: "authorize env p i ActionShare w = (ar, w1)" by fastforce
  have role: "role \<in> {RoleEditor, RoleViewer}" using sh by (auto simp: Share_def split: if_splits)
  show ?thesis
  proof (cases rule: authorize_cases [OF v a])
    case (4 n b ou)
    from Share_authorized [OF sh a [unfolded 4(1,2)] role] show ?thesis
      by (auto elim!: upsert_grant_cases)
  qed (use sh a role in \<open>auto simp: Share_def\<close>)
qed

lemma Download_result:
  assumes "vault c (re_store r) w" and "pg_uuid i"
    and "\<not> en_fail env CallLoadNode" "\<not> en_fail env CallLoadGrants" "\<not> flt CallReadFile"
    and "view c (re_store r) w i = Some f"
  shows "permitted p f ActionDownload \<Longrightarrow> \<exists>nd. fst (Download env flt c r p i w) = Inr (nd, fl_content f)"
    and "\<not> permitted p f ActionDownload \<Longrightarrow> fst (Download env flt c r p i w) = Inl FErrNotFound"
  using Download_view [where flt = flt and env = env, OF assms(1-5) prod.collapse [symmetric], of p] assms(6) by auto

text \<open>
  C23 The life of a shared file, operations composed: after a successful \<open>Share\<close> the grantee downloads
  exactly the owner's bytes; after a successful \<open>Revoke\<close> the same download is \<open>ErrNotFound\<close>, as for a
  file that never existed, while the owner still gets the bytes.
\<close>

theorem grant_lifecycle:
  assumes "vault c (re_store r) w" and "view c (re_store r) w i = Some f" and "pg_uuid i"
    and "Share env p i nm role w = (Inr (), w1)" and "user_by_name nm (w_db w) = Some us" and "u_ID g = ur_id us"
    and "Revoke env2 p i nm w1 = (Inr (), w2)"
    and "\<not> en_fail env3 CallLoadNode" "\<not> en_fail env3 CallLoadGrants" "\<not> flt CallReadFile"
  shows "(\<exists>nd. fst (Download env3 flt c r g i w1) = Inr (nd, fl_content f)) \<and>
    fst (Download env3 flt c r g i w2) = Inl FErrNotFound \<and>
    (\<exists>nd. fst (Download env3 flt c r p i w2) = Inr (nd, fl_content f))"
proof -
  let ?s = "re_store r"
  have us: "us \<in> set (users (w_db w))" using query_row_Some [OF assms(5) [unfolded user_by_name_def]] by simp
  then have g: "u_ID g \<noteq> []"
    using schema_parts(1) [OF vault_schema [OF assms(1)]] assms(6) by (auto simp: users_ok_def)
  obtain f0 where s1: "vault c ?s w1" "view c ?s w1 = (view c ?s w)(i \<mapsto> f\<lparr>fl_grants := (fl_grants f)(ur_id us \<mapsto> role)\<rparr>)"
      "permitted p f ActionShare" "role = RoleEditor \<or> role = RoleViewer" "ur_id us \<noteq> fl_owner f" "f0 = f"
    using Share_step [OF assms(1,4)] assms(2,5) by auto
  have "user_by_name nm (w_db w1) = Some us"
    using assms(5) Share_users [OF assms(1,4)] by (simp add: user_by_name_def)
  then have s2: "vault c ?s w2" "view c ?s w2 i = Some (f\<lparr>fl_grants := (fl_grants f)(ur_id us := None)\<rparr>)"
    using Revoke_step [OF s1(1) assms(7)] s1(2) by auto
  have p: "permitted p (f\<lparr>fl_grants := x\<rparr>) ActionDownload" for x
  proof -
    have "acl_owns p \<lparr>acl_OwnerID = fl_owner f, acl_Grants = fl_grants f\<rparr>"
      using cp.beyond_grant_is_owner [OF s1(3) [unfolded permitted_def] no_role_shares] .
    then have "acl_owns p \<lparr>acl_OwnerID = fl_owner f, acl_Grants = x\<rparr>" by (auto simp: acl_owns_def)
    then show ?thesis
      using cp.owner_dominates [OF _ s1(3) [unfolded permitted_def]] cp.owner_rule
      by (simp add: permitted_def acl_action_def)
  qed
  have allowed: "permitted g (f\<lparr>fl_grants := (fl_grants f)(ur_id us \<mapsto> role)\<rparr>) ActionDownload"
    using g s1(4,5) assms(6) by (auto simp: permitted_def Can_def rolePermissions_def role_defs)
  have denied: "\<not> permitted g (f\<lparr>fl_grants := (fl_grants f)(ur_id us := None)\<rparr>) ActionDownload"
    using s1(5) assms(6) by (simp add: permitted_def Can_def)
  have v1: "view c ?s w1 i = Some (f\<lparr>fl_grants := (fl_grants f)(ur_id us \<mapsto> role)\<rparr>)" by (simp add: s1(2))
  have "\<exists>nd. fst (Download env3 flt c r g i w1) = Inr (nd, fl_content f)"
    using Download_result(1) [where flt = flt and env = env3, OF s1(1) assms(3,8-10) v1 allowed] by simp
  moreover have "fst (Download env3 flt c r g i w2) = Inl FErrNotFound"
    by (rule Download_result(2) [where flt = flt and env = env3, OF s2(1) assms(3,8-10) s2(2) denied])
  moreover have "\<exists>nd. fst (Download env3 flt c r p i w2) = Inr (nd, fl_content f)"
    using Download_result(1) [where flt = flt and env = env3, OF s2(1) assms(3,8-10) s2(2) p] by simp
  ultimately show ?thesis by blast
qed

theorem grant_lifecycle_witness:
  "\<exists>w w1 w2. demo_share w = (Inr (), w1) \<and> Revoke demo_env demo_bob (demo_id ''11'') ''root'' w1 = (Inr (), w2) \<and>
     (\<exists>nd. fst (Download demo_env no_faults demo_crypto demo_repo (demo_user ''01'' ''root'' ''admin'') (demo_id ''11'') w1) = Inr (nd, [1, 2, 3])) \<and>
     fst (Download demo_env no_faults demo_crypto demo_repo (demo_user ''01'' ''root'' ''admin'') (demo_id ''11'') w2) = Inl FErrNotFound"
proof -
  obtain nd w where w: "vault demo_crypto demo_store w" "view demo_crypto demo_store w = [demo_id ''11'' \<mapsto> demo_file]"
      "users (w_db w) = users demo_db"
    by (rule demo_uploaded)
  obtain w1 where sh: "demo_share w = (Inr (), w1)" using demo_share_ok [OF w] by blast
  obtain w2 where rv: "Revoke demo_env demo_bob (demo_id ''11'') ''root'' w1 = (Inr (), w2)"
    using demo_revoke_ok [OF w sh] by blast
  have f: "view demo_crypto (re_store demo_repo) w (demo_id ''11'') = Some demo_file" by (simp add: w(2))
  have v: "vault demo_crypto (re_store demo_repo) w" by (simp add: w(1))
  have u: "u_ID (demo_user ''01'' ''root'' ''admin'') = ur_id (demo_user_row ''01'' ''root'' ''admin'')"
    by (simp add: demo_user_def demo_user_row_def)
  from grant_lifecycle [OF v f demo_ids(1) sh [unfolded demo_share_def] demo_root_row [OF w(3)] u rv demo_env_ok demo_env_ok,
      of no_faults] sh rv
  show ?thesis by (auto simp: no_faults_def demo_file_def new_file_def)
qed

end
