(* ===== verification/Vault_Races.thy ===== *)
theory Vault_Races
  imports Vault_Properties
begin

text \<open>
  When the file operations succeed, and what two sessions can do to each other in the windows between steps: the
  upload race that the retry resolves, and the two deletion races that it does not.
\<close>

section \<open>Uploads that succeed\<close>

lemma Stage_succeeds:
  assumes "0 < sint limit" "sint limit < 2 ^ 63 - 1" "int (length (rd_data rd)) \<le> sint limit" "rd_err rd = None"
    and "sr_dek rnd = Some k" "sr_wrap rnd = Some kw" "sr_content rnd = Some kc" "length (st_kek s) = 32"
    and "fs_files fs (temp_path s rnd) = None"
  shows "\<exists>st fs'. Stage c s rnd no_faults rd limit fs = (Inr st, fs')"
proof -
  have "read_all_limited (sint (limit + 1)) rd = Inr (rd_data rd)"
    using assms(1-4) by (simp add: read_all_limited_def sint_succ)
  moreover have "length (map k [0..<dekSize]) = 32" by (simp add: dekSize_def)
  ultimately show ?thesis
    using assms by (simp add: Stage_def newDEK_def wrapDEK_def encrypt_def newGCM_def rand_read_def
        aes_key_length_def write_temp_def no_faults_def Let_def)
qed

lemma finish_upload_succeeds:
  assumes "en_fail (at_env a) = (\<lambda>_. False)" "en_commit (at_env a) = CommitDone"
    and "pg_uuid (at_id a)" "pg_text name" "pg_text mime" "\<forall>n\<in>set (nodes d). n_id n \<noteq> at_id a"
    and "\<exists>x\<in>set (users d). ur_id x = u_ID p" "\<exists>b\<in>set (blobs d). b_hash b = sg_hash st"
  shows "\<exists>nd w'. finish_upload a p name mime st w d = (Inr nd, w') \<and> nd_ID nd = at_id a"
  using assms by (simp add: finish_upload_def exec_def insert_node_def commit_tx_def Let_def)

text \<open>What an attempt needs to go through.\<close>

definition attempt_can_succeed :: "attempt \<Rightarrow> user \<Rightarrow> string \<Rightarrow> string \<Rightarrow> db \<Rightarrow> bool" where
  "attempt_can_succeed a p name mime d \<longleftrightarrow>
     en_fail (at_env a) = (\<lambda>_. False) \<and> en_commit (at_env a) = CommitDone \<and> at_flt a = no_faults \<and>
     pg_uuid (at_id a) \<and> pg_text name \<and> pg_text mime \<and> (\<forall>n\<in>set (nodes d). n_id n \<noteq> at_id a) \<and>
     (\<exists>x\<in>set (users d). ur_id x = u_ID p) \<and> (\<forall>b\<in>set (blobs d). b_refs b < max_integer)"

lemma first_reference_succeeds:
  assumes rd: "ready c (re_store r) (w_fs w) st q" and can: "attempt_can_succeed a p name mime (w_db w)"
    and none: "blob_by_hash (sg_hash st) (w_db w) = None"
  shows "\<exists>nd st' w'. first_reference a r p name mime st w = (Inr nd, st', w') \<and> nd_ID nd = at_id a"
proof -
  let ?row = "\<lparr>b_hash = sg_hash st, b_size = sg_size st, b_wrapped = sg_wrapped st, b_refs = 1\<rparr>"
  let ?d = "(w_db w)\<lparr>blobs := blobs (w_db w) @ [?row]\<rparr>"
  have i: "insert_blob ?row (w_db w) = Inr ?d"
    using none rd by (auto simp: insert_blob_def blob_by_hash_def query_row_None ready_def)
  obtain st' fs where com: "Commit (re_store r) no_faults st (w_fs w) = (Inr (), st', fs)"
    using Commit_no_faults [OF rd] by blast
  obtain nd w' where "finish_upload a p name mime st' (w\<lparr>w_fs := fs\<rparr>) ?d = (Inr nd, w')" "nd_ID nd = at_id a"
    using finish_upload_succeeds [of a name mime ?d p st' "w\<lparr>w_fs := fs\<rparr>"] can Commit_done [OF com]
    by (auto simp: attempt_can_succeed_def)
  with i com can show ?thesis
    by (simp add: first_reference_def exec_def attempt_can_succeed_def)
qed

lemma further_reference_succeeds:
  assumes can: "attempt_can_succeed a p name mime (w_db w)" and s: "schema_ok (w_db w)"
    and b: "blob_by_hash (sg_hash st) (w_db w) = Some b"
  shows "\<exists>nd st' w'. further_reference a p name mime st w = (Inr nd, st', w') \<and> nd_ID nd = at_id a"
proof -
  note b' = blob_by_hash_Some [OF b]
  have "0 \<le> b_refs b" using schema_parts(3) [OF s] b' by (simp add: blobs_ok_def)
  moreover have "b_refs b < max_integer" using can b' by (simp add: attempt_can_succeed_def)
  ultimately obtain d where d: "add_refs 1 (sg_hash st) (w_db w) = Inr d"
    using b by (simp add: add_refs_def blob_by_hash_def)
  have frame: "users d = users (w_db w)" "nodes d = nodes (w_db w)"
    using d by (auto simp: add_refs_def split: option.splits if_splits)
  have "\<exists>x\<in>set (blobs d). b_hash x = sg_hash st"
    using d b' b by (auto elim!: add_refs_cases simp: bex_update_where if_distrib [of b_hash] cong: if_cong)
  moreover obtain st' fs where ab: "Abort (at_flt a) st (w_fs w) = (st', fs)" by fastforce
  moreover have "sg_hash st' = sg_hash st" using Abort_keeps_files(3) [of "at_flt a" st "w_fs w"] ab by simp
  ultimately obtain nd w' where "finish_upload a p name mime st' (w\<lparr>w_fs := fs\<rparr>) d = (Inr nd, w')" "nd_ID nd = at_id a"
    using finish_upload_succeeds [of a name mime d p st' "w\<lparr>w_fs := fs\<rparr>"] can frame
    by (auto simp: attempt_can_succeed_def)
  with d ab can show ?thesis
    by (simp add: further_reference_def exec_def attempt_can_succeed_def)
qed

lemma insertUpload_succeeds:
  assumes "attempt_can_succeed a p name mime (w_db w)" and "vault c (re_store r) w"
    and "ready c (re_store r) (w_fs w) st q" and "at_rival a = idle"
  shows "\<exists>nd st' w'. insertUpload a r p name mime st w = (Inr nd, st', w') \<and> nd_ID nd = at_id a"
proof (cases "blob_by_hash (sg_hash st) (w_db w)")
  case None
  with first_reference_succeeds [OF assms(3,1) None] assms(1,4) show ?thesis
    by (simp add: insertUpload_def exec_def attempt_can_succeed_def idle_def)
next
  case (Some b)
  with further_reference_succeeds [OF assms(1) vault_schema [OF assms(2)] Some] assms(1) show ?thesis
    by (simp add: insertUpload_def exec_def attempt_can_succeed_def)
qed

definition upload_can_succeed ::
  "crypto \<Rightarrow> unicode \<Rightarrow> (bytes \<Rightarrow> string) \<Rightarrow> repo \<Rightarrow> stage_random \<Rightarrow> string \<Rightarrow> reader \<Rightarrow> world \<Rightarrow> string \<Rightarrow> bool" where
  "upload_can_succeed c u detect r rnd mime body w t \<longleftrightarrow>
     0 < sint (re_maxBytes r) \<and> sint (re_maxBytes r) < 2 ^ 63 - 1 \<and>
     int (length (rd_data body)) \<le> sint (re_maxBytes r) \<and> rd_err body = None \<and>
     sr_dek rnd \<noteq> None \<and> sr_wrap rnd \<noteq> None \<and> sr_content rnd \<noteq> None \<and> length (st_kek (re_store r)) = 32 \<and>
     fs_files (w_fs w) (temp_path (re_store r) rnd) = None \<and>
     ValidateContent u detect mime (take 512 (rd_data body)) = Inr t"

lemma read_full_complete: "rd_err r = None \<Longrightarrow> \<exists>rest. read_full n r = Inr (take n (rd_data r), rest)"
  by (simp add: read_full_def)

lemma Upload_staged:
  assumes up: "upload_can_succeed c u detect r rnd mime body w t" and ok: "crypto_ok c" and v: "vault c (re_store r) w"
  obtains st fs where "ready c (re_store r) fs st (rd_data body)" "vault c (re_store r) (w\<lparr>w_fs := fs\<rparr>)"
    "view c (re_store r) (w\<lparr>w_fs := fs\<rparr>) = view c (re_store r) w"
    "\<And>env att p filename. Upload env no_faults c u detect r rnd att p filename mime body w =
       (case upload_attempts att r p (SanitizeFilename u filename) t st (w\<lparr>w_fs := fs\<rparr>) of
          (res, st', w1) \<Rightarrow>
          let w2 = (case res of Inl _ \<Rightarrow> w1
                 | Inr nd \<Rightarrow> Record env (user_event p ''file.upload'' (nd_ID nd) ResultOK []) w1)
          in (res, w2\<lparr>w_fs := snd (Abort no_faults st' (w_fs w2))\<rparr>))"
proof -
  from up obtain k kw kc where src: "sr_dek rnd = Some k" "sr_wrap rnd = Some kw" "sr_content rnd = Some kc"
    by (auto simp: upload_can_succeed_def)
  obtain st fs where st: "Stage c (re_store r) rnd no_faults body (re_maxBytes r) (w_fs w) = (Inr st, fs)"
    using Stage_succeeds [OF _ _ _ _ src, of "re_maxBytes r" body "re_store r" "w_fs w" c] up
    by (auto simp: upload_can_succeed_def)
  have rd: "ready c (re_store r) fs st (rd_data body)"
    by (rule Stage_staged [OF ok st]) (use up in \<open>simp add: upload_can_succeed_def\<close>)
  have cat: "os.catalogue (c, re_store r) fs (inventory c (re_store r) (w_fs w) (w_db w))"
    by (rule catalogue_kept [OF vault_served [OF v] Stage_frame [OF st]])
  obtain head rest where hr: "read_full 512 body = Inr (head, rest)" "head = take 512 (rd_data body)"
    using up read_full_complete [of body 512] by (auto simp: upload_can_succeed_def)
  have "multi_reader head rest = body" by (rule read_full_reassembled [OF hr(1)])
  with that [OF rd vault_fs [OF v cat]] hr st up show thesis
    by (simp add: Upload_def upload_can_succeed_def)
qed

lemma Upload_succeeds:
  assumes up: "upload_can_succeed c u detect r rnd mime body w t" and ok: "crypto_ok c" and v: "vault c (re_store r) w"
    and can: "attempt_can_succeed (att 0) p (SanitizeFilename u filename) t (w_db w)" and idle: "at_rival (att 0) = idle"
  shows "\<exists>nd w'. Upload env no_faults c u detect r rnd att p filename mime body w = (Inr nd, w') \<and> nd_ID nd = at_id (att 0)"
proof (rule Upload_staged [OF up ok v])
  fix st fs
  assume rd: "ready c (re_store r) fs st (rd_data body)" and v1: "vault c (re_store r) (w\<lparr>w_fs := fs\<rparr>)"
    and eq: "\<And>env att p filename. Upload env no_faults c u detect r rnd att p filename mime body w =
       (case upload_attempts att r p (SanitizeFilename u filename) t st (w\<lparr>w_fs := fs\<rparr>) of
          (res, st', w1) \<Rightarrow>
          let w2 = (case res of Inl _ \<Rightarrow> w1
                 | Inr nd \<Rightarrow> Record env (user_event p ''file.upload'' (nd_ID nd) ResultOK []) w1)
          in (res, w2\<lparr>w_fs := snd (Abort no_faults st' (w_fs w2))\<rparr>))"
  obtain nd st' w1 where "insertUpload (att 0) r p (SanitizeFilename u filename) t st (w\<lparr>w_fs := fs\<rparr>) = (Inr nd, st', w1)"
      "nd_ID nd = at_id (att 0)"
    using insertUpload_succeeds [OF _ v1 _ idle, of p "SanitizeFilename u filename" t st "rd_data body"] can rd by auto
  then show ?thesis by (simp add: eq upload_attempts_def Let_def)
qed

text \<open>
  C29 The upload race is resolved: when another session stores the same new content between the
  \<^verbatim>\<open>SELECT\<close> and the \<^verbatim>\<open>INSERT\<close> of the first attempt, the insertion is refused with a unique violation, and the
  retry takes a reference on the other session's blob; the upload succeeds and adds its file to
  what the other session left.
\<close>

theorem upload_race_is_resolved:
  assumes ok: "crypto_ok c" and v: "vault c (re_store r) w" and rd: "ready c (re_store r) (w_fs w) st q"
    and cf: "collision_free c q"
    and none: "blob_by_hash (sg_hash st) (w_db w) = None" and tm0: "tame c (re_store r) (at_rival (att 0))"
    and b: "blob_by_hash (sg_hash st) (w_db (at_rival (att 0) w)) = Some b"
    and can0: "attempt_can_succeed (att 0) p name mime (w_db w)"
    and can1: "attempt_can_succeed (att 1) p name mime (w_db (at_rival (att 0) w))" and idle1: "at_rival (att 1) = idle"
  shows "\<exists>nd st' w'. upload_attempts att r p name mime st w = (Inr nd, st', w') \<and> vault c (re_store r) w' \<and>
    view c (re_store r) (at_rival (att 0) w) (nd_ID nd) = None \<and>
    view c (re_store r) w' = (view c (re_store r) (at_rival (att 0) w))(nd_ID nd \<mapsto>
      \<lparr>fl_owner = u_ID p, fl_name = name, fl_mime = mime, fl_content = q, fl_grants = Map.empty\<rparr>)"
proof -
  let ?w1 = "at_rival (att 0) w" and ?s = "re_store r"
  have v1: "vault c ?s ?w1" and rd1: "ready c ?s (w_fs ?w1) st q"
    using v tm0 rd by (auto simp: tame_def)
  have "\<exists>x\<in>set (blobs (w_db ?w1)). b_hash x = sg_hash st" using blob_by_hash_Some [OF b] by blast
  moreover have "0 \<le> sg_size st" using rd by (simp add: ready_def)
  ultimately have first: "insertUpload (att 0) r p name mime st w = (Inl (FErrDb UniqueViolation), st, ?w1)"
    using none can0 by (simp add: insertUpload_def first_reference_def exec_def insert_blob_def attempt_can_succeed_def)
  obtain nd st' w' where second: "insertUpload (att 1) r p name mime st ?w1 = (Inr nd, st', w')"
    using insertUpload_succeeds [OF can1 v1 rd1 idle1] by blast
  have tm: "tame c ?s (at_rival (att 1))" unfolding idle1 by simp
  have rd1': "staged_ok c ?s (w_fs ?w1) st q" using rd1 by (simp add: staged_ok_def)
  obtain w0 where w0: "w0 = ?w1 \<or> w0 = at_rival (att 1) ?w1"
      "attempt_result c ?s q w0 (at_id (att 1)) (new_file (u_ID p) name mime q) (Inr nd) st' w'"
    using insertUpload_step [OF ok v1 rd1' tm cf second] by metis
  then have "w0 = ?w1" by (auto simp: idle1 [unfolded One_nat_def] idle_def)
  with w0(2) first second show ?thesis
    by (auto simp: upload_attempts_def attempt_result_def upload_outcome_def new_file_def)
qed

section \<open>Deletions that succeed\<close>

definition quiet :: "env \<Rightarrow> bool" where
  "quiet env \<longleftrightarrow> en_fail env = (\<lambda>_. False) \<and> en_commit env = CommitDone"

lemma quiet_exec: "quiet env \<Longrightarrow> exec env call x = x"
  by (simp add: quiet_def exec_def)

text \<open>The reference is given back on a database that may have lost the node already.\<close>

lemma dereference_succeeds:
  assumes b: "blob_by_hash h d = Some b" and pos: "1 \<le> b_refs b" and max: "b_refs b \<le> max_integer"
  shows "\<exists>d'. add_refs (- 1) h d = Inr d' \<and> nodes d' = nodes d \<and> users d' = users d \<and>
    blob_by_hash h d' = Some (b\<lparr>b_refs := b_refs b - 1\<rparr>)"
proof -
  let ?d = "d\<lparr>blobs := update_where (\<lambda>b. b_hash b = h) (\<lambda>b. b\<lparr>b_refs := b_refs b + - 1\<rparr>) (blobs d)\<rparr>"
  have "add_refs (- 1) h d = Inr ?d"
    using assms by (simp add: add_refs_def blob_by_hash_def)
  moreover have "blob_by_hash h ?d = Some (b\<lparr>b_refs := b_refs b - 1\<rparr>)"
    using b refs_update_lookup [of h "- 1" "blobs d"] by (simp add: blob_by_hash_def)
  ultimately show ?thesis by (intro exI [of _ ?d]) simp
qed

lemma delete_tx_counts:
  assumes q: "quiet env" and m: "meta_ok d" and n: "node_by_id i d = Some n"
    and max: "int (node_count (n_blob n) d) \<le> max_integer"
  obtains d' where "delete_tx env i (n_blob n) d = Inr (int (node_count (n_blob n) d) - 1, d')"
    "nodes d' = delete_where (\<lambda>x. n_id x = i) (nodes d)" "users d' = users d"
    "2 \<le> node_count (n_blob n) d \<Longrightarrow> \<exists>b. blob_by_hash (n_blob n) d' = Some b \<and> b_refs b = int (node_count (n_blob n) d) - 1"
proof -
  let ?h = "n_blob n"
  obtain b where b: "blob_by_hash ?h d = Some b" using node_joins [OF meta_parts(1) [OF m] n] by metis
  have refs: "b_refs b = int (node_count ?h d)" "1 \<le> node_count ?h d"
    using meta_parts(3) [OF m] blob_by_hash_Some [OF b] by (auto simp: refs_ok_def)
  have b1: "blob_by_hash ?h (delete_node i d) = Some b" using b by (simp add: blob_by_hash_def)
  obtain d2 where d2: "add_refs (- 1) ?h (delete_node i d) = Inr d2" "nodes d2 = nodes (delete_node i d)"
      "users d2 = users d"
      "blob_by_hash ?h d2 = Some (b\<lparr>b_refs := b_refs b - 1\<rparr>)"
    using dereference_succeeds [OF b1] refs max by auto
  show thesis
  proof (cases "node_count ?h d = 1")
    case True
    have "node_count ?h d2 = 0"
      using node_count_delete [OF meta_parts(1) [OF m] n, of ?h] True d2(2) by (simp add: node_count_def)
    then have "delete_blob ?h d2 = Inr (d2\<lparr>blobs := delete_where (\<lambda>b. b_hash b = ?h) (blobs d2)\<rparr>)"
      by (auto simp: delete_blob_def node_count_def count_where_zero)
    with d2 refs True q that show thesis by (simp add: delete_tx_def quiet_exec)
  next
    case False
    with d2 refs q that show thesis by (simp add: delete_tx_def quiet_exec)
  qed
qed

lemma Delete_runs:
  assumes q: "quiet env" and v: "vault c (re_store r) w" and f: "view c (re_store r) w i = Some f"
    and p: "permitted p f ActionDelete" and i: "pg_uuid i" and n: "node_by_id i (w_db w) = Some n"
  shows "Delete env flt r rv1 rv2 p i w =
    (case delete_tx env i (n_blob n) (w_db (rv1 w)) of
       Inl e \<Rightarrow> (Inl e, rv1 w)
     | Inr (refs, d) \<Rightarrow> finish_delete env flt r rv2 p i (n_blob n) refs ((rv1 w)\<lparr>w_db := d\<rparr>))"
proof -
  obtain res w' where a: "authorize env p i ActionDelete w = (res, w')" by fastforce
  show ?thesis
  proof (cases rule: authorize_cases [OF v a])
    case (4 m b ou)
    with a n q show ?thesis
      by (auto simp: Delete_def Let_def quiet_def commit_tx_def split: sum.splits)
  qed (use q f p i in \<open>auto simp: quiet_def\<close>)
qed

section \<open>Two races that are not resolved\<close>

text \<open>
  C39 Deleting against uploading: when the last file of a content is deleted and another session stores the same
  content anew between the commit and the unlink, the deletion reports success and removes the object the other
  session has just published: its file is listed, but can never be opened again.
\<close>

theorem reupload_during_delete_is_lost:
  assumes q: "quiet env" and v: "vault c (re_store r) w" and f: "view c (re_store r) w i = Some f"
    and p: "permitted p f ActionDelete" and i: "pg_uuid i" and n: "node_by_id i (w_db w) = Some n"
    and last: "node_count (n_blob n) (w_db w) = 1"
    and again: "\<And>v. vault c (re_store r) v \<Longrightarrow> nodes (w_db v) = delete_where (\<lambda>x. n_id x = i) (nodes (w_db w)) \<Longrightarrow>
      users (w_db v) = users (w_db w) \<Longrightarrow> w_fs v = w_fs w \<Longrightarrow>
      \<exists>m\<in>set (nodes (w_db (rv v))). n_blob m = n_blob n"
    and del: "Delete env no_faults r idle rv p i w = (res, w')"
  shows "res = Inr () \<and> (\<exists>m\<in>set (nodes (w_db w')). \<forall>flt k x. Open c (re_store r) flt (w_fs w') (n_blob m) k \<noteq> Inr x) \<and>
    \<not> vault c (re_store r) w'"
proof -
  obtain d where d: "delete_tx env i (n_blob n) (w_db w) = Inr (0, d)" "nodes d = delete_where (\<lambda>x. n_id x = i) (nodes (w_db w))"
      "users d = users (w_db w)"
    using delete_tx_counts [OF q vault_meta [OF v] n] last by (auto simp: max_integer_def)
  have mid: "vault c (re_store r) (w\<lparr>w_db := d\<rparr>)"
    using delete_tx_step [OF vault_meta [OF v] n d(1)] vault_served [OF v] by (intro vaultI) simp_all
  let ?w1 = "rv (w\<lparr>w_db := d\<rparr>)"
  let ?w2 = "?w1\<lparr>w_fs := (w_fs ?w1)\<lparr>fs_files := (fs_files (w_fs ?w1))(objectPath (re_store r) (n_blob n) := None)\<rparr>\<rparr>"
  have res: "res = Inr ()" and w': "w' = Record env (user_event p ''file.delete'' i ResultOK []) ?w2"
    using del Delete_runs [OF q v f p i n, of no_faults idle rv] d(1)
    by (simp_all add: idle_def finish_delete_def Remove_def no_faults_def Let_def)
  obtain m where m: "m \<in> set (nodes (w_db ?w1))" "n_blob m = n_blob n"
    using again [of "w\<lparr>w_db := d\<rparr>"] d(2,3) mid by auto
  have m': "m \<in> set (nodes (w_db w'))" using m(1) by (simp add: w')
  have no: "Open c (re_store r) flt (w_fs w') (n_blob m) k \<noteq> Inr x" for flt k x
    by (simp add: w' m(2) Open_def)
  have "\<not> vault c (re_store r) w'"
  proof
    assume v': "vault c (re_store r) w'"
    obtain b where b: "b \<in> set (blobs (w_db w'))" "b_hash b = n_blob m"
      using schema_parts(4) [OF vault_schema [OF v']] m' by (auto simp: nodes_ok_def)
    from served_reads [OF vault_served [OF v'] b(1)] no [of no_faults "b_wrapped b"] show False
      by (simp add: reads_def b(2))
  qed
  with res m' no show ?thesis by blast
qed

text \<open>
  Deleting twice: when two sessions of the owner delete the same file, of a content that has three files or more, and
  both are authorised before either commits, both report success and the blob loses two
  references for one file: its count is below the number of its files from then on.
\<close>

theorem double_delete_undercounts:
  assumes q: "quiet env" and v: "vault c (re_store r) w" and f: "view c (re_store r) w i = Some f"
    and p: "permitted p f ActionDelete" and i: "pg_uuid i" and n: "node_by_id i (w_db w) = Some n"
    and many: "3 \<le> node_count (n_blob n) (w_db w)" "int (node_count (n_blob n) (w_db w)) \<le> max_integer"
    and del: "Delete env no_faults r (\<lambda>w. snd (Delete env no_faults r idle idle p i w)) idle p i w = (res, w')"
  shows "res = Inr () \<and> (\<exists>b\<in>set (blobs (w_db w')). b_hash b = n_blob n \<and> b_refs b < int (node_count (n_blob n) (w_db w'))) \<and>
    \<not> vault c (re_store r) w'"
proof -
  let ?h = "n_blob n" and ?N = "node_count (n_blob n) (w_db w)"
  obtain d b where d: "delete_tx env i ?h (w_db w) = Inr (int ?N - 1, d)" "nodes d = delete_where (\<lambda>x. n_id x = i) (nodes (w_db w))"
      "blob_by_hash ?h d = Some b" "b_refs b = int ?N - 1"
    using delete_tx_counts [OF q vault_meta [OF v] n many(2)] many(1) by (metis numeral_3_eq_3 numeral_2_eq_2 Suc_leD)
  define w1 where "w1 = snd (Delete env no_faults r idle idle p i w)"
  have w1: "nodes (w_db w1) = nodes d" "blobs (w_db w1) = blobs d"
    using Delete_runs [OF q v f p i n, of no_faults idle idle] d(1) many(1)
    by (simp_all add: w1_def idle_def finish_delete_def Let_def)
  have gone: "delete_where (\<lambda>x. n_id x = i) (nodes d) = nodes d"
    by (simp add: d(2) delete_where_def)
  have b1: "blob_by_hash ?h (delete_node i (w_db w1)) = Some b" using d(3) w1(2) by (simp add: blob_by_hash_def)
  obtain d2 where d2: "add_refs (- 1) ?h (delete_node i (w_db w1)) = Inr d2" "nodes d2 = nodes d"
      "blob_by_hash ?h d2 = Some (b\<lparr>b_refs := int ?N - 2\<rparr>)"
    using dereference_succeeds [OF b1] d(4) many w1(1) gone by auto
  have tx: "delete_tx env i ?h (w_db w1) = Inr (int ?N - 2, d2)"
    using d2 many(1) q by (simp add: delete_tx_def quiet_exec)
  have "(res, w') = (Inr (), Record env (user_event p ''file.delete'' i ResultOK []) (w1\<lparr>w_db := d2\<rparr>))"
    using del Delete_runs [OF q v f p i n, of no_faults "\<lambda>w. snd (Delete env no_faults r idle idle p i w)" idle] tx many(1)
    by (simp add: w1_def [symmetric] finish_delete_def Let_def idle_def)
  then have res: "res = Inr ()" and w': "nodes (w_db w') = nodes d2" "blobs (w_db w') = blobs d2" by simp_all
  have count: "node_count ?h (w_db w') = ?N - 1"
    using node_count_delete [OF vault_schema [OF v] n, of ?h] w'(1) d2(2) d(2) by (simp add: node_count_def)
  have low: "\<exists>b\<in>set (blobs (w_db w')). b_hash b = ?h \<and> b_refs b < int (node_count ?h (w_db w'))"
    using blob_by_hash_Some [OF d2(3)] w'(2) count many(1) by (intro bexI [of _ "b\<lparr>b_refs := int ?N - 2\<rparr>"]) auto
  then have "\<not> vault c (re_store r) w'"
    using meta_parts(3) [OF vault_meta, of c "re_store r" w'] by (force simp: refs_ok_def)
  with res low show ?thesis by blast
qed

section \<open>The races on a concrete deployment\<close>

text \<open>The row behind a file of the view, and its blob.\<close>

lemma view_row:
  assumes v: "vault c s w" and f: "view c s w i = Some f" and q: "fl_content f = q"
  obtains n b where "node_by_id i (w_db w) = Some n" "n \<in> set (nodes (w_db w))" "n_id n = i" "n_owner n = fl_owner f"
    "n_blob n = c_sha256 c q" "blob_by_hash (c_sha256 c q) (w_db w) = Some b"
proof -
  obtain n where n: "node_by_id i (w_db w) = Some n" "f = abs_node c s (w_fs w) (w_db w) n"
    using f by (auto simp: view_def file_map_def)
  obtain b where b: "blob_by_hash (n_blob n) (w_db w) = Some b" "b \<in> set (blobs (w_db w))" "b_hash b = n_blob n"
    using node_joins [OF vault_schema [OF v] n(1)] by metis
  have "content c s (w_fs w) b = q" using n(2) b(1) q by (simp add: abs_node_def blob_content_def)
  with served_reads [OF vault_served [OF v] b(2)] b(3) have "Open c s no_faults (w_fs w) (n_blob n) (b_wrapped b) = Inr q"
    by (simp add: reads_def)
  then have "n_blob n = c_sha256 c q" by (auto elim: Open_Inr)
  with that n b node_by_id_Some [OF n(1)] show thesis by (simp add: abs_node_def)
qed

lemma view_single:
  assumes v: "vault c s w" and f: "view c s w = [i \<mapsto> f]"
  shows "\<exists>n. nodes (w_db w) = [n]"
proof -
  have ids: "n_id n = i" if "n \<in> set (nodes (w_db w))" for n
  proof -
    have "view c s w (n_id n) \<noteq> None"
      using node_row_unique [OF vault_schema [OF v] that] by (simp add: view_def file_map_def)
    then show ?thesis by (simp add: f split: if_splits)
  qed
  obtain n b where n: "n \<in> set (nodes (w_db w))" using view_row [OF v, of i f "fl_content f"] f by auto
  have dist: "distinct (map n_id (nodes (w_db w)))" using schema_parts(4) [OF vault_schema [OF v]] by (simp add: nodes_ok_def)
  show ?thesis
  proof (cases "nodes (w_db w)")
    case (Cons x xs)
    have "xs = []"
    proof (cases xs)
      case second: (Cons y ys)
      have "n_id x = i" "n_id y = i" by (rule ids, simp add: Cons second)+
      with dist show ?thesis by (simp add: Cons second)
    qed
    with Cons show ?thesis by simp
  qed (use n in simp)
qed

lemma refs_bounded:
  assumes "vault c s w" and "int (length (nodes (w_db w))) < max_integer"
  shows "\<forall>b\<in>set (blobs (w_db w)). b_refs b < max_integer"
proof
  fix b
  assume "b \<in> set (blobs (w_db w))"
  then have "b_refs b = int (node_count (b_hash b) (w_db w))"
    using meta_parts(3) [OF vault_meta [OF assms(1)]] by (auto simp: refs_ok_def)
  also have "\<dots> \<le> int (length (nodes (w_db w)))" by (simp add: node_count_def count_where_def)
  finally show "b_refs b < max_integer" using assms(2) by simp
qed

text \<open>A second session uploads the same content, with random bits of its own.\<close>

definition demo_rival :: rival where
  "demo_rival w = snd (Upload demo_env no_faults demo_crypto demo_unicode demo_sniff demo_repo (demo_random 6)
     (demo_attempt ''12'' idle) demo_bob ''a.csv'' ''text/csv'' (demo_reader [1, 2, 3]) w)"

lemma demo_uuids [simp]: "pg_uuid (demo_id ''11'')" "pg_uuid (demo_id ''12'')" "pg_uuid (demo_id ''13'')"
  by (simp_all add: demo_id_def pg_uuid_def hex_alphabet_def)

lemma demo_id_inject [simp]: "demo_id a = demo_id b \<longleftrightarrow> a = b"
  by (simp add: demo_id_def)

lemma demo_names [simp]: "pg_text ''a.csv''" "pg_text ''text/csv''"
  by (simp_all add: pg_text_ascii ascii_def)

lemma demo_attempt_can:
  assumes "\<exists>x\<in>set (users (w_db w)). ur_id x = demo_id ''02''" and "\<forall>n\<in>set (nodes (w_db w)). n_id n \<noteq> demo_id i"
    and "pg_uuid (demo_id i)" and "vault c s w" and "length (nodes (w_db w)) < 5"
  shows "attempt_can_succeed (demo_attempt i rv k) demo_bob ''a.csv'' ''text/csv'' (w_db w)"
  using assms refs_bounded [OF assms(4)]
  by (simp add: attempt_can_succeed_def demo_attempt_def demo_env_def demo_bob_def demo_user_def max_integer_def)

lemma demo_rival_runs:
  assumes v: "vault demo_crypto demo_store w" and tmp: "fs_files (w_fs w) (temp_path demo_store (demo_random 6)) = None"
    and u: "\<exists>x\<in>set (users (w_db w)). ur_id x = demo_id ''02''" and free: "nodes (w_db w) = []"
  shows "vault demo_crypto demo_store (demo_rival w)" "view demo_crypto demo_store (demo_rival w) = [demo_id ''12'' \<mapsto> demo_file]"
proof -
  have can: "attempt_can_succeed (demo_attempt ''12'' idle 0) demo_bob (SanitizeFilename demo_unicode ''a.csv'') ''text/csv'' (w_db w)"
    unfolding demo_csv_name by (rule demo_attempt_can [OF u _ _ v]) (simp_all add: free)
  have up: "upload_can_succeed demo_crypto demo_unicode demo_sniff demo_repo (demo_random 6) ''text/csv'' (demo_reader [1, 2, 3]) w ''text/csv''"
    using tmp by (simp add: upload_can_succeed_def demo_reader_def demo_csv_type demo_repo_def NewRepo_def demo_random_def demo_store_def)
  obtain nd w' where w': "Upload demo_env no_faults demo_crypto demo_unicode demo_sniff demo_repo (demo_random 6)
     (demo_attempt ''12'' idle) demo_bob ''a.csv'' ''text/csv'' (demo_reader [1, 2, 3]) w = (Inr nd, w')"
    using Upload_succeeds [where att = "demo_attempt ''12'' idle" and env = demo_env, OF up demo_crypto_ok _ can] v by auto
  have none: "view demo_crypto demo_store w = Map.empty"
    by (simp add: fun_eq_iff view_def file_map_def node_by_id_def free query_row_def)
  from Upload_step [OF demo_crypto_ok _ _ _ demo_limit w'] v w'
  have "vault demo_crypto demo_store (demo_rival w) \<and> view demo_crypto demo_store (demo_rival w) = [demo_id ''12'' \<mapsto> demo_file]"
    by (auto simp: demo_rival_def upload_outcome_def demo_csv_name demo_csv_type none demo_file_def demo_bob_def
        demo_user_def demo_reader_def demo_collision_free)
  then show "vault demo_crypto demo_store (demo_rival w)"
    "view demo_crypto demo_store (demo_rival w) = [demo_id ''12'' \<mapsto> demo_file]" by simp_all
qed

lemma demo_rival_tame: "tame demo_crypto (re_store demo_repo) demo_rival"
  unfolding demo_rival_def by (rule tame_upload [OF demo_crypto_ok _ _ demo_limit]) (simp_all add: demo_collision_free demo_reader_def)

lemma demo_temp_free:
  assumes "demo_upload ''11'' demo_start = (res, w)"
  shows "fs_files (w_fs w) (temp_path demo_store (demo_random 6)) = None"
proof -
  have "temp_path demo_store (demo_random 6) \<noteq> temp_path (re_store demo_repo) (demo_random 5)"
    by code_simp
  moreover have "temp_path demo_store (demo_random 6) \<noteq> objectPath (re_store demo_repo) h" if "length h = HashSize" for h
    by (simp add: temp_path_not_objectPath address_nonempty [OF that])
  ultimately have "fs_files (w_fs w) (temp_path demo_store (demo_random 6)) = fs_files (w_fs demo_start) (temp_path demo_store (demo_random 6))"
    using Upload_keeps_files [OF demo_crypto_ok _ _ _ assms [unfolded demo_upload_def]] by simp
  then show ?thesis by (simp add: demo_start_def demo_world_def demo_fs_def)
qed

text \<open>Bob's upload has staged the content; the rival session stores it first.\<close>

lemma demo_race:
  obtains st w b where "vault demo_crypto demo_store w" "ready demo_crypto demo_store (w_fs w) st [1, 2, 3]"
    "w_db w = demo_db" "view demo_crypto demo_store (demo_rival w) = [demo_id ''12'' \<mapsto> demo_file]"
    "blob_by_hash (sg_hash st) (w_db (demo_rival w)) = Some b"
    "attempt_can_succeed (demo_attempt ''13'' idle 1) demo_bob ''a.csv'' ''text/csv'' (w_db (demo_rival w))"
proof -
  obtain st fs where st: "Stage demo_crypto demo_store (demo_random 5) no_faults (demo_reader [1, 2, 3]) (re_maxBytes demo_repo) demo_fs = (Inr st, fs)"
      and rd: "ready demo_crypto demo_store fs st [1, 2, 3]"
    by (rule demo_staged)
  let ?w = "demo_start\<lparr>w_fs := fs\<rparr>"
  have db: "w_db ?w = demo_db" "w_fs demo_start = demo_fs" "blobs demo_db = []" "nodes demo_db = []"
    by (simp_all add: demo_start_def demo_world_def demo_db_def empty_db_def)
  have v: "vault demo_crypto demo_store ?w"
    by (rule vault_fs(1) [OF demo_start_vault catalogue_kept [OF vault_served [OF demo_start_vault]]])
      (use Stage_frame [OF st] db in simp)
  have u: "\<exists>x\<in>set (users (w_db ?w)). ur_id x = demo_id ''02''" by (simp add: db demo_db_def demo_user_row_def)
  have "temp_path demo_store (demo_random 6) \<noteq> temp_path demo_store (demo_random 5)" by code_simp
  with Stage_effect(1) [OF st] have tmp: "fs_files (w_fs ?w) (temp_path demo_store (demo_random 6)) = None"
    by (simp add: demo_fs_def)
  note rival = demo_rival_runs [OF v tmp u db(4) [folded db(1)]]
  obtain n b where n: "n \<in> set (nodes (w_db (demo_rival ?w)))" "n_id n = demo_id ''12''" "n_owner n = fl_owner demo_file"
      and b: "blob_by_hash (c_sha256 demo_crypto [1, 2, 3]) (w_db (demo_rival ?w)) = Some b"
    by (rule view_row [OF rival(1), of "demo_id ''12''" demo_file "[1, 2, 3]"])
      (simp_all add: rival(2) demo_file_def new_file_def)
  obtain m where m: "nodes (w_db (demo_rival ?w)) = [m]" using view_single [OF rival] by blast
  have "\<exists>x\<in>set (users (w_db (demo_rival ?w))). ur_id x = n_owner n"
    using schema_parts(4) [OF vault_schema [OF rival(1)]] n(1) unfolding nodes_ok_def by blast
  then have u1: "\<exists>x\<in>set (users (w_db (demo_rival ?w))). ur_id x = demo_id ''02''"
    by (simp add: n(3) demo_file_def new_file_def)
  have "attempt_can_succeed (demo_attempt ''13'' idle 1) demo_bob ''a.csv'' ''text/csv'' (w_db (demo_rival ?w))"
    using demo_attempt_can [OF u1 _ _ rival(1)] m n by simp
  moreover have "sg_hash st = c_sha256 demo_crypto [1, 2, 3]" using rd by (simp add: ready_def)
  ultimately show thesis using that [of ?w st b] v rd db rival(2) b by simp
qed

theorem upload_race_is_resolved_witness:
  "\<exists>att st w nd st' w'. upload_attempts att demo_repo demo_bob ''a.csv'' ''text/csv'' st w = (Inr nd, st', w') \<and>
     vault demo_crypto (re_store demo_repo) w' \<and> nd_ID nd \<noteq> demo_id ''12'' \<and>
     view demo_crypto (re_store demo_repo) w' (demo_id ''12'') = Some demo_file"
proof -
  let ?att = "\<lambda>k. if k = 0 then demo_attempt ''11'' demo_rival 0 else demo_attempt ''13'' idle 1"
  obtain st w b where w: "vault demo_crypto demo_store w" "ready demo_crypto demo_store (w_fs w) st [1, 2, 3]"
      "w_db w = demo_db" "view demo_crypto demo_store (demo_rival w) = [demo_id ''12'' \<mapsto> demo_file]"
      "blob_by_hash (sg_hash st) (w_db (demo_rival w)) = Some b"
      "attempt_can_succeed (demo_attempt ''13'' idle 1) demo_bob ''a.csv'' ''text/csv'' (w_db (demo_rival w))"
    by (rule demo_race)
  have db: "blobs demo_db = []" "nodes demo_db = []" "\<exists>x\<in>set (users demo_db). ur_id x = demo_id ''02''"
    by (simp_all add: demo_db_def empty_db_def demo_user_row_def)
  have can0: "attempt_can_succeed (?att 0) demo_bob ''a.csv'' ''text/csv'' (w_db w)"
    using demo_attempt_can [OF _ _ _ w(1)] w(3) db by simp
  have none: "blob_by_hash (sg_hash st) (w_db w) = None" by (simp add: w(3) db blob_by_hash_def query_row_def)
  note race = upload_race_is_resolved [where att = ?att and r = demo_repo, OF demo_crypto_ok _ _ _ none _ _ can0]
  obtain nd st' w' where r: "upload_attempts ?att demo_repo demo_bob ''a.csv'' ''text/csv'' st w = (Inr nd, st', w')"
      "vault demo_crypto (re_store demo_repo) w'"
      "view demo_crypto (re_store demo_repo) (demo_rival w) (nd_ID nd) = None"
      "view demo_crypto (re_store demo_repo) w' = (view demo_crypto (re_store demo_repo) (demo_rival w))(nd_ID nd \<mapsto>
         \<lparr>fl_owner = u_ID demo_bob, fl_name = ''a.csv'', fl_mime = ''text/csv'', fl_content = [1, 2, 3], fl_grants = Map.empty\<rparr>)"
    using race [where q = "[1, 2, 3]" and b = b] w demo_rival_tame by (auto simp: demo_collision_free simp del: fun_upd_apply)
  from r(3) have "nd_ID nd \<noteq> demo_id ''12''" by (auto simp: w(4) split: if_splits)
  with r(1,2,4) show ?thesis by (intro exI conjI) (auto simp: w(4))
qed

lemma demo_quiet: "quiet demo_env"
  by (simp add: quiet_def demo_env_def)

lemma demo_row:
  assumes v: "vault demo_crypto demo_store w" and f: "view demo_crypto demo_store w = [demo_id i \<mapsto> demo_file]"
  obtains n where "nodes (w_db w) = [n]" "n_id n = demo_id i" "n_blob n = c_sha256 demo_crypto [1, 2, 3]" "n_owner n = demo_id ''02''"
    "node_by_id (demo_id i) (w_db w) = Some n"
proof -
  obtain n where n: "node_by_id (demo_id i) (w_db w) = Some n" "n \<in> set (nodes (w_db w))" "n_id n = demo_id i"
      "n_owner n = fl_owner demo_file" "n_blob n = c_sha256 demo_crypto [1, 2, 3]"
    by (rule view_row [OF v, of "demo_id i" demo_file "[1, 2, 3]"]) (simp_all add: f demo_file_def new_file_def)
  moreover obtain m where "nodes (w_db w) = [m]" using view_single [OF v f] by blast
  ultimately show thesis using that [of n] by (simp add: demo_file_def new_file_def)
qed

theorem reupload_during_delete_is_lost_witness:
  "\<exists>w w'. vault demo_crypto (re_store demo_repo) w \<and>
     Delete demo_env no_faults demo_repo idle demo_rival demo_bob (demo_id ''11'') w = (Inr (), w') \<and>
     (\<exists>m\<in>set (nodes (w_db w')). \<forall>flt k x. Open demo_crypto (re_store demo_repo) flt (w_fs w') (n_blob m) k \<noteq> Inr x)"
proof -
  obtain nd w where up: "demo_upload ''11'' demo_start = (Inr nd, w)" and v: "vault demo_crypto demo_store w"
      and f: "view demo_crypto demo_store w = [demo_id ''11'' \<mapsto> demo_file]" and u: "users (w_db w) = users demo_db"
    by (rule demo_uploaded)
  obtain n where n: "nodes (w_db w) = [n]" "n_id n = demo_id ''11''" "n_blob n = c_sha256 demo_crypto [1, 2, 3]"
      "node_by_id (demo_id ''11'') (w_db w) = Some n"
    by (rule demo_row [OF v f])
  have again: "\<exists>m\<in>set (nodes (w_db (demo_rival x))). n_blob m = n_blob n"
    if "vault demo_crypto demo_store x" "nodes (w_db x) = []" "users (w_db x) = users demo_db" "w_fs x = w_fs w" for x
  proof -
    have "\<exists>y\<in>set (users (w_db x)). ur_id y = demo_id ''02''" by (simp add: that demo_db_def demo_user_row_def)
    note r = demo_rival_runs [OF that(1) _ this that(2), unfolded that(4), OF demo_temp_free [OF up]]
    obtain m where "nodes (w_db (demo_rival x)) = [m]" "n_blob m = c_sha256 demo_crypto [1, 2, 3]" by (rule demo_row [OF r])
    then show ?thesis by (simp add: n(3))
  qed
  obtain res w' where d: "Delete demo_env no_faults demo_repo idle demo_rival demo_bob (demo_id ''11'') w = (res, w')" by fastforce
  have may: "permitted demo_bob demo_file ActionDelete" by (simp add: demo_owner acl_action_def)
  have "res = Inr () \<and> (\<exists>m\<in>set (nodes (w_db w')). \<forall>flt k x. Open demo_crypto (re_store demo_repo) flt (w_fs w') (n_blob m) k \<noteq> Inr x) \<and>
      \<not> vault demo_crypto (re_store demo_repo) w'"
    by (rule reupload_during_delete_is_lost [OF demo_quiet _ _ may _ n(4) _ _ d])
      (use v f u n again in \<open>auto simp: node_count_def count_where_def delete_where_def\<close>)
  with v d show ?thesis by auto
qed

text \<open>Three files of one content: two further references on the stored blob.\<close>

lemma another_file:
  assumes v: "vault c s w" and n: "n \<in> set (nodes (w_db w))" and i: "pg_uuid i" "\<forall>x\<in>set (nodes (w_db w)). n_id x \<noteq> i"
    and few: "length (nodes (w_db w)) < 5"
  obtains w' where "vault c s w'" "nodes (w_db w') = nodes (w_db w) @ [n\<lparr>n_id := i, n_name := ''b'', n_mime := ''c''\<rparr>]"
proof -
  let ?d = "w_db w" let ?r = "n\<lparr>n_id := i, n_name := ''b'', n_mime := ''c''\<rparr>"
  note s = vault_schema [OF v]
  obtain b ou where b: "blob_by_hash (n_blob n) ?d = Some b" "b \<in> set (blobs ?d)" "user_by_id (n_owner n) ?d = Some ou" "b_hash b = n_blob n"
    using node_joins [OF s node_row_unique [OF s n]] by metis
  have "0 \<le> b_refs b" using schema_parts(3) [OF s] b(2) by (simp add: blobs_ok_def)
  moreover have "b_refs b < max_integer" using refs_bounded [OF v] few b(2) by (simp add: max_integer_def)
  ultimately obtain d1 where d1: "add_refs 1 (n_blob n) ?d = Inr d1"
    using b(1) by (simp add: add_refs_def blob_by_hash_def)
  from d1 b(1) have frame: "users d1 = users ?d" "nodes d1 = nodes ?d" "\<exists>x\<in>set (blobs d1). b_hash x = n_blob n"
    using b by (auto elim!: add_refs_cases simp: bex_update_where)
  have "ou \<in> set (users ?d) \<and> ur_id ou = n_owner n"
    using b(3) unfolding user_by_id_def by (drule_tac query_row_Some) simp
  then have ins: "insert_node ?r d1 = Inr (d1\<lparr>nodes := nodes ?d @ [?r]\<rparr>)"
    using frame i by (auto simp: insert_node_def pg_text_ascii ascii_def)
  have "meta_ok (d1\<lparr>nodes := nodes ?d @ [?r]\<rparr>)"
    by (rule pending_done [OF pending_again [OF vault_meta [OF v] d1 b(1)] ins]) simp
  moreover have "served c s (w_fs w) (d1\<lparr>nodes := nodes ?d @ [?r]\<rparr>)"
    by (rule served_cong [OF served_add_refs [OF vault_served [OF v] d1]]) simp
  ultimately show thesis using that [of "w\<lparr>w_db := d1\<lparr>nodes := nodes ?d @ [?r]\<rparr>\<rparr>"] by (simp add: vault_def)
qed

lemma demo_three_files:
  obtains w n where "vault demo_crypto demo_store w" "node_by_id (demo_id ''11'') (w_db w) = Some n"
    "n_owner n = demo_id ''02''" "node_count (n_blob n) (w_db w) = 3"
proof -
  obtain nd w1 where v1: "vault demo_crypto demo_store w1"
      and f: "view demo_crypto demo_store w1 = [demo_id ''11'' \<mapsto> demo_file]"
    by (rule demo_uploaded)
  obtain n where n: "nodes (w_db w1) = [n]" "n_id n = demo_id ''11''" "n_owner n = demo_id ''02''"
    by (rule demo_row [OF v1 f])
  obtain w2 where w2: "vault demo_crypto demo_store w2"
      "nodes (w_db w2) = [n, n\<lparr>n_id := demo_id ''12'', n_name := ''b'', n_mime := ''c''\<rparr>]"
    by (rule another_file [OF v1, of n "demo_id ''12''"]) (simp_all add: n)
  obtain w3 where w3: "vault demo_crypto demo_store w3"
      "nodes (w_db w3) = [n, n\<lparr>n_id := demo_id ''12'', n_name := ''b'', n_mime := ''c''\<rparr>,
         n\<lparr>n_id := demo_id ''13'', n_name := ''b'', n_mime := ''c''\<rparr>]"
    by (rule another_file [OF w2(1), of n "demo_id ''13''"]) (simp_all add: w2(2) n)
  have "node_by_id (n_id n) (w_db w3) = Some n"
    by (rule node_row_unique [OF vault_schema [OF w3(1)]]) (simp add: w3(2))
  with that [OF w3(1)] n(2,3) w3(2) show thesis by (simp add: node_count_def count_where_def)
qed

theorem double_delete_undercounts_witness:
  "\<exists>w n w'. vault demo_crypto (re_store demo_repo) w \<and> node_by_id (demo_id ''11'') (w_db w) = Some n \<and>
     Delete demo_env no_faults demo_repo (\<lambda>w. snd (Delete demo_env no_faults demo_repo idle idle demo_bob (demo_id ''11'') w)) idle
       demo_bob (demo_id ''11'') w = (Inr (), w') \<and> \<not> vault demo_crypto (re_store demo_repo) w'"
proof -
  obtain w n where v: "vault demo_crypto demo_store w" and n: "node_by_id (demo_id ''11'') (w_db w) = Some n"
      "n_owner n = demo_id ''02''" "node_count (n_blob n) (w_db w) = 3"
    by (rule demo_three_files)
  obtain res w' where d: "Delete demo_env no_faults demo_repo
      (\<lambda>w. snd (Delete demo_env no_faults demo_repo idle idle demo_bob (demo_id ''11'') w)) idle demo_bob (demo_id ''11'') w = (res, w')"
    by fastforce
  have f: "view demo_crypto (re_store demo_repo) w (demo_id ''11'') = Some (abs_node demo_crypto demo_store (w_fs w) (w_db w) n)"
    by (simp add: view_def file_map_def n(1))
  have may: "permitted demo_bob (abs_node demo_crypto demo_store (w_fs w) (w_db w) n) ActionDelete"
    by (simp add: permitted_def Can_def abs_node_def n(2) demo_bob_def demo_user_def demo_ids)
  have "res = Inr () \<and> (\<exists>b\<in>set (blobs (w_db w')). b_hash b = n_blob n \<and> b_refs b < int (node_count (n_blob n) (w_db w'))) \<and>
      \<not> vault demo_crypto (re_store demo_repo) w'"
    by (rule double_delete_undercounts [OF demo_quiet _ f may demo_ids(1) n(1) _ _ d])
      (simp_all add: v n(3) max_integer_def)
  with v n(1) d show ?thesis by auto
qed

end
