(* ===== verification/Api_System.thy ===== *)
theory Api_System
  imports Api_Contract Vault_Races
begin

text \<open>
  The whole service as a state machine: a step is one HTTP request, under any clock, any failures and any random
  values. The invariants of the components hold in every reachable state, together.
\<close>

section \<open>What the file operations leave to the authentication service\<close>

text \<open>
  \<open>calm w w'\<close>: accounts, failure counters and sessions are the same and the audit trail was at most extended.
  A \<open>side\<close> predicate depends on nothing else.
\<close>

definition calm :: "world \<Rightarrow> world \<Rightarrow> bool" where
  "calm w w' \<longleftrightarrow> users (w_db w') = users (w_db w) \<and> failures (w_db w') = failures (w_db w) \<and> sessions (w_db w') = sessions (w_db w) \<and> extends w w'"

definition side :: "(world \<Rightarrow> bool) \<Rightarrow> bool" where
  "side Q \<longleftrightarrow> (\<forall>w w'. calm w w' \<longrightarrow> Q w \<longrightarrow> Q w')"

lemma calm_refl [simp]: "calm w w"
  by (simp add: calm_def)

lemma calm_trans [trans]: "calm w w1 \<Longrightarrow> calm w1 w2 \<Longrightarrow> calm w w2"
  using extends_trans by (auto simp: calm_def)

lemma calm_Record [simp]: "calm w (Record env e w)"
  by (simp add: calm_def)

lemma calm_fs [simp]: "calm w (w'\<lparr>w_fs := f\<rparr>) \<longleftrightarrow> calm w w'"
  by (simp add: calm_def extends_def)

lemma calm_log [simp]: "calm w (w'\<lparr>w_log := l\<rparr>) \<longleftrightarrow> calm w w'"
  by (simp add: calm_def extends_def)

lemma calm_db:
  "users d = users (w_db w) \<Longrightarrow> failures d = failures (w_db w) \<Longrightarrow> sessions d = sessions (w_db w) \<Longrightarrow> audit_events d = audit_events (w_db w) \<Longrightarrow>
   calm w (w\<lparr>w_db := d\<rparr>)"
  by (simp add: calm_def extends_same)

lemma calm_Record_after: "calm w w' \<Longrightarrow> calm w (Record env e w')"
  by (rule calm_trans [OF _ calm_Record])

lemma sideD: "side Q \<Longrightarrow> calm w w' \<Longrightarrow> Q w \<Longrightarrow> Q w'"
  by (auto simp: side_def)

text \<open>The tables the file operations do not touch.\<close>

definition quiet_db :: "db \<Rightarrow> db \<Rightarrow> bool" where
  "quiet_db d d' \<longleftrightarrow> users d' = users d \<and> failures d' = failures d \<and> sessions d' = sessions d \<and> audit_events d' = audit_events d"

lemma quiet_db_refl [simp]: "quiet_db d d"
  by (simp add: quiet_db_def)

lemma quiet_db_trans: "quiet_db d d1 \<Longrightarrow> quiet_db d1 d2 \<Longrightarrow> quiet_db d d2"
  by (simp add: quiet_db_def)

lemma quiet_db_statements:
  "insert_blob b d = Inr d' \<Longrightarrow> quiet_db d d'" "insert_node n d = Inr d' \<Longrightarrow> quiet_db d d'"
  "add_refs k h d = Inr d' \<Longrightarrow> quiet_db d d'" "upsert_grant g d = Inr d' \<Longrightarrow> quiet_db d d'"
  "rename_node i nm t d = Inr d' \<Longrightarrow> quiet_db d d'" "delete_blob h d = Inr d' \<Longrightarrow> quiet_db d d'"
  "quiet_db d (delete_node i d)" "quiet_db d (d\<lparr>grants := gs\<rparr>)"
  by (auto simp: quiet_db_def insert_blob_def insert_node_def add_refs_def upsert_grant_def rename_node_def
      delete_blob_def delete_node_def split: if_splits option.splits)

lemma calm_quiet: "quiet_db (w_db w) d \<Longrightarrow> calm w (w\<lparr>w_db := d\<rparr>)"
  by (simp add: quiet_db_def calm_db)

lemma calm_commit:
  assumes "commit_tx env (w_db w) d = (b, d')" and "quiet_db (w_db w) d"
  shows "calm w (w\<lparr>w_db := d'\<rparr>)"
  using commit_tx_db [of env "w_db w" d] assms by (intro calm_quiet) auto

lemma finish_upload_calm:
  assumes "quiet_db (w_db w) d"
  shows "calm w (snd (finish_upload a p name mime st w d))"
proof -
  have "calm w (w\<lparr>w_db := d''\<rparr>)" if "insert_node n d = Inr d'" "commit_tx (at_env a) (w_db w) d' = (b, d'')" for n d' b d''
    using calm_commit [OF that(2)] quiet_db_trans [OF assms quiet_db_statements(2) [OF that(1)]] by blast
  then show ?thesis
    by (auto simp: finish_upload_def exec_Inr Let_def split: sum.split prod.split bool.split)
qed

lemma first_reference_calm: "calm w (snd (snd (first_reference a r p name mime st w)))"
proof -
  have fin: "calm w (snd (finish_upload a p name mime st' (w\<lparr>w_fs := fs\<rparr>) d))" if "insert_blob b (w_db w) = Inr d" for st' fs b d
    using finish_upload_calm [of "w\<lparr>w_fs := fs\<rparr>" d a p name mime st'] quiet_db_statements(1) [OF that]
    by (auto simp: calm_def extends_def)
  show ?thesis
    by (auto simp: first_reference_def exec_Inr Let_def case_prod_unfold dest: fin split: sum.split)
qed

lemma further_reference_calm: "calm w (snd (snd (further_reference a p name mime st w)))"
proof -
  have fin: "calm w (snd (finish_upload a p name mime st' (w\<lparr>w_fs := fs\<rparr>) d))" if "add_refs 1 h (w_db w) = Inr d" for st' fs h d
    using finish_upload_calm [of "w\<lparr>w_fs := fs\<rparr>" d a p name mime st'] quiet_db_statements(3) [OF that]
    by (auto simp: calm_def extends_def)
  show ?thesis
    by (auto simp: further_reference_def exec_Inr Let_def case_prod_unfold dest: fin split: sum.split)
qed

lemma insertUpload_side:
  assumes "side Q" and "Q w" and "\<And>w. Q w \<Longrightarrow> Q (at_rival a w)"
  shows "Q (snd (snd (insertUpload a r p name mime st w)))"
proof -
  have "Q (snd (snd (first_reference a r p name mime st (at_rival a w))))"
    by (rule sideD [OF assms(1) first_reference_calm]) (rule assms(3) [OF assms(2)])
  moreover have "Q (snd (snd (further_reference a p name mime st w)))"
    by (rule sideD [OF assms(1) further_reference_calm assms(2)])
  ultimately show ?thesis
    using assms(2) by (simp add: insertUpload_def split: sum.split option.split)
qed

lemma upload_attempts_side:
  assumes "side Q" and "Q w" and "\<And>k w. Q w \<Longrightarrow> Q (at_rival (att k) w)"
  shows "Q (snd (snd (upload_attempts att r p name mime st w)))"
proof -
  obtain res st1 w1 where first: "insertUpload (att 0) r p name mime st w = (res, st1, w1)" by (metis surjective_pairing)
  have "Q (snd (snd (insertUpload (att 0) r p name mime st w)))" by (rule insertUpload_side [OF assms])
  then have q1: "Q w1" by (simp add: first)
  have "Q (snd (snd (insertUpload (att 1) r p name mime st1 w1)))" by (rule insertUpload_side [OF assms(1) q1 assms(3)])
  with q1 first show ?thesis
    by (auto simp: upload_attempts_def split: sum.split files_error.split pg_error.split)
qed

lemma Upload_side:
  assumes Q: "side Q" and w: "Q w" and rv: "\<And>k w. Q w \<Longrightarrow> Q (at_rival (att k) w)"
  shows "Q (snd (Upload env flt c u detect r rnd att p filename mime body w))"
proof -
  have fs: "Q (x\<lparr>w_fs := f\<rparr>)" if "Q x" for x f using sideD [OF Q _ that] by simp
  have rc: "Q (Record env e x)" if "Q x" for x e using sideD [OF Q calm_Record that] .
  have at: "Q w1" if "upload_attempts att r p name t st (w\<lparr>w_fs := f\<rparr>) = (res, st', w1)" for name t st f res st' w1
  proof -
    have "Q (snd (snd (upload_attempts att r p name t st (w\<lparr>w_fs := f\<rparr>))))" by (rule upload_attempts_side [OF Q fs [OF w] rv])
    then show ?thesis by (simp add: that)
  qed
  show ?thesis
    using w
    by (auto simp: Upload_def Let_def intro!: fs rc dest: at split: sum.split prod.split)
qed

lemma authorize_calm: "authorize env p i act w = (res, w') \<Longrightarrow> calm w w'"
  by (auto simp: authorize_def split: sum.splits files_error.splits if_splits)

lemma Stat_calm: "calm w (snd (Stat env col p i w))"
  by (auto simp: Stat_def dest: authorize_calm split: sum.split prod.split)

lemma Download_calm: "calm w (snd (Download env flt c r p i w))"
  by (auto simp: Download_def Let_def dest: authorize_calm intro!: calm_Record_after split: sum.split prod.split)

lemma List_calm: "snd (List env p w) = w"
  by (simp add: List_def split: sum.split)

lemma Rename_calm: "calm w (snd (Rename env u p i nm w))"
proof -
  have q: "calm w (w1\<lparr>w_db := d\<rparr>)" if "calm w w1" "rename_node i n t (w_db w1) = Inr d" for w1 n t d
    using calm_trans [OF that(1) calm_quiet] quiet_db_statements(5) [OF that(2)] by blast
  show ?thesis
    by (auto simp: Rename_def Let_def exec_Inr dest: authorize_calm q intro!: calm_Record_after split: sum.split prod.split)
qed

lemma Share_calm: "calm w (snd (Share env p i nm role w))"
proof -
  have q: "calm w (w1\<lparr>w_db := d\<rparr>)" if "calm w w1" "upsert_grant g (w_db w1) = Inr d" for w1 g d
    using calm_trans [OF that(1) calm_quiet] quiet_db_statements(4) [OF that(2)] by blast
  show ?thesis
    by (auto simp: Share_def Let_def exec_Inr dest: authorize_calm q intro!: calm_Record_after
        split: sum.split prod.split option.split)
qed

lemma Revoke_calm: "calm w (snd (Revoke env p i nm w))"
proof -
  have q: "calm w (w1\<lparr>w_db := (w_db w1)\<lparr>grants := gs\<rparr>\<rparr>)" if "calm w w1" for w1 gs
    using calm_trans [OF that calm_quiet] quiet_db_statements(8) by blast
  show ?thesis
    by (auto simp: Revoke_def Let_def exec_Inr dest: authorize_calm q intro!: calm_Record_after split: sum.split prod.split)
qed

lemma delete_tx_quiet: "delete_tx env i h d = Inr (refs, d') \<Longrightarrow> quiet_db d d'"
proof -
  assume "delete_tx env i h d = Inr (refs, d')"
  then obtain d2 where d2: "add_refs (- 1) h (delete_node i d) = Inr d2" "d' = d2 \<or> delete_blob h d2 = Inr d'"
    by (auto simp: delete_tx_def exec_Inr split: sum.split_asm option.split_asm if_split_asm)
  have "quiet_db d d2" by (rule quiet_db_trans [OF quiet_db_statements(7) quiet_db_statements(3) [OF d2(1)]])
  then show "quiet_db d d'" using d2(2) quiet_db_trans quiet_db_statements(6) by blast
qed

lemma finish_delete_side:
  assumes Q: "side Q" and w: "Q w" and rv: "\<And>w. Q w \<Longrightarrow> Q (rv w)"
  shows "Q (snd (finish_delete env flt r rv p i h refs w))"
proof -
  have fs: "Q (x\<lparr>w_fs := f\<rparr>)" if "Q x" for x f using sideD [OF Q _ that] by simp
  have rc: "Q (Record env e x)" if "Q x" for x e using sideD [OF Q calm_Record that] .
  show ?thesis
    using w by (auto simp: finish_delete_def Let_def intro!: fs rc rv split: sum.split prod.split)
qed

lemma Delete_side:
  assumes Q: "side Q" and w: "Q w" and rv1: "\<And>w. Q w \<Longrightarrow> Q (rv1 w)" and rv2: "\<And>w. Q w \<Longrightarrow> Q (rv2 w)"
  shows "Q (snd (Delete env flt r rv1 rv2 p i w))"
proof -
  have a: "Q w1" if "authorize env p i ActionDelete w = (res, w1)" for res w1
    using sideD [OF Q authorize_calm [OF that] w] .
  have t: "Q (w2\<lparr>w_db := d'\<rparr>)" if "Q w2" "delete_tx env i h (w_db w2) = Inr (refs, d)" "commit_tx env (w_db w2) d = (b, d')"
    for w2 h refs d b d'
    using sideD [OF Q calm_commit [OF that(3) delete_tx_quiet [OF that(2)]] that(1)] .
  show ?thesis
    by (auto simp: Delete_def Let_def intro!: finish_delete_side [OF Q _ rv2] dest: a t rv1 split: sum.split prod.split bool.split)
qed

section \<open>The invariant of the service\<close>

text \<open>
  What the service keeps: the constraints of the schema, the throttling and session bounds, the consistency
  of metadata and objects, and an audit trail that continues \<open>es\<close>.
\<close>

definition service_inv :: "crypto \<Rightarrow> server \<Rightarrow> audit_row list \<Rightarrow> time \<Rightarrow> world \<Rightarrow> bool" where
  "service_inv c s es t w \<longleftrightarrow> auth_inv (srv_auth s) t w \<and> vault c (re_store (srv_files s)) w \<and>
     (\<exists>more. audit_events (w_db w) = es @ more)"

definition side_inv :: "server \<Rightarrow> audit_row list \<Rightarrow> time \<Rightarrow> world \<Rightarrow> bool" where
  "side_inv s es t w \<longleftrightarrow> throttle_ok t (w_db w) \<and> sessions_bounded (srv_auth s) t (w_db w) \<and>
     (\<exists>more. audit_events (w_db w) = es @ more)"

lemma service_inv_split:
  "service_inv c s es t w \<longleftrightarrow> side_inv s es t w \<and> vault c (re_store (srv_files s)) w"
  using vault_schema by (auto simp: service_inv_def side_inv_def auth_inv_def)

lemma side_side_inv: "side (side_inv s es t)"
proof -
  have "side_inv s es t w'" if "calm w w'" "side_inv s es t w" for w w'
    using that throttle_same [of t "w_db w" "w_db w'"] sessions_bounded_same [of "srv_auth s" t "w_db w" "w_db w'"]
    by (auto simp: side_inv_def calm_def extends_def)
  then show ?thesis by (auto simp: side_def)
qed

lemma side_inv_later: "side_inv s es t w \<Longrightarrow> t \<le> t' \<Longrightarrow> side_inv s es t' w"
  by (auto simp: side_inv_def intro: throttle_later sessions_bounded_later)

text \<open>Operations on accounts and sessions leave the files alone.\<close>

lemma vault_accounts:
  assumes v: "vault c s w" and "schema_ok (w_db w')" "nodes (w_db w') = nodes (w_db w)" "grants (w_db w') = grants (w_db w)"
    "blobs (w_db w') = blobs (w_db w)" "w_fs w' = w_fs w"
  shows "vault c s w'" and "view c s w' = view c s w"
proof -
  show "vault c s w'"
    using meta_ok_core [OF vault_meta [OF v] assms(2-5)] served_cong [OF vault_served [OF v] assms(5)] assms(6)
    by (simp add: vault_def)
  show "view c s w' = view c s w"
    unfolding view_def assms(6) by (rule file_map_core [OF assms(3-5)])
qed

lemma service_inv_accounts:
  assumes "service_inv c s es t w" and "auth_inv (srv_auth s) t w'" and "extends w w'"
    and "nodes (w_db w') = nodes (w_db w)" "grants (w_db w') = grants (w_db w)" "blobs (w_db w') = blobs (w_db w)" "w_fs w' = w_fs w"
  shows "service_inv c s es t w'"
proof -
  have "schema_ok (w_db w')" using assms(2) by (simp add: auth_inv_def)
  with assms show ?thesis
    using vault_accounts(1) [of c "re_store (srv_files s)" w w'] by (auto simp: service_inv_def extends_def)
qed

definition files_same :: "world \<Rightarrow> world \<Rightarrow> bool" where
  "files_same w w' \<longleftrightarrow> nodes (w_db w') = nodes (w_db w) \<and> grants (w_db w') = grants (w_db w) \<and>
     blobs (w_db w') = blobs (w_db w) \<and> w_fs w' = w_fs w \<and> extends w w'"

lemma files_sameI:
  "core (w_db w') = core d \<Longrightarrow> nodes d = nodes (w_db w) \<Longrightarrow> grants d = grants (w_db w) \<Longrightarrow> blobs d = blobs (w_db w) \<Longrightarrow>
   w_fs w' = w_fs w \<Longrightarrow> extends w w' \<Longrightarrow> files_same w w'"
  unfolding files_same_def using core_eqD by metis

lemma files_same_refl [simp]: "files_same w w"
  by (simp add: files_same_def)

lemma files_same_Record: "files_same w w' \<Longrightarrow> files_same w (Record env e w')"
  using extends_trans [OF _ Record_extends] by (auto simp: files_same_def)

lemma files_same_db:
  "nodes d = nodes (w_db w) \<Longrightarrow> grants d = grants (w_db w) \<Longrightarrow> blobs d = blobs (w_db w) \<Longrightarrow>
   audit_events d = audit_events (w_db w) \<Longrightarrow> files_same w (w\<lparr>w_db := d\<rparr>)"
  by (simp add: files_same_def extends_same)

lemma Register_files: "files_same w (snd (Register env c u rnd uuid s nm pw code w))"
proof -
  obtain res w' where x: "Register env c u rnd uuid s nm pw code w = (res, w')" by fastforce
  from x have "files_same w w'"
  proof (cases rule: Register_cases)
    case (refused e)
    then show ?thesis by (auto intro: files_sameI)
  next
    case (created hash reason i d2 d3)
    then show ?thesis
      by (auto intro!: files_sameI [where d = d3] simp: insert_user_def consume_invite_def split: if_splits)
  qed
  with x show ?thesis by simp
qed

lemma Login_files: "files_same w (snd (Login env c rnd dummy s nm pw addr w))"
proof -
  obtain res w' where x: "Login env c rnd dummy s nm pw addr w = (res, w')" by fastforce
  from x have "files_same w w'"
    by (cases rule: Login_cases) (erule files_sameI; simp add: prune_failures_def)+
  with x show ?thesis by simp
qed

lemma ValidateSession_files: "files_same w (snd (ValidateSession env c s token w))"
  using untouched_parts [OF ValidateSession_untouched] by (simp add: files_same_def)

lemma Logout_files: "files_same w (snd (Logout env c token p w))"
proof -
  obtain res w' where x: "Logout env c token p w = (res, w')" by fastforce
  from x have "files_same w w'"
    by (cases rule: Logout_cases) (auto intro!: files_same_Record files_same_db)
  with x show ?thesis by simp
qed

lemma ChangePassword_files: "files_same w (snd (ChangePassword env c rs rt s p cur new w))"
proof -
  obtain res w' where x: "ChangePassword env c rs rt s p cur new w = (res, w')" by fastforce
  from x have "files_same w w'"
  proof (cases rule: ChangePassword_cases)
    case (refused e)
    then show ?thesis by (auto intro: files_sameI)
  qed (auto intro!: files_same_Record files_same_db simp: update_password_def)
  with x show ?thesis by simp
qed

lemma service_inv_files_same:
  "service_inv c s es t w \<Longrightarrow> auth_inv (srv_auth s) t w' \<Longrightarrow> files_same w w' \<Longrightarrow> service_inv c s es t w'"
  by (rule service_inv_accounts) (simp_all add: files_same_def)

lemma service_inv_invites:
  assumes inv: "service_inv c s es t w" and "schema_ok (w_db w')" and "files_same w w'"
    and "failures (w_db w') = failures (w_db w)" "sessions (w_db w') = sessions (w_db w)"
  shows "service_inv c s es t w'"
  using auth_inv_core [of "srv_auth s" t w w'] assms
  by (intro service_inv_files_same [OF inv]) (simp_all add: service_inv_def)

lemma CreateInvite_service_inv:
  assumes inv: "service_inv c s es t w"
  shows "service_inv c s es t (snd (CreateInvite env c' rnd uuid adm note ttl w))"
proof -
  have sch: "schema_ok (w_db w)" using inv by (simp add: service_inv_def auth_inv_def)
  obtain res w' where x: "CreateInvite env c' rnd uuid adm note ttl w = (res, w')" by fastforce
  have "service_inv c s es t w'"
  proof (cases res)
    case (Inl e)
    then have "w' = w" using x by (auto simp: CreateInvite_def Let_def split: option.split_asm if_split_asm sum.split_asm)
    with inv show ?thesis by simp
  next
    case (Inr y)
    obtain code v where "y = (code, v)" by fastforce
    with x Inr have created: "CreateInvite env c' rnd uuid adm note ttl w = (Inr (code, v), w')" by simp
    show ?thesis
    proof (rule CreateInvite_Inr [OF created])
      fix p raw d
      assume d: "insert_invite \<lparr>i_id = uuid, i_code_hash = HashToken c' code, i_note = trim_space note, i_by = u_ID p,
          i_created = en_now env, i_expires = iv_ExpiresAt v, i_used_by = None, i_used_at = None, i_revoked_at = None\<rparr> (w_db w) = Inr d"
        and w': "w' = Record env (service_event (u_ID p) (u_Username p) ''invite.create'' uuid ResultOK []) (w\<lparr>w_db := d\<rparr>)"
      have same: "nodes d = nodes (w_db w)" "grants d = grants (w_db w)" "blobs d = blobs (w_db w)" "failures d = failures (w_db w)"
          "sessions d = sessions (w_db w)" "audit_events d = audit_events (w_db w)"
        using d by (auto simp: insert_invite_def split: if_split_asm)
      show ?thesis
        by (rule service_inv_invites [OF inv]) (simp_all add: w' same files_same_Record files_same_db schema_insert_invite [OF sch d])
    qed
  qed
  with x show ?thesis by simp
qed

lemma RevokeInvite_service_inv:
  assumes inv: "service_inv c s es t w"
  shows "service_inv c s es t (snd (RevokeInvite env adm i w))"
proof -
  have sch: "schema_ok (w_db w)" using inv by (simp add: service_inv_def auth_inv_def)
  have step: "service_inv c s es t (w\<lparr>w_db := revoke_invite_row i t' (w_db w)\<rparr>)" for t'
    using schema_revoke_invite_row [OF sch]
    by (intro service_inv_invites [OF inv]) (auto intro: files_same_db simp: revoke_invite_row_def)
  have rec: "service_inv c s es t (Record env e x)" if "service_inv c s es t x" for e x
    using that auth_inv_core [of "srv_auth s" t x "Record env e x"]
    by (intro service_inv_files_same [OF that]) (auto intro: files_same_Record simp: service_inv_def auth_inv_def)
  show ?thesis
    using inv rec [OF step] step by (simp add: RevokeInvite_def exec_def split: option.split)
qed

text \<open>The file operations: what they do to the files is known, and they are calm.\<close>

lemma service_inv_files:
  assumes "service_inv c s es t w" and "vault c (re_store (srv_files s)) w'" and "side_inv s es t w'"
  shows "service_inv c s es t w'"
  using assms(2,3) by (simp add: service_inv_split)

lemma service_inv_calm:
  assumes "service_inv c s es t w" and "vault c (re_store (srv_files s)) w'" and "calm w w'"
  shows "service_inv c s es t w'"
  using assms sideD [OF side_side_inv assms(3)] by (auto simp: service_inv_split)

lemma Stat_service_inv:
  assumes inv: "service_inv c s es t w"
  shows "service_inv c s es t (snd (Stat env col p i w))"
proof -
  let ?s = "re_store (srv_files s)"
  have v: "vault c ?s w" using inv by (simp add: service_inv_def)
  have "vault c ?s (snd (Stat env col p i w))"
    using authorize_frame [OF v] v by (auto simp: Stat_def split: prod.split sum.split)
  from service_inv_calm [OF inv this Stat_calm] show ?thesis .
qed

lemma Download_service_inv:
  assumes inv: "service_inv c s es t w"
  shows "service_inv c s es t (snd (Download env flt c' r p i w))"
proof -
  let ?s = "re_store (srv_files s)"
  have v: "vault c ?s w" using inv by (simp add: service_inv_def)
  have "vault c ?s (snd (Download env flt c' r p i w))"
    using authorize_frame [OF v] by (auto simp: Download_def Let_def split: prod.split sum.split)
  from service_inv_calm [OF inv this Download_calm] show ?thesis .
qed

lemma Rename_service_inv:
  assumes inv: "service_inv c s es t w"
  shows "service_inv c s es t (snd (Rename env u p i nm w))"
proof -
  have v: "vault c (re_store (srv_files s)) w" using inv by (simp add: service_inv_def)
  from service_inv_calm [OF inv _ Rename_calm] Rename_step [OF v surjective_pairing] show ?thesis by blast
qed

lemma Share_service_inv:
  assumes inv: "service_inv c s es t w"
  shows "service_inv c s es t (snd (Share env p i nm role w))"
proof -
  have v: "vault c (re_store (srv_files s)) w" using inv by (simp add: service_inv_def)
  from service_inv_calm [OF inv _ Share_calm] Share_step [OF v surjective_pairing] show ?thesis by blast
qed

lemma Revoke_service_inv:
  assumes inv: "service_inv c s es t w"
  shows "service_inv c s es t (snd (Revoke env p i nm w))"
proof -
  have v: "vault c (re_store (srv_files s)) w" using inv by (simp add: service_inv_def)
  from service_inv_calm [OF inv _ Revoke_calm] Revoke_step [OF v surjective_pairing] show ?thesis by blast
qed

text \<open>
  What other sessions do inside the windows of an operation: they keep what the service keeps.
\<close>

definition peaceful :: "crypto \<Rightarrow> server \<Rightarrow> time \<Rightarrow> rival \<Rightarrow> bool" where
  "peaceful c s t rv \<longleftrightarrow> tame c (re_store (srv_files s)) rv \<and> (\<forall>es w. side_inv s es t w \<longrightarrow> side_inv s es t (rv w))"

lemma peaceful_idle [simp]: "peaceful c s t idle"
  by (simp add: peaceful_def) (simp add: idle_def)

lemma Upload_service_inv:
  assumes ok: "crypto_ok c" and lim: "sint (re_maxBytes (srv_files s)) < 2 ^ 63 - 1"
    and rv: "\<forall>k. peaceful c s t (at_rival (att k))" and cf: "collision_free c (rd_data body)"
    and inv: "service_inv c s es t w"
  shows "service_inv c s es t (snd (Upload env flt c u detect (srv_files s) rnd att p nm mime body w))"
proof (rule service_inv_files [OF inv])
  have v: "vault c (re_store (srv_files s)) w" using inv by (simp add: service_inv_def)
  have tm: "\<forall>k. tame c (re_store (srv_files s)) (at_rival (att k))" using rv by (simp add: peaceful_def)
  show "vault c (re_store (srv_files s)) (snd (Upload env flt c u detect (srv_files s) rnd att p nm mime body w))"
    using Upload_step [OF ok v tm cf lim surjective_pairing] by blast
  show "side_inv s es t (snd (Upload env flt c u detect (srv_files s) rnd att p nm mime body w))"
    by (rule Upload_side [OF side_side_inv]) (use inv rv in \<open>auto simp: service_inv_split peaceful_def\<close>)
qed

lemma Delete_service_inv:
  assumes rv: "peaceful c s t rv" "no_republish rv" and inv: "service_inv c s es t w"
  shows "service_inv c s es t (snd (Delete env flt (srv_files s) idle rv p i w))"
proof (rule service_inv_files [OF inv])
  have v: "vault c (re_store (srv_files s)) w" using inv by (simp add: service_inv_def)
  have tm: "tame c (re_store (srv_files s)) rv" using rv by (simp add: peaceful_def)
  show "vault c (re_store (srv_files s)) (snd (Delete env flt (srv_files s) idle rv p i w))"
    using Delete_step [OF v tm rv(2) surjective_pairing] by blast
  show "side_inv s es t (snd (Delete env flt (srv_files s) idle rv p i w))"
    by (rule Delete_side [OF side_side_inv]) (use inv rv in \<open>auto simp: service_inv_split peaceful_def idle_def\<close>)
qed

lemma service_inv_auth:
  assumes "service_inv c s es t w" and "auth_inv (srv_auth s) t w \<Longrightarrow> auth_inv (srv_auth s) t w'" and "files_same w w'"
  shows "service_inv c s es t w'"
  by (rule service_inv_files_same [OF assms(1) _ assms(3)]) (use assms(1,2) in \<open>simp add: service_inv_def\<close>)

section \<open>Every request keeps the invariant\<close>

lemma auth_inv_Record: "auth_inv s t w \<Longrightarrow> auth_inv s t (Record env e w)"
  by (rule auth_inv_core) (simp_all add: auth_inv_def)

text \<open>The conditions a request is served under: no assumption on clocks, failures, random values or the request.\<close>

definition steady :: "crypto \<Rightarrow> server \<Rightarrow> ambience \<Rightarrow> bool" where
  "steady c s am \<longleftrightarrow> crypto_ok c \<and> am_crypto am = c \<and> sint (re_maxBytes (srv_files s)) < 2 ^ 63 - 1 \<and>
     (\<forall>k. peaceful c s (en_now (am_env am)) (at_rival (am_attempts am k))) \<and> am_rival1 am = idle \<and>
     peaceful c s (en_now (am_env am)) (am_rival2 am) \<and> no_republish (am_rival2 am)"

lemma service_contract_inv:
  assumes st: "steady c s am"
  shows "service_contract s am (collision_free c) (service_inv c s es (en_now (am_env am)))"
proof -
  let ?t = "en_now (am_env am)" and ?a = "srv_auth s" and ?I = "service_inv c s es (en_now (am_env am))"
  have c: "am_crypto am = c" and r1: "am_rival1 am = idle" using st by (simp_all add: steady_def)
  have log: "?I w \<Longrightarrow> ?I (w\<lparr>w_log := l\<rparr>)" for w l
    by (rule service_inv_calm) (auto simp: service_inv_def vault_def)
  show ?thesis
  proof (unfold_locales, unfold c r1)
    fix w l e tok nm pw code addr p cur new adm nt ttl i mime role
    assume inv: "?I w"
    show "?I (w\<lparr>w_log := l\<rparr>)" by (rule log [OF inv])
    show "?I (Record (am_env am) e w)"
      by (rule service_inv_auth [OF inv auth_inv_Record]) (simp_all add: files_same_Record)
    show "?I (snd (ValidateSession (am_env am) c ?a tok w))"
      by (rule service_inv_auth [OF inv ValidateSession_inv ValidateSession_files])
    show "?I (snd (Register (am_env am) c (am_unicode am) (am_salt am) (am_uuid am) ?a nm pw code w))"
      by (rule service_inv_auth [OF inv Register_inv Register_files])
    show "?I (snd (Login (am_env am) c (am_token am) (am_dummyHash am) ?a nm pw addr w))"
      by (rule service_inv_auth [OF inv Login_inv Login_files])
    show "?I (snd (Logout (am_env am) c tok p w))"
      by (rule service_inv_auth [OF inv Logout_inv Logout_files])
    show "?I (snd (ChangePassword (am_env am) c (am_salt am) (am_token am) ?a p cur new w))"
      by (rule service_inv_auth [OF inv ChangePassword_inv ChangePassword_files])
    show "?I (snd (CreateInvite (am_env am) c (am_invite am) (am_uuid am) adm nt ttl w))"
      by (rule CreateInvite_service_inv [OF inv])
    show "?I (snd (RevokeInvite (am_env am) adm i w))" by (rule RevokeInvite_service_inv [OF inv])
    show "?I (snd (Upload (am_env am) (am_flt am) c (am_unicode am) (am_detect am) (srv_files s) (am_stage am)
        (am_attempts am) p nm mime body w))" if "collision_free c (rd_data body)" for body
      by (rule Upload_service_inv [OF _ _ _ that inv]) (use st in \<open>simp_all add: steady_def\<close>)
    show "?I (snd (Stat (am_env am) (am_collate am) p i w))" by (rule Stat_service_inv [OF inv])
    show "?I (snd (Download (am_env am) (am_flt am) c (srv_files s) p i w))" by (rule Download_service_inv [OF inv])
    show "?I (snd (Rename (am_env am) (am_unicode am) p i nm w))" by (rule Rename_service_inv [OF inv])
    show "?I (snd (Delete (am_env am) (am_flt am) (srv_files s) idle (am_rival2 am) p i w))"
      by (rule Delete_service_inv [OF _ _ inv]) (use st in \<open>simp_all add: steady_def\<close>)
    show "?I (snd (Share (am_env am) p i nm role w))" by (rule Share_service_inv [OF inv])
    show "?I (snd (Revoke (am_env am) p i nm w))" by (rule Revoke_service_inv [OF inv])
  qed
qed

text \<open>A state is the time of the last request and the world; requests are served one after another.\<close>

inductive serves :: "crypto \<Rightarrow> server \<Rightarrow> time \<times> world \<Rightarrow> time \<times> world \<Rightarrow> bool" for c s where
  request: "steady c s am \<Longrightarrow> admissible (collision_free c) r \<Longrightarrow> t \<le> en_now (am_env am) \<Longrightarrow>
     Handler s am r w = (out, w') \<Longrightarrow> serves c s (t, w) (en_now (am_env am), w')"

inductive_cases servesE: "serves c s (t, w) (t', w')"

inductive reachable :: "crypto \<Rightarrow> server \<Rightarrow> time \<times> world \<Rightarrow> time \<times> world \<Rightarrow> bool" for c s x where
  start: "reachable c s x x"
| step: "reachable c s x y \<Longrightarrow> serves c s y z \<Longrightarrow> reachable c s x z"

lemma serves_inv:
  assumes "serves c s (t, w) (t', w')" and "service_inv c s es t w"
  shows "service_inv c s es t' w'"
proof -
  obtain am r out where st: "steady c s am" "admissible (collision_free c) r" "t \<le> t'" "t' = en_now (am_env am)"
      and h: "Handler s am r w = (out, w')"
    using assms(1) by (auto elim: servesE)
  have "service_inv c s es t' w" using assms(2) st(3) auth_inv_later by (auto simp: service_inv_def)
  from keepsD [OF service_contract.keeps_Handler [OF service_contract_inv [OF st(1)]] st(2) this [unfolded st(4)]] h st(4)
  show ?thesis by simp
qed

text \<open>
  C1 The state of the whole service: whatever requests arrive and in whatever order, under any clock that
  does not run backwards, any failing calls, any random values and any peaceful activity of other sessions in the
  windows of the operations, the constraints of the schema, the bounds on failures and sessions, and the
  consistency of metadata and objects (every file's content is stored, decryptable and counted) stay true, and
  the audit trail is only ever extended.
\<close>

theorem service_invariant:
  assumes "reachable c s (t, w) (t', w')" and "auth_inv (srv_auth s) t w" and "vault c (re_store (srv_files s)) w"
  shows "auth_inv (srv_auth s) t' w' \<and> vault c (re_store (srv_files s)) w' \<and>
    (\<exists>more. audit_events (w_db w') = audit_events (w_db w) @ more)"
proof -
  have "service_inv c s (audit_events (w_db w)) (fst y) (snd y)" if "reachable c s (t, w) y" for y
    using that
  proof (induction rule: reachable.induct)
    case start
    with assms(2,3) show ?case by (simp add: service_inv_def)
  next
    case (step y z)
    then show ?case using serves_inv [of c s "fst y" "snd y" "fst z" "snd z"] by simp
  qed
  from this [OF assms(1)] show ?thesis by (simp add: service_inv_def)
qed

text \<open>A concrete service, on which somebody registers over HTTP.\<close>

definition demo_site :: server where
  "demo_site = demo_server\<lparr>srv_auth := demo_service ''open''\<rparr>"

definition demo_signup :: request where
  "demo_signup = (demo_get ''POST'' [''api'', ''auth'', ''register''] [])\<lparr>rq_Json := \<lparr>jb_first = Some (JObject
     [(''username'', JString ''carol''), (''password'', JString ''correct horse'')]), jb_next = None\<rparr>\<rparr>"

definition demo_signup_ambience :: ambience where
  "demo_signup_ambience = demo_ambience\<lparr>am_uuid := demo_id ''07''\<rparr>"

lemma demo_steady: "steady demo_crypto demo_site demo_signup_ambience"
proof -
  have "(\<lambda>w. w) = idle" by (simp add: idle_def fun_eq_iff)
  then show ?thesis
    by (simp add: steady_def demo_crypto_ok demo_signup_ambience_def demo_ambience_def demo_site_def demo_server_def
        NewServer_def NewRepo_def)
qed

lemma demo_signed_up:
  obtains resp w' where "Handler demo_site demo_signup_ambience demo_signup demo_start = (Reply resp, w')" "rs_Status resp = 201"
proof -
  obtain p w1 where reg: "demo_Register ''open'' [] demo_start = (Inr p, w1)"
    by (rule demo_registers_open [of demo_start]) (simp_all add: demo_start_def)
  let ?r = "(tagged demo_signup_ambience demo_signup)\<lparr>rq_PathValue := path_values []\<rparr>"
  have json: "decodeJSON registerRequest ?r =
      Some ((zero_fields registerRequest)(''username'' := JString ''carol'', ''password'' := JString ''correct horse''))"
    by (simp add: decodeJSON_def json_decode_def json_more_def registerRequest_def credentialsRequest_def find_field_def demo_signup_def)
  have "handleRegister demo_site demo_signup_ambience ?r demo_start = (Reply (writeJSON 201 (userResponse p)), w1)"
    using reg unfolding handleRegister_def json
    by (simp add: demo_Register_def demo_site_def demo_signup_ambience_def demo_ambience_def zero_fields_def registerRequest_def
        credentialsRequest_def reply_def)
  then have "mux demo_site demo_signup_ambience (tagged demo_signup_ambience demo_signup) demo_start =
      (Reply (writeJSON 201 (userResponse p)), w1)"
    by (simp add: mux_def routes_def public_routes_def method_matches_def demo_signup_def)
  from that [OF Handler_reply [OF this]] show thesis by (simp add: writeJSON_def)
qed

theorem service_invariant_witness:
  "\<exists>resp w'. Handler demo_site demo_signup_ambience demo_signup demo_start = (Reply resp, w') \<and> rs_Status resp = 201 \<and>
     vault demo_crypto demo_store w' \<and> auth_inv (demo_service ''open'') (en_now demo_env) w'"
proof -
  obtain resp w' where h: "Handler demo_site demo_signup_ambience demo_signup demo_start = (Reply resp, w')" "rs_Status resp = 201"
    by (rule demo_signed_up)
  have env: "am_env demo_signup_ambience = demo_env" by (simp add: demo_signup_ambience_def demo_ambience_def)
  have "admissible (collision_free demo_crypto) demo_signup" by (simp add: admissible_def demo_signup_def demo_get_def)
  from serves.request [OF demo_steady this _ h(1), of "en_now demo_env"]
  have reach: "reachable demo_crypto demo_site (en_now demo_env, demo_start) (en_now demo_env, w')"
    using reachable.start reachable.step by (metis env order_refl)
  have site: "srv_auth demo_site = demo_service ''open''" "re_store (srv_files demo_site) = demo_store"
    by (simp_all add: demo_site_def demo_server_def NewServer_def NewRepo_def)
  have "failures demo_db = []" "sessions demo_db = []" by (simp_all add: demo_db_def empty_db_def)
  then have "auth_inv (srv_auth demo_site) (en_now demo_env) demo_start"
    by (simp add: auth_inv_def demo_start_def demo_schema_ok throttle_ok_def sessions_bounded_def recent_failures_def
        throttle_defs table_simps)
  from service_invariant [OF reach this] demo_start_vault h show ?thesis by (simp add: site)
qed

section \<open>Accounts only grow\<close>

text \<open>What an account is, apart from its password.\<close>

definition account_core :: "user_row \<Rightarrow> user_row" where
  "account_core x = x\<lparr>ur_hash := [], ur_changed := 0\<rparr>"

text \<open>The accounts of the table are those of \<open>base\<close>, followed by ordinary ones.\<close>

definition accounts_from :: "user_row list \<Rightarrow> world \<Rightarrow> bool" where
  "accounts_from base w \<longleftrightarrow> (\<exists>more. map account_core (users (w_db w)) = base @ more \<and> (\<forall>x\<in>set more. ur_role x = roleUser))"

lemma accounts_from_same: "accounts_from base w \<Longrightarrow> map account_core (users (w_db w')) = map account_core (users (w_db w)) \<Longrightarrow> accounts_from base w'"
  by (simp add: accounts_from_def)

lemma accounts_from_users: "accounts_from base w \<Longrightarrow> users (w_db w') = users (w_db w) \<Longrightarrow> accounts_from base w'"
  by (simp add: accounts_from_def)

lemma accounts_update_password: "map account_core (users (update_password uid h t d)) = map account_core (users d)"
  unfolding update_password_def by (simp, rule map_update_where) (simp add: account_core_def)

lemma Register_accounts:
  assumes "accounts_from base w"
  shows "accounts_from base (snd (Register env c u rnd uuid s nm pw code w))"
proof -
  obtain res w' where x: "Register env c u rnd uuid s nm pw code w = (res, w')" by fastforce
  from x have "accounts_from base w'"
  proof (cases rule: Register_cases)
    case (refused e)
    then show ?thesis using core_eqD(1) accounts_from_users [OF assms] by blast
  next
    case (created hash reason i d2 d3)
    have "users (w_db w') = users (w_db w) @ [new_user env uuid nm hash]"
      using core_eqD(1) [OF created(7)] created(5,6) by (auto simp: insert_user_def consume_invite_def split: if_split_asm)
    with assms show ?thesis
      by (force simp: accounts_from_def account_core_def new_user_def)
  qed
  with x show ?thesis by simp
qed

lemma side_accounts: "side (accounts_from base)"
  by (auto simp: side_def calm_def intro: accounts_from_users)

lemma auth_accounts:
  assumes acc: "accounts_from base w"
  shows "accounts_from base (snd (ValidateSession env c s tok w))"
    and "accounts_from base (snd (Login env c rnd dummy s nm pw addr w))"
    and "accounts_from base (snd (Logout env c tok p w))"
    and "accounts_from base (snd (ChangePassword env c rs rt s p cur new w))"
proof -
  show "accounts_from base (snd (ValidateSession env c s tok w))"
    by (rule accounts_from_users [OF acc]) (rule untouched_parts(1) [OF ValidateSession_untouched])
  obtain res w1 where l: "Login env c rnd dummy s nm pw addr w = (res, w1)" by fastforce
  from l have "users (w_db w1) = users (w_db w)"
    by (cases rule: Login_cases) (drule core_eqD(1); simp add: prune_failures_def)+
  with l accounts_from_users [OF acc] show "accounts_from base (snd (Login env c rnd dummy s nm pw addr w))" by simp
  show "accounts_from base (snd (Logout env c tok p w))"
    by (rule accounts_from_users [OF acc]) (simp add: Logout_def exec_def)
  obtain res' w2 where ch: "ChangePassword env c rs rt s p cur new w = (res', w2)" by fastforce
  from ch have "map account_core (users (w_db w2)) = map account_core (users (w_db w))"
    by (cases rule: ChangePassword_cases) (auto simp: accounts_update_password dest: core_eqD(1))
  with ch accounts_from_same [OF acc] show "accounts_from base (snd (ChangePassword env c rs rt s p cur new w))" by simp
qed

lemma invite_accounts:
  assumes acc: "accounts_from base w"
  shows "accounts_from base (snd (CreateInvite env c rnd uuid adm nt ttl w))"
    and "accounts_from base (snd (RevokeInvite env adm i w))"
proof -
  have "users (w_db (snd (CreateInvite env c rnd uuid adm nt ttl w))) = users (w_db w)"
    by (auto simp: CreateInvite_def Let_def exec_Inr insert_invite_def split: option.split sum.split if_split_asm)
  then show "accounts_from base (snd (CreateInvite env c rnd uuid adm nt ttl w))" by (rule accounts_from_users [OF acc])
  have "users (w_db (snd (RevokeInvite env adm i w))) = users (w_db w)"
    by (auto simp: RevokeInvite_def exec_def revoke_invite_row_def split: option.split)
  then show "accounts_from base (snd (RevokeInvite env adm i w))" by (rule accounts_from_users [OF acc])
qed

text \<open>The service on its own: nobody else acts inside the windows of an operation.\<close>

definition alone :: "ambience \<Rightarrow> ambience" where
  "alone am = am\<lparr>am_rival1 := idle, am_rival2 := idle, am_attempts := (\<lambda>k. (am_attempts am k)\<lparr>at_rival := idle\<rparr>)\<rparr>"

lemma alone_simps [simp]:
  "am_env (alone am) = am_env am" "am_rival1 (alone am) = idle" "am_rival2 (alone am) = idle"
  "at_rival (am_attempts (alone am) k) = idle"
  by (simp_all add: alone_def)

interpretation accounts: service_contract s "alone am" "\<lambda>_. True" "accounts_from base" for s am base
proof (unfold_locales, unfold alone_simps)
  fix w l e tok nm pw code addr p cur new adm nt ttl i mime role body
  assume acc: "accounts_from base w"
  note calm = sideD [OF side_accounts _ acc]
  show "accounts_from base (w\<lparr>w_log := l\<rparr>)" by (rule calm) simp
  show "accounts_from base (Record (am_env am) e w)" by (rule calm) simp
  show "accounts_from base (snd (Stat (am_env am) (am_collate (alone am)) p i w))" by (rule calm [OF Stat_calm])
  show "accounts_from base (snd (Download (am_env am) (am_flt (alone am)) (am_crypto (alone am)) (srv_files s) p i w))"
    by (rule calm [OF Download_calm])
  show "accounts_from base (snd (Rename (am_env am) (am_unicode (alone am)) p i nm w))" by (rule calm [OF Rename_calm])
  show "accounts_from base (snd (Share (am_env am) p i nm role w))" by (rule calm [OF Share_calm])
  show "accounts_from base (snd (Revoke (am_env am) p i nm w))" by (rule calm [OF Revoke_calm])
  show "accounts_from base (snd (Upload (am_env am) (am_flt (alone am)) (am_crypto (alone am)) (am_unicode (alone am))
      (am_detect (alone am)) (srv_files s) (am_stage (alone am)) (am_attempts (alone am)) p nm mime body w))"
    by (rule Upload_side [OF side_accounts acc]) (simp add: idle_def)
  show "accounts_from base (snd (Delete (am_env am) (am_flt (alone am)) (srv_files s) idle idle p i w))"
    by (rule Delete_side [OF side_accounts acc]) (simp_all add: idle_def)
qed (rule Register_accounts auth_accounts invite_accounts; assumption)+

text \<open>
  C17 No request makes an administrator: whatever a client sends, to whatever route and under whatever
  session, failures and random values, every account keeps its identifier, name, role and date of creation, none
  disappears, and those that are added have the ordinary role.
\<close>

theorem no_request_promotes:
  "\<exists>more. map account_core (users (w_db (snd (Handler s (alone am) r w)))) = map account_core (users (w_db w)) @ more \<and>
     ur_role ` set more \<subseteq> {''user''}"
proof -
  have "accounts_from (map account_core (users (w_db w))) w" by (simp add: accounts_from_def)
  from keepsD [OF accounts.keeps_Handler admissible_any this, of s am r] show ?thesis
    by (simp add: accounts_from_def roleUser_def image_subset_iff)
qed

end
