(* ===== verification/Api_Paging.thy ===== *)
theory Api_Paging
  imports "HOL-Library.Multiset" Api_Guards
begin

text \<open>
  Reviewing the audit trail page by page: a client that follows \<^verbatim>\<open>nextBefore\<close> through
  \<^verbatim>\<open>handleAdminAudit\<close> while new events keep arriving.
\<close>

section \<open>Numbers in queries\<close>

lemma digits_value_append: "digits_value (xs @ [c]) = 10 * digits_value xs + (of_char c - 48)"
  by (simp add: digits_value_def)

lemma digits_value_decimal: "digits_value (decimal n) = n"
proof (induction n rule: decimal.induct)
  case (1 n)
  show ?case
  proof (cases "n < 10")
    case True
    then show ?thesis by (simp add: decimal.simps [of n] digits_value_def)
  next
    case False
    have "n mod 10 < 10" by simp
    with 1 False show ?thesis by (simp add: decimal.simps [of n] digits_value_append)
  qed
qed

lemma parse_decimal:
  assumes "n < 2 ^ 63"
  shows "parse_int64 (decimal n) = Some (int n)"
proof -
  have digits: "list_all is_digit (decimal n)" by (rule decimal_digits)
  obtain c r where c: "decimal n = c # r" using decimal_nonempty [of n] by (cases "decimal n") auto
  have "c \<noteq> CHR ''-''" "c \<noteq> CHR ''+''" using digits by (auto simp: c is_digit_def)
  with assms digits digits_value_decimal [of n] c show ?thesis
    by (simp add: parse_int64_def)
qed

section \<open>One page\<close>

text \<open>The events below a cursor, newest first; the cursor 0 stands for the beginning.\<close>

definition older :: "nat \<Rightarrow> audit_row list \<Rightarrow> audit_row list" where
  "older b t = rev (filter (\<lambda>e. b = 0 \<or> a_id e < b) t)"

lemma sort_newest_first:
  assumes "sorted_wrt (<) (map a_id t)"
  shows "sort_key (\<lambda>e. - int (a_id e)) t = rev t"
proof (rule sort_key_inj_key_eq)
  have "distinct (map a_id t)" using assms strict_sorted_iff by blast
  then show "inj_on (\<lambda>e. - int (a_id e)) (set t)" by (auto simp: inj_on_def distinct_map)
  show "sorted (map (\<lambda>e. - int (a_id e)) (rev t))"
    using assms by (simp add: rev_map [symmetric] sorted_wrt_rev sorted_wrt_map) (auto elim: sorted_wrt_mono_rel [rotated])
qed simp

lemma sorted_filter_ids: "sorted_wrt (<) (map a_id t) \<Longrightarrow> sorted_wrt (<) (map a_id (filter P t))"
  by (simp add: sorted_wrt_map sorted_wrt_filter)

lemma select_older:
  assumes "sorted_wrt (<) (map a_id t)"
  shows "select_audit (int b) n t = take n (older b t)"
  unfolding select_audit_def older_def select_where_def
  using sort_newest_first [OF sorted_filter_ids [OF assms]] by simp

lemma page_of:
  "audit_page l (take (Suc l) xs) =
     (if length xs > l then (take l xs, Some (a_id (last (take l xs)))) else (xs, None))"
  by (simp add: audit_page_def min_def)

section \<open>Following the cursor\<close>

definition audit_request :: "nat \<Rightarrow> string \<Rightarrow> request" where
  "audit_request limit cursor = \<lparr>rq_Method = ''GET'', rq_Path = ''/api/admin/audit'', rq_Segments = [''api'', ''admin'', ''audit''],
     rq_PathValue = (\<lambda>_. []), rq_Cookies = [], rq_Header = (\<lambda>_. []),
     rq_Query = (\<lambda>_. [])(''limit'' := decimal limit, ''before'' := cursor), rq_RemoteAddr = [],
     rq_Json = \<lparr>jb_first = None, jb_next = None\<rparr>, rq_Multipart = None, rq_User = None, rq_RequestID = []\<rparr>"

text \<open>The events of a page and the cursor of the next, when there is one.\<close>

fun read_page :: "outcome \<Rightarrow> (json list \<times> string option) option" where
  "read_page (Reply resp) = (case rs_Body resp of
     BodyJson (JObject [(_, JArray es), (_, JNumber i)]) \<Rightarrow> Some (es, Some i)
   | BodyJson (JObject [(_, JArray es), (_, JNull)]) \<Rightarrow> Some (es, None)
   | _ \<Rightarrow> None)"
| "read_page (Panic _) = None"

text \<open>The \<open>k\<close>-th request meets the ambience \<open>ams k\<close> and the world \<open>ws k\<close>; the loop need not end.\<close>

partial_function (option) crawl ::
  "(nat \<Rightarrow> ambience) \<Rightarrow> (nat \<Rightarrow> world) \<Rightarrow> nat \<Rightarrow> nat \<Rightarrow> string \<Rightarrow> json list option" where
  "crawl ams ws limit k cursor =
     (case read_page (fst (handleAdminAudit (ams k) (audit_request limit cursor) (ws k))) of
        None \<Rightarrow> None
      | Some (es, None) \<Rightarrow> Some es
      | Some (es, Some i) \<Rightarrow>
          Option.bind (crawl ams ws limit (Suc k) i) (\<lambda>rest. Some (es @ rest)))"

text \<open>Audit trails that only grow, with the identifiers a \<^verbatim>\<open>bigint\<close> sequence makes.\<close>

definition growing :: "(nat \<Rightarrow> world) \<Rightarrow> bool" where
  "growing ws \<longleftrightarrow> (\<forall>k. schema_ok (w_db (ws k)) \<and> extends (ws k) (ws (Suc k)) \<and>
     (\<forall>e\<in>set (audit_events (w_db (ws k))). 0 < a_id e \<and> a_id e < 2 ^ 63))"

definition undisturbed :: "ambience \<Rightarrow> bool" where
  "undisturbed am \<longleftrightarrow> \<not> en_fail (am_env am) CallListAudit \<and> am_rows am = None"

definition cursor_of :: "nat \<Rightarrow> string" where
  "cursor_of b = (if b = 0 then [] else decimal b)"

lemma growing_sorted: "growing ws \<Longrightarrow> sorted_wrt (<) (map a_id (audit_events (w_db (ws k))))"
  using schema_parts(7) by (auto simp: growing_def audit_ok_def)

lemma page_reply:
  assumes g: "growing ws" and u: "undisturbed (ams k)" and l: "1 \<le> limit" "limit \<le> 1000" and b: "b < 2 ^ 63"
  shows "read_page (fst (handleAdminAudit (ams k) (audit_request limit (cursor_of b)) (ws k))) =
    (let R = older b (audit_events (w_db (ws k))) in
     if length R > limit then Some (map event_json (take limit R), Some (decimal (a_id (R ! (limit - 1)))))
     else Some (map event_json R, None))"
proof -
  let ?t = "audit_events (w_db (ws k))"
  have lim: "query_number 1 (Some 1000) (decimal limit) 50 = Some (int limit)"
    using l by (simp add: query_number_def parse_decimal)
  have before: "query_number 1 None (cursor_of b) 0 = Some (int b)"
    using b by (simp add: query_number_def parse_decimal cursor_of_def)
  have n: "nat (int limit + 1) = Suc limit" "nat (int limit) = limit" by simp_all
  have "last (take limit R) = R ! (limit - 1)" if "length R > limit" for R :: "audit_row list"
    using that l(1) by (cases "take limit R = []") (auto simp: last_conv_nth min_def)
  with u show ?thesis
    by (simp add: handleAdminAudit_def audit_request_def lim before n undisturbed_def delivered_def exec_def
        select_older [OF growing_sorted [OF g]] page_of reply_def writeJSON_def Let_def)
qed

lemma older_next:
  assumes g: "growing ws" and l: "1 \<le> limit"
    and long: "length (older b (audit_events (w_db (ws k)))) > limit" (is "length ?R > limit")
  shows "older (a_id (?R ! (limit - 1))) (audit_events (w_db (ws (Suc k)))) = drop limit ?R"
    and "0 < a_id (?R ! (limit - 1))" and "a_id (?R ! (limit - 1)) < 2 ^ 63"
proof -
  let ?t = "audit_events (w_db (ws k))" and ?c = "a_id (?R ! (limit - 1))"
  have mem: "?R ! (limit - 1) \<in> set ?R" using l long by (intro nth_mem) simp
  then have t: "?R ! (limit - 1) \<in> set ?t" and below: "b = 0 \<or> ?c < b" by (auto simp: older_def)
  show pos: "0 < ?c" and "?c < 2 ^ 63" using g t by (auto simp: growing_def)
  obtain more where more: "audit_events (w_db (ws (Suc k))) = ?t @ more" using g by (auto simp: growing_def extends_def)
  have "sorted_wrt (<) (map a_id (?t @ more))" using growing_sorted [OF g, of "Suc k"] by (simp add: more)
  then have new: "\<forall>e\<in>set more. \<not> a_id e < ?c" using t by (fastforce simp: sorted_wrt_append)
  have "older ?c (audit_events (w_db (ws (Suc k)))) = rev (filter (\<lambda>e. a_id e < ?c) ?t)"
    using pos new by (simp add: older_def more)
  also have "\<dots> = filter (\<lambda>e. - int ?c < - int (a_id e)) ?R"
    using below by (auto simp: older_def rev_filter intro!: filter_cong)
  also have "\<dots> = drop (Suc (limit - 1)) ?R"
  proof (rule filter_after)
    have "sorted_wrt (<) (map a_id (filter (\<lambda>e. b = 0 \<or> a_id e < b) ?t))" by (rule sorted_filter_ids [OF growing_sorted [OF g]])
    then show "sorted_wrt (<) (map (\<lambda>e. - int (a_id e)) ?R)"
      by (simp add: older_def sorted_wrt_map sorted_wrt_rev)
  qed (use l long in simp)
  finally show "older ?c (audit_events (w_db (ws (Suc k)))) = drop limit ?R" using l by simp
qed

lemma crawl_older:
  assumes g: "growing ws" and u: "\<forall>k. undisturbed (ams k)" and l: "1 \<le> limit" "limit \<le> 1000" and "b < 2 ^ 63"
  shows "crawl ams ws limit k (cursor_of b) = Some (map event_json (older b (audit_events (w_db (ws k)))))"
  using assms(5)
proof (induction "length (older b (audit_events (w_db (ws k))))" arbitrary: b k rule: less_induct)
  case less
  let ?R = "older b (audit_events (w_db (ws k)))"
  note page = page_reply [where ams = ams and ws = ws and k = k, OF g u [rule_format, of k] l less.prems]
  show ?case
  proof (cases "length ?R > limit")
    case False
    then show ?thesis by (subst crawl.simps) (simp add: page Let_def)
  next
    case True
    let ?c = "a_id (?R ! (limit - 1))"
    note c = older_next [OF g l(1) True]
    have "length (older ?c (audit_events (w_db (ws (Suc k))))) < length ?R" using c(1) True l(1) by simp
    from less.hyps [OF this c(3)] have "crawl ams ws limit (Suc k) (decimal ?c) = Some (map event_json (drop limit ?R))"
      using c(1,2) by (simp add: cursor_of_def)
    with True show ?thesis
      by (subst crawl.simps) (simp add: page Let_def flip: map_append)
  qed
qed

text \<open>
  C20 Reviewing the audit trail ends and is complete: a client that reads pages of any permitted size and
  follows \<^verbatim>\<open>nextBefore\<close> until it is null gets, after finitely many requests, every event that was recorded
  when it began, each exactly once, newest first, no matter how many events are recorded between its requests.
\<close>

theorem audit_review_is_complete:
  assumes "growing ws" and "\<forall>k. undisturbed (ams k)" and "1 \<le> limit" and "limit \<le> 1000"
  shows "crawl ams ws limit 0 [] = Some (map event_json (rev (audit_events (w_db (ws 0)))))"
  using crawl_older [OF assms, of 0 0] by (simp add: cursor_of_def older_def)

text \<open>A trail of three events, and a fourth that arrives after the first page was read.\<close>

definition demo_row :: "nat \<Rightarrow> audit_row" where
  "demo_row i = (audit_row_of 0 (service_event [] ''bob'' ''auth.login'' ''bob'' ResultOK []))\<lparr>a_id := i\<rparr>"

definition demo_trail :: "nat \<Rightarrow> world" where
  "demo_trail k = demo_world\<lparr>w_db := empty_db\<lparr>audit_events := map demo_row (if k = 0 then [1, 2, 3] else [1, 2, 3, 4]),
     audit_seq := 4\<rparr>\<rparr>"

theorem audit_review_is_complete_witness:
  "crawl (\<lambda>_. demo_ambience) demo_trail 2 0 [] = Some (map (\<lambda>i. event_json (demo_row i)) [3, 2, 1]) \<and>
     length (audit_events (w_db (demo_trail 1))) = 4"
proof -
  have ids: "a_id (demo_row i) = i" for i by (simp add: demo_row_def)
  have "schema_ok (w_db (demo_trail k))" for k
    by (simp add: schema_defs demo_trail_def empty_db_def ids)
  moreover have "extends (demo_trail k) (demo_trail (Suc k))" for k
    by (simp add: extends_def demo_trail_def)
  moreover have "\<forall>e\<in>set (audit_events (w_db (demo_trail k))). 0 < a_id e \<and> a_id e < 2 ^ 63" for k
    by (simp add: demo_trail_def ids)
  ultimately have "growing demo_trail" by (simp add: growing_def)
  moreover have "\<forall>k::nat. undisturbed demo_ambience" by (simp add: undisturbed_def demo_ambience_def demo_env_def)
  ultimately have "crawl (\<lambda>_. demo_ambience) demo_trail 2 0 [] = Some (map event_json (rev (audit_events (w_db (demo_trail 0)))))"
    by (intro audit_review_is_complete) simp_all
  then show ?thesis by (simp add: demo_trail_def)
qed

text \<open>
  A broken query looks like the end of the trail: when the connection fails after \<open>m\<close> rows of a
  page, the reply is an ordinary page of the \<open>m\<close> newest events with no older page, however many events there
  are; the client has no way to tell.
\<close>

theorem broken_audit_query_is_silent:
  assumes "schema_ok (w_db w)" and "\<not> en_fail (am_env am) CallListAudit" and "am_rows am = Some m"
    and "m \<le> limit" and "1 \<le> limit" and "limit \<le> 1000"
  shows "read_page (fst (handleAdminAudit am (audit_request limit []) w)) =
    Some (map event_json (take m (rev (audit_events (w_db w)))), None)"
proof -
  let ?t = "audit_events (w_db w)"
  have sorted: "sorted_wrt (<) (map a_id ?t)" using schema_parts(7) [OF assms(1)] by (simp add: audit_ok_def)
  have lim: "query_number 1 (Some 1000) (decimal limit) 50 = Some (int limit)"
    using assms(5,6) by (simp add: query_number_def parse_decimal)
  have before: "query_number 1 None [] 0 = Some 0" by (simp add: query_number_def)
  have n: "nat (int limit + 1) = Suc limit" "nat (int limit) = limit" by simp_all
  have rows: "take m (select_audit 0 (Suc limit) ?t) = take m (rev ?t)"
    using select_older [OF sorted, of 0 "Suc limit"] assms(4) by (simp add: older_def min_def)
  have page: "audit_page limit (take m (rev ?t)) = (take m (rev ?t), None)"
    using assms(4) by (simp add: audit_page_def)
  show ?thesis
    using assms(2,3)
    by (simp add: handleAdminAudit_def audit_request_def lim before n delivered_def exec_def rows page reply_def writeJSON_def)
qed

theorem broken_audit_query_is_silent_witness:
  "read_page (fst (handleAdminAudit (demo_ambience\<lparr>am_rows := Some 1\<rparr>) (audit_request 50 []) (demo_trail 0))) =
     Some ([event_json (demo_row 3)], None)"
proof -
  have "schema_ok (w_db (demo_trail 0))" by (simp add: schema_defs demo_trail_def empty_db_def demo_row_def)
  from broken_audit_query_is_silent [OF this, of "demo_ambience\<lparr>am_rows := Some 1\<rparr>" 1 50] show ?thesis
    by (simp add: demo_ambience_def demo_env_def demo_trail_def)
qed

end
