(* ===== verification/Api_Flows.thy ===== *)
theory Api_Flows
  imports Api_Properties Api_System Api_Paging
begin

text \<open>
  Requests that belong together, and single requests with an effect: signing in and using the session, uploads
  beyond the limit, the lifetime of an invite.
\<close>

section \<open>Signing in\<close>

text \<open>The two cookies of a session.\<close>

definition session_cookies :: "server \<Rightarrow> string \<Rightarrow> string \<Rightarrow> cookie list" where
  "session_cookies s token csrf =
     [\<lparr>ck_Name = ''sv_session'', ck_Value = token, ck_Path = ''/'', ck_HttpOnly = True, ck_Secure = (\<not> srv_devMode s),
       ck_SameSiteStrict = True, ck_MaxAge = 14400\<rparr>,
      \<lparr>ck_Name = ''sv_csrf'', ck_Value = csrf, ck_Path = ''/'', ck_HttpOnly = False, ck_Secure = (\<not> srv_devMode s),
       ck_SameSiteStrict = True, ck_MaxAge = 14400\<rparr>]"

lemma login_reply:
  assumes "handleLogin s am r w = (Reply resp, w1)" and "rs_Status resp = 200"
  obtains m token p where "decodeJSON credentialsRequest r = Some m"
    "Login (am_env am) (am_crypto am) (am_token am) (am_dummyHash am) (srv_auth s)
       (json_string (m ''username'')) (json_string (m ''password'')) (clientAddr r) w = (Inr (token, p), w1)"
    "\<exists>csrf. rs_Cookies resp = session_cookies s token csrf" "rs_Body resp = BodyJson (userResponse p)"
proof -
  have bad: "rs_Status resp' \<noteq> 200" if "reply_error am e w' = (Reply resp', w'')" for e w' resp' w''
    using that by (auto simp: reply_error_def writeServiceError_def internal_error_def
        split: prod.split_asm service_error.split_asm auth_error.split_asm files_error.split_asm if_split_asm)
  obtain m where m: "decodeJSON credentialsRequest r = Some m"
    using assms by (cases "decodeJSON credentialsRequest r") (auto simp: handleLogin_def reply_def malformed_body_def)
  obtain res w2 where l: "Login (am_env am) (am_crypto am) (am_token am) (am_dummyHash am) (srv_auth s)
      (json_string (m ''username'')) (json_string (m ''password'')) (clientAddr r) w = (res, w2)" by fastforce
  obtain token p where res: "res = Inr (token, p)"
    using assms m l bad by (cases res) (auto simp: handleLogin_def)
  have "reply_with_session s am token (writeJSON 200 (userResponse p)) w2 = (Reply resp, w1)"
    using assms(1) by (simp add: handleLogin_def m l res)
  then have "w1 = w2" "\<exists>csrf. rs_Cookies resp = session_cookies s token csrf" "rs_Body resp = BodyJson (userResponse p)"
    using assms(2)
    by (auto simp: reply_with_session_def setSessionCookies_def session_cookies_def writeServiceError_def internal_error_def
        reply_def Let_def cookie_name_defs cookieMaxAge_def writeJSON_def split: option.split_asm)
  with that m l res show thesis by blast
qed

text \<open>
  C11 Signing in: a login that is answered with 200 sets the two session cookies, the token out of reach of
  scripts, both bound to the site, encrypted connections (outside development) and the absolute lifetime of a
  session; a request that presents this token later is served as the account of the login exactly while neither
  the absolute nor the inactivity limit has run out, and is told to authenticate otherwise.
\<close>

theorem login_opens_a_session:
  assumes "schema_ok (w_db w)" and "handleLogin s am r w = (Reply resp, w1)" and "rs_Status resp = 200"
    and "map_of (rq_Cookies r') sessionCookie = Some (ck_Value (hd (rs_Cookies resp)))"
    and "am_crypto am' = am_crypto am" and "\<not> en_fail (am_env am') CallTouchSession"
  shows "(\<exists>token csrf. rs_Cookies resp = session_cookies s token csrf) \<and>
    (\<exists>resp'. fst (requireAuth s am' handleMe r' w1) = Reply resp' \<and>
       (if en_now (am_env am') < en_now (am_env am) + sv_absolute (srv_auth s) \<and>
           en_now (am_env am') < en_now (am_env am) + sv_idle (srv_auth s)
        then rs_Status resp' = 200 \<and> rs_Body resp' = rs_Body resp
        else resp' = writeError 401 ''authentication required''))"
proof (rule login_reply [OF assms(2,3)])
  fix m token p
  assume l: "Login (am_env am) (am_crypto am) (am_token am) (am_dummyHash am) (srv_auth s)
       (json_string (m ''username'')) (json_string (m ''password'')) (clientAddr r) w = (Inr (token, p), w1)"
    and cks: "\<exists>csrf. rs_Cookies resp = session_cookies s token csrf" and body: "rs_Body resp = BodyJson (userResponse p)"
  have tk: "map_of (rq_Cookies r') sessionCookie = Some token" using assms(4) cks by (auto simp: session_cookies_def)
  obtain res w2 where v: "ValidateSession (am_env am') (am_crypto am) (srv_auth s) token w1 = (res, w2)" by fastforce
  with login_window [OF assms(1) l assms(6)] tk cks body assms(5) show ?thesis
    by (auto simp: requireAuth_def handleMe_def reply_def writeJSON_def)
qed

definition demo_signin :: request where
  "demo_signin = (demo_get ''POST'' [''api'', ''auth'', ''login''] [])\<lparr>rq_Json := \<lparr>jb_first = Some (JObject
     [(''username'', JString ''bob''), (''password'', JString ''correct horse'')]), jb_next = None\<rparr>\<rparr>"

lemma demo_signs_in:
  obtains h resp w1 token csrf where "handleLogin demo_server demo_ambience demo_signin (demo_account h) = (Reply resp, w1)"
    "rs_Status resp = 200" "rs_Cookies resp = session_cookies demo_server token csrf"
proof -
  obtain h token p w1 where l: "demo_Login ''correct horse'' ''10.0.0.7'' (demo_account h) = (Inr (token, p), w1)"
    by (rule demo_login)
  have json: "decodeJSON credentialsRequest demo_signin =
      Some ((zero_fields credentialsRequest)(''username'' := JString ''bob'', ''password'' := JString ''correct horse''))"
    by (simp add: decodeJSON_def json_decode_def json_more_def credentialsRequest_def find_field_def demo_signin_def)
  have addr: "clientAddr demo_signin = ''10.0.0.7''" by code_simp
  have "handleLogin demo_server demo_ambience demo_signin (demo_account h) =
      reply_with_session demo_server demo_ambience token (writeJSON 200 (userResponse p)) w1"
    using l unfolding handleLogin_def json
    by (simp add: demo_Login_def addr demo_ambience_def demo_server_def NewServer_def)
  moreover have "\<exists>resp csrf. reply_with_session demo_server demo_ambience token (writeJSON 200 (userResponse p)) w1 = (Reply resp, w1) \<and>
      rs_Status resp = 200 \<and> rs_Cookies resp = session_cookies demo_server token csrf"
    by (simp add: reply_with_session_def setSessionCookies_def session_cookies_def rand_read_def demo_ambience_def reply_def Let_def
        cookie_name_defs cookieMaxAge_def)
  ultimately show thesis using that by metis
qed

theorem login_opens_a_session_witness:
  "\<exists>h resp w1 resp'. handleLogin demo_server demo_ambience demo_signin (demo_account h) = (Reply resp, w1) \<and>
     fst (requireAuth demo_server demo_ambience handleMe (demo_get ''GET'' [''api'', ''auth'', ''me'']
       [(''sv_session'', ck_Value (hd (rs_Cookies resp)))]) w1) = Reply resp' \<and> rs_Status resp' = 200"
proof -
  obtain h resp w1 token csrf where l: "handleLogin demo_server demo_ambience demo_signin (demo_account h) = (Reply resp, w1)"
    "rs_Status resp = 200" "rs_Cookies resp = session_cookies demo_server token csrf" by (rule demo_signs_in)
  have srv: "sv_absolute (srv_auth demo_server) = 4 * hour" "sv_idle (srv_auth demo_server) = 30 * minute"
    by (simp_all add: demo_server_def NewServer_def NewService_def sessionAbsoluteTTL_def sessionIdleTTL_def)
  have ok: "\<not> en_fail (am_env demo_ambience) CallTouchSession" by (simp add: demo_ambience_def demo_env_def)
  show ?thesis
    using login_opens_a_session [OF demo_account_ok l(1,2) _ refl ok, of "demo_get ''GET'' [''api'', ''auth'', ''me'']
       [(''sv_session'', ck_Value (hd (rs_Cookies resp)))]"] l(1)
    by (auto simp: srv sessionCookie_def)
qed

section \<open>Uploads beyond the limit\<close>

lemma Upload_cut_off:
  assumes "sint (re_maxBytes rp) < 2 ^ 63 - 1"
    and "sint (re_maxBytes rp) < int (length (rd_data body)) \<or> rd_err body \<noteq> None"
  shows "\<exists>e w'. Upload env flt c u detect rp rnd att p nm mime body w = (Inl e, w') \<and> core (w_db w') = core (w_db w) \<and> w_fs w' = w_fs w"
proof (cases "read_full 512 body")
  case (Inl e)
  then show ?thesis by (simp add: Upload_def Let_def)
next
  case (Inr hr)
  obtain head rest where hr: "hr = (head, rest)" by fastforce
  have whole: "multi_reader head rest = body" using Inr hr by (intro read_full_reassembled) simp
  have "\<exists>e. Stage c (re_store rp) rnd flt body (re_maxBytes rp) (w_fs w) = (Inl e, w_fs w)"
    using assms(2) by (auto simp: Stage_def read_all_limited_def sint_succ [OF assms(1)] Let_def split: option.split)
  with Inr hr whole show ?thesis
    by (cases "ValidateContent u detect mime head") (auto simp: Upload_def Let_def)
qed

lemma error_status: "\<exists>resp w'. reply_error am e w = (Reply resp, w') \<and> 400 \<le> rs_Status resp \<and> w_db w' = w_db w \<and> w_fs w' = w_fs w"
  by (auto simp: reply_error_def writeServiceError_def internal_error_def
      split: service_error.split auth_error.split files_error.split)

lemma oversized_parts:
  assumes lim: "sint (re_maxBytes (srv_files s)) < 2 ^ 63 - 1"
    and "\<forall>pt\<in>set pts. pt_FormName pt = ''file'' \<longrightarrow> sint (re_maxBytes (srv_files s)) < int (length (pt_content pt))"
  shows "\<exists>resp w'. upload_parts s am p fin stop left pts w = (Reply resp, w') \<and> 400 \<le> rs_Status resp \<and>
    core (w_db w') = core (w_db w) \<and> w_fs w' = w_fs w"
  using assms(2)
proof (induction pts arbitrary: left)
  case Nil
  then show ?case by (simp add: reply_def part_error_def)
next
  case (Cons pt pts)
  show ?case
  proof (cases "left < pt_head pt \<or> pt_FormName pt \<noteq> ''file''")
    case True
    with Cons show ?thesis by (auto simp: reply_def part_error_def Let_def)
  next
    case False
    define rd where "rd = (if left - pt_head pt < length (pt_content pt) + pt_close pt
        then \<lparr>rd_data = take (left - pt_head pt) (pt_content pt), rd_err = Some stop\<rparr> else \<lparr>rd_data = pt_content pt, rd_err = None\<rparr>)"
    have "sint (re_maxBytes (srv_files s)) < int (length (rd_data rd)) \<or> rd_err rd \<noteq> None"
      using Cons.prems False by (simp add: rd_def)
    from Upload_cut_off [OF lim this] obtain e w' where
      "Upload (am_env am) (am_flt am) (am_crypto am) (am_unicode am) (am_detect am) (srv_files s) (am_stage am)
         (am_attempts am) p (pt_FileName pt) (pt_ContentType pt) rd w = (Inl e, w')" "core (w_db w') = core (w_db w)" "w_fs w' = w_fs w"
      by blast
    with False error_status [of am "FilesError (if e = FErrReceive MaxBytesError then FErrTooLarge else e)" w'] show ?thesis
      by (auto simp: Let_def rd_def [symmetric])
  qed
qed

text \<open>
  C25 Nothing beyond the limit is ever stored: an upload all of whose file parts exceed the limit of the
  repository is answered with an error, however the body is framed, wherever the connection breaks and whatever the
  cap on the request is, and leaves every table but the audit trail, and every file on disk, exactly as it was.
\<close>

theorem oversized_upload_is_refused:
  assumes "sint (re_maxBytes (srv_files s)) < 2 ^ 63 - 1" and "rq_Multipart r = Some b" and "rq_User r = Some p"
    and "\<forall>pt\<in>set (up_parts b). pt_FormName pt = ''file'' \<longrightarrow> sint (re_maxBytes (srv_files s)) < int (length (pt_content pt))"
  shows "\<exists>resp w'. handleUpload s am r w = (Reply resp, w') \<and> 400 \<le> rs_Status resp \<and>
    core (w_db w') = core (w_db w) \<and> w_fs w' = w_fs w"
  using oversized_parts [OF assms(1,4)] assms(2,3) by (auto simp: handleUpload_def split: prod.split)

definition demo_big :: request where
  "demo_big = (demo_get ''POST'' [''api'', ''files''] demo_cookies)\<lparr>rq_User := Some \<lparr>u_ID = demo_id ''02'', u_Username = ''bob'', u_Role = ''user''\<rparr>,
     rq_Multipart := Some \<lparr>up_parts = [\<lparr>pt_FormName = ''file'', pt_FileName = ''a.txt'', pt_ContentType = ''text/plain'', pt_head = 90,
        pt_content = replicate 101 65, pt_close = 40\<rparr>], up_end = 44, up_break = None\<rparr>\<rparr>"

theorem oversized_upload_is_refused_witness:
  "\<exists>resp w'. handleUpload demo_server demo_ambience demo_big demo_session = (Reply resp, w') \<and> 400 \<le> rs_Status resp \<and>
     w_fs w' = w_fs demo_session"
proof -
  obtain b p where "rq_Multipart demo_big = Some b" "rq_User demo_big = Some p"
      "\<forall>pt\<in>set (up_parts b). length (pt_content pt) = 101" by (simp add: demo_big_def)
  moreover have "sint (re_maxBytes (srv_files demo_server)) = 100" by (simp add: demo_server_def NewServer_def NewRepo_def)
  ultimately show ?thesis
    using oversized_upload_is_refused [of demo_server demo_big b p demo_ambience demo_session] by auto
qed

section \<open>The lifetime of an invite\<close>







end
