(* ===== verification/Config.thy ===== *)
theory Config
  imports Registration
begin

text \<open>
  Configuration from the environment, \<^verbatim>\<open>internal/config/config.go\<close>. The environment is a function from names
  to values; an unset variable has the empty value, as \<^verbatim>\<open>os.Getenv\<close> reports it.
\<close>

definition MasterKeySize :: nat where "MasterKeySize = 32"
definition defaultListenAddr :: string where "defaultListenAddr = ''127.0.0.1:8080''"
definition defaultDataDir :: string where "defaultDataDir = ''./data''"
definition defaultMaxUploadBytes :: int64 where "defaultMaxUploadBytes = push_bit 20 25"

record config =
  cfg_ListenAddr :: string
  cfg_DatabaseURL :: string
  cfg_DataDir :: string
  cfg_MasterKey :: bytes
  cfg_MaxUploadBytes :: int64
  cfg_Dev :: bool
  cfg_RegistrationMode :: string
  cfg_MaxUsers :: int64

datatype config_error =
    DatabaseURLRequired
  | MasterKeyRequired
  | MasterKeyNotHex
  | MasterKeyLength nat
  | MaxUploadBytesInvalid
  | RegistrationModeInvalid
  | MaxUsersInvalid

definition registrationModes :: "string list" where
  "registrationModes = [''open'', ''invite'', ''closed'']"

type_synonym environment = "string \<Rightarrow> string"

definition envOr :: "environment \<Rightarrow> string \<Rightarrow> string \<Rightarrow> string" where
  "envOr getenv key fallback = (if getenv key \<noteq> [] then getenv key else fallback)"

text \<open>A numeric setting: the default when unset, refused when it is no number or below \<open>lo\<close>.\<close>

definition env_number :: "environment \<Rightarrow> string \<Rightarrow> int \<Rightarrow> int64 \<Rightarrow> int64 option" where
  "env_number getenv key lo dflt =
     (let v = getenv key in
      if v = [] then Some dflt
      else case parse_int64 v of None \<Rightarrow> None | Some n \<Rightarrow> if n < lo then None else Some (word_of_int n))"

definition Load :: "unicode \<Rightarrow> environment \<Rightarrow> config_error + config" where
  "Load u getenv =
     (let url = getenv ''DATABASE_URL''; keyHex = getenv ''SECUREVAULT_MASTER_KEY'' in
      if url = [] then Inl DatabaseURLRequired
      else if keyHex = [] then Inl MasterKeyRequired
      else case hex_decode keyHex of
        None \<Rightarrow> Inl MasterKeyNotHex
      | Some key \<Rightarrow>
      if length key \<noteq> MasterKeySize then Inl (MasterKeyLength (length key)) else
      case env_number getenv ''MAX_UPLOAD_BYTES'' 1 defaultMaxUploadBytes of
        None \<Rightarrow> Inl MaxUploadBytesInvalid
      | Some maxUpload \<Rightarrow>
      let mode = to_lower u (envOr getenv ''REGISTRATION_MODE'' ''open'') in
      if mode \<notin> set registrationModes then Inl RegistrationModeInvalid else
      case env_number getenv ''MAX_USERS'' 0 0 of
        None \<Rightarrow> Inl MaxUsersInvalid
      | Some maxUsers \<Rightarrow>
          Inr \<lparr>cfg_ListenAddr = envOr getenv ''LISTEN_ADDR'' defaultListenAddr, cfg_DatabaseURL = url,
               cfg_DataDir = envOr getenv ''DATA_DIR'' defaultDataDir, cfg_MasterKey = key,
               cfg_MaxUploadBytes = maxUpload, cfg_Dev = (envOr getenv ''ENV'' ''dev'' = ''dev''),
               cfg_RegistrationMode = mode, cfg_MaxUsers = maxUsers\<rparr>)"

section \<open>What an accepted configuration is\<close>

definition config_ok :: "config \<Rightarrow> bool" where
  "config_ok cfg \<longleftrightarrow> cfg_DatabaseURL cfg \<noteq> [] \<and> length (cfg_MasterKey cfg) = MasterKeySize \<and>
     0 < sint (cfg_MaxUploadBytes cfg) \<and> cfg_RegistrationMode cfg \<in> set registrationModes \<and>
     0 \<le> sint (cfg_MaxUsers cfg) \<and> cfg_ListenAddr cfg \<noteq> [] \<and> cfg_DataDir cfg \<noteq> []"

lemma sint_parsed: "parse_int64 v = Some n \<Longrightarrow> sint (word_of_int n :: int64) = n"
  using parse_int64_range [of v n] by (simp add: sint_sbintrunc' signed_take_bit_int_eq_self)

lemma env_number_Some:
  "env_number getenv key lo dflt = Some w \<Longrightarrow> lo \<le> sint dflt \<Longrightarrow> lo \<le> sint w"
  by (auto simp: env_number_def Let_def sint_parsed split: if_split_asm option.split_asm)

lemma mode_parses:
  assumes "m \<in> set registrationModes"
  shows "ParseRegistrationMode u m = Some m"
proof -
  have "ascii m" using assms by (auto simp: registrationModes_def ascii_def)
  moreover have "trim_list (\<lambda>c. is_space (of_char c)) m = m"
    using assms by (auto simp: registrationModes_def trim_list_def is_space_def)
  moreover have "map (\<lambda>c. char_of (lower_rune u (of_char c))) m = m"
    using assms by (auto simp: registrationModes_def lower_rune_def char_of_def bit_Suc_0_iff)
  ultimately show ?thesis
    using assms by (auto simp: ParseRegistrationMode_def trim_space_ascii to_lower_ascii mode_defs registrationModes_def)
qed

lemma hex_lower_digit: "c \<in> set hex_alphabet \<Longrightarrow> hex_lower c = c"
  by (auto simp: hex_alphabet_def hex_lower_def)

lemma hex_roundtrip: "hex_decode (hex_encode bs) = Some bs"
proof -
  have "map hex_lower (hex_encode bs) = hex_encode bs"
    using set_hex_encode [of bs] by (intro map_idI hex_lower_digit) auto
  then have "hex_decode (hex_encode bs) = radix_decode 4 hex_alphabet (radix_encode 4 hex_alphabet bs)"
    by (simp add: hex_decode_def length_hex_encode) (simp add: hex_encode_def)
  also have "\<dots> = Some bs" by (rule radix_roundtrip) (simp_all add: hex_alphabet_def)
  finally show ?thesis .
qed

text \<open>The configuration of an environment that only names the database and a key.\<close>

definition default_config :: "string \<Rightarrow> bytes \<Rightarrow> config" where
  "default_config url key =
     \<lparr>cfg_ListenAddr = defaultListenAddr, cfg_DatabaseURL = url, cfg_DataDir = defaultDataDir, cfg_MasterKey = key,
      cfg_MaxUploadBytes = defaultMaxUploadBytes, cfg_Dev = True, cfg_RegistrationMode = ''open'', cfg_MaxUsers = 0\<rparr>"

definition bare_environment :: "string \<Rightarrow> string \<Rightarrow> environment" where
  "bare_environment url keyHex = (\<lambda>_. [])(''DATABASE_URL'' := url, ''SECUREVAULT_MASTER_KEY'' := keyHex)"

lemma Load_Inr:
  assumes "Load u getenv = Inr cfg"
  shows "config_ok cfg" and "hex_decode (getenv ''SECUREVAULT_MASTER_KEY'') = Some (cfg_MasterKey cfg)"
    and "ParseRegistrationMode u (cfg_RegistrationMode cfg) = Some (cfg_RegistrationMode cfg)"
proof -
  have dflt: "1 \<le> sint defaultMaxUploadBytes" "0 \<le> sint (0 :: int64)" by (simp_all add: defaultMaxUploadBytes_def)
  show "hex_decode (getenv ''SECUREVAULT_MASTER_KEY'') = Some (cfg_MasterKey cfg)"
    using assms by (auto simp: Load_def Let_def split: if_split_asm option.split_asm)
  obtain mu us where num: "env_number getenv ''MAX_UPLOAD_BYTES'' 1 defaultMaxUploadBytes = Some mu"
      "env_number getenv ''MAX_USERS'' 0 0 = Some us" "cfg_MaxUploadBytes cfg = mu" "cfg_MaxUsers cfg = us"
    and rest: "cfg_DatabaseURL cfg \<noteq> []" "length (cfg_MasterKey cfg) = MasterKeySize" "cfg_ListenAddr cfg \<noteq> []" "cfg_DataDir cfg \<noteq> []"
      "cfg_RegistrationMode cfg \<in> set registrationModes"
    using assms
    by (auto simp: Load_def Let_def envOr_def defaultListenAddr_def defaultDataDir_def split: if_split_asm option.split_asm)
  show ok: "config_ok cfg"
    using env_number_Some [OF num(1) dflt(1)] env_number_Some [OF num(2) dflt(2)] num(3,4) rest
    by (simp add: config_ok_def)
  then show "ParseRegistrationMode u (cfg_RegistrationMode cfg) = Some (cfg_RegistrationMode cfg)"
    by (simp add: config_ok_def mode_parses)
qed

text \<open>
  The configuration fails closed: whatever the environment holds, what is accepted has a master key of
  32 bytes, the one the variable spells in hexadecimal, a positive upload limit, a cap on accounts that is not
  negative, and a registration mode that the service knows by the same name; and an environment that only
  names a database and spells \<open>k\<close> as \<^verbatim>\<open>hex.EncodeToString\<close> does is accepted, with \<open>k\<close>
  and the defaults, exactly when \<open>k\<close> has 32 bytes.
\<close>

theorem configuration_fails_closed:
  "(case Load u getenv of
      Inl _ \<Rightarrow> True
    | Inr cfg \<Rightarrow> config_ok cfg \<and> hex_decode (getenv ''SECUREVAULT_MASTER_KEY'') = Some (cfg_MasterKey cfg) \<and>
        ParseRegistrationMode u (cfg_RegistrationMode cfg) = Some (cfg_RegistrationMode cfg)) \<and>
   Load u (bare_environment url (hex_encode k)) =
     (if url = [] then Inl DatabaseURLRequired
      else if k = [] then Inl MasterKeyRequired
      else if length k \<noteq> 32 then Inl (MasterKeyLength (length k))
      else Inr (default_config url k))"
proof -
  have nil: "hex_encode k = [] \<longleftrightarrow> k = []" using length_hex_encode [of k] by (metis length_0_conv mult_eq_0_iff zero_neq_numeral)
  have mode: "to_lower u ''open'' = ''open''"
    using mode_parses [of "''open''" u]
    by (subst to_lower_ascii) (simp_all add: ascii_def lower_rune_def char_of_def bit_Suc_0_iff)
  have "Load u (bare_environment url (hex_encode k)) =
     (if url = [] then Inl DatabaseURLRequired
      else if k = [] then Inl MasterKeyRequired
      else if length k \<noteq> 32 then Inl (MasterKeyLength (length k))
      else Inr (default_config url k))"
    using mode
    by (simp add: Load_def bare_environment_def nil hex_roundtrip env_number_def envOr_def MasterKeySize_def
        registrationModes_def default_config_def Let_def)
  with Load_Inr [of u getenv] show ?thesis by (simp split: sum.split)
qed

end
