(* ===== verification/Migrations.thy ===== *)
theory Migrations
  imports "HOL-Library.Multiset" Go_Encoding Audit_Log
begin

text \<open>
  The migration runner, \<^verbatim>\<open>internal/database/database.go\<close>: reading the embedded files, and applying what is
  pending, one transaction per migration. What a SQL script does to the tables is a parameter: it either changes
  them or fails, inside the transaction it is run in.
\<close>

section \<open>Embedded migrations\<close>

record migration =
  mg_version :: int
  mg_name :: string
  mg_sql :: string

datatype load_error =
    DirUnreadable
  | NoUnderscore string
  | BadVersion string
  | DuplicateVersion int string string
  | FileUnreadable string

text \<open>The directory: names in order, with the content where reading the file succeeds.\<close>

type_synonym migration_files = "(string \<times> string option) list"

definition version_prefix :: "string \<Rightarrow> string option" where
  "version_prefix name = (if CHR ''_'' \<in> set name then Some (takeWhile (\<lambda>c. c \<noteq> CHR ''_'') name) else None)"

fun load_loop :: "migration_files \<Rightarrow> (int \<rightharpoonup> string) \<Rightarrow> migration list \<Rightarrow> load_error + migration list" where
  "load_loop [] seen out = Inr out"
| "load_loop ((name, body) # rest) seen out =
     (case version_prefix name of
        None \<Rightarrow> Inl (NoUnderscore name)
      | Some num \<Rightarrow>
      case parse_int64 num of
        None \<Rightarrow> Inl (BadVersion name)
      | Some v \<Rightarrow>
      if v \<le> 0 then Inl (BadVersion name) else
      case seen v of
        Some prev \<Rightarrow> Inl (DuplicateVersion v prev name)
      | None \<Rightarrow>
      case body of
        None \<Rightarrow> Inl (FileUnreadable name)
      | Some sql \<Rightarrow> load_loop rest (seen(v \<mapsto> name)) (out @ [\<lparr>mg_version = v, mg_name = name, mg_sql = sql\<rparr>]))"

definition loadMigrations :: "migration_files option \<Rightarrow> load_error + migration list" where
  "loadMigrations dir =
     (case dir of
        None \<Rightarrow> Inl DirUnreadable
      | Some entries \<Rightarrow>
      case load_loop entries Map.empty [] of
        Inl e \<Rightarrow> Inl e
      | Inr out \<Rightarrow> Inr (sort_key mg_version out))"

section \<open>Applying them\<close>

text \<open>\<open>sc_versions\<close> is the table \<^verbatim>\<open>schema_version\<close>, when there is one; \<open>sc_tables\<close> is all the rest.\<close>

record 'd schema =
  sc_versions :: "int list option"
  sc_tables :: 'd

text \<open>Which calls fail, and how each commit ends.\<close>

record migration_faults =
  mf_acquire :: bool
  mf_lock :: bool
  mf_table :: bool
  mf_read :: bool
  mf_begin :: "int \<Rightarrow> bool"
  mf_sql :: "int \<Rightarrow> bool"
  mf_insert :: "int \<Rightarrow> bool"
  mf_commit :: "int \<Rightarrow> commit_outcome"

type_synonym 'd script = "string \<Rightarrow> 'd \<Rightarrow> 'd option"

text \<open>The column is a 32-bit \<^verbatim>\<open>integer\<close> and the primary key.\<close>

definition insert_version :: "int \<Rightarrow> int list \<Rightarrow> int list option" where
  "insert_version v vs = (if 2 ^ 31 \<le> v \<or> v \<in> set vs then None else Some (vs @ [v]))"

definition versions_of :: "'d schema \<Rightarrow> int list" where
  "versions_of d = (case sc_versions d of Some vs \<Rightarrow> vs | None \<Rightarrow> [])"

definition applyOne :: "'d script \<Rightarrow> migration_faults \<Rightarrow> migration \<Rightarrow> 'd schema \<Rightarrow> bool \<times> 'd schema" where
  "applyOne run flt m d =
     (let v = mg_version m in
      if mf_begin flt v then (False, d) else
      case (if mf_sql flt v then None else run (mg_sql m) (sc_tables d)) of
        None \<Rightarrow> (False, d)
      | Some t \<Rightarrow>
      case (if mf_insert flt v then None else insert_version v (versions_of d)) of
        None \<Rightarrow> (False, d)
      | Some vs \<Rightarrow>
      let d' = d\<lparr>sc_versions := Some vs, sc_tables := t\<rparr> in
      case mf_commit flt v of
        CommitDone \<Rightarrow> (True, d')
      | CommitRefused \<Rightarrow> (False, d)
      | CommitLost \<Rightarrow> (False, d'))"

datatype migrate_error =
    AcquireError | LockError | TableError | ReadVersionError
  | LoadError load_error
  | MigrationError int string

fun apply_pending ::
  "'d script \<Rightarrow> migration_faults \<Rightarrow> int \<Rightarrow> migration list \<Rightarrow> nat \<Rightarrow> 'd schema \<Rightarrow> (nat \<times> migrate_error option) \<times> 'd schema" where
  "apply_pending run flt current [] applied d = ((applied, None), d)"
| "apply_pending run flt current (m # ms) applied d =
     (if mg_version m \<le> current then apply_pending run flt current ms applied d
      else case applyOne run flt m d of
        (False, d') \<Rightarrow> ((applied, Some (MigrationError (mg_version m) (mg_name m))), d')
      | (True, d') \<Rightarrow> apply_pending run flt current ms (applied + 1) d')"

definition current_version :: "int list \<Rightarrow> int" where
  "current_version vs = (if vs = [] then 0 else Max (set vs))"

definition Migrate ::
  "'d script \<Rightarrow> migration_faults \<Rightarrow> migration_files option \<Rightarrow> 'd schema \<Rightarrow> (nat \<times> migrate_error option) \<times> 'd schema" where
  "Migrate run flt dir d =
     (if mf_acquire flt then ((0, Some AcquireError), d)
      else if mf_lock flt then ((0, Some LockError), d)
      else if mf_table flt then ((0, Some TableError), d)
      else let d1 = d\<lparr>sc_versions := Some (versions_of d)\<rparr> in
      if mf_read flt then ((0, Some ReadVersionError), d1) else
      case loadMigrations dir of
        Inl e \<Rightarrow> ((0, Some (LoadError e)), d1)
      | Inr ms \<Rightarrow> apply_pending run flt (current_version (versions_of d1)) ms 0 d1)"

section \<open>Loading\<close>

definition entry_version :: "string \<Rightarrow> int option" where
  "entry_version name = (case version_prefix name of None \<Rightarrow> None
     | Some num \<Rightarrow> (case parse_int64 num of Some v \<Rightarrow> if 0 < v then Some v else None | None \<Rightarrow> None))"

definition good_entry :: "string \<times> string option \<Rightarrow> bool" where
  "good_entry e \<longleftrightarrow> entry_version (fst e) \<noteq> None \<and> snd e \<noteq> None"

definition of_entry :: "string \<times> string option \<Rightarrow> migration" where
  "of_entry e = \<lparr>mg_version = the (entry_version (fst e)), mg_name = fst e, mg_sql = the (snd e)\<rparr>"

lemma load_loop_step:
  "good_entry e \<Longrightarrow> seen (mg_version (of_entry e)) = None \<Longrightarrow>
   load_loop (e # es) seen out = load_loop es (seen(mg_version (of_entry e) \<mapsto> fst e)) (out @ [of_entry e])"
  by (cases e) (auto simp: good_entry_def entry_version_def of_entry_def split: option.splits if_splits)

lemma load_loop_stop:
  "\<not> (good_entry e \<and> seen (mg_version (of_entry e)) = None) \<Longrightarrow> isl (load_loop (e # es) seen out)"
  by (cases e) (auto simp: good_entry_def entry_version_def of_entry_def split: option.split if_split)

lemma load_loop_result:
  "(if list_all good_entry es \<and> distinct (map (mg_version \<circ> of_entry) es) \<and> (\<forall>e\<in>set es. seen (mg_version (of_entry e)) = None)
    then load_loop es seen out = Inr (out @ map of_entry es) else isl (load_loop es seen out))"
proof (induction es arbitrary: seen out)
  case (Cons e es)
  show ?case
  proof (cases "good_entry e \<and> seen (mg_version (of_entry e)) = None")
    case True
    let ?v = "mg_version (of_entry e)"
    have "(\<forall>x\<in>set es. (seen(?v \<mapsto> fst e)) (mg_version (of_entry x)) = None) \<longleftrightarrow>
        ?v \<notin> set (map (mg_version \<circ> of_entry) es) \<and> (\<forall>x\<in>set es. seen (mg_version (of_entry x)) = None)"
      by (simp add: image_iff) metis
    with True show ?thesis
      using Cons.IH [of "seen(?v \<mapsto> fst e)" "out @ [of_entry e]"] load_loop_step [of e seen es out]
      by (simp del: fun_upd_apply add: conj_ac split: if_split_asm)
  next
    case False
    then show ?thesis using load_loop_stop [of e seen es out] by auto
  qed
qed simp

lemma sorted_versions:
  assumes "distinct (map (mg_version \<circ> of_entry) es)"
  shows "sorted_wrt (<) (map mg_version (sort_key mg_version (map of_entry es)))"
proof -
  have "mset (map mg_version (sort_key mg_version (map of_entry es))) = mset (map (mg_version \<circ> of_entry) es)"
    by (simp add: multiset.map_comp)
  then have "distinct (map mg_version (sort_key mg_version (map of_entry es)))"
    using assms mset_eq_imp_distinct_iff by blast
  then show ?thesis by (simp add: strict_sorted_iff)
qed

lemma loadMigrations_sorted: "loadMigrations dir = Inr ms \<Longrightarrow> sorted_wrt (<) (map mg_version ms)"
  using load_loop_result [of "the dir" Map.empty "[]"]
  by (auto simp: loadMigrations_def sorted_versions isl_def split: option.split_asm sum.split_asm if_split_asm)

text \<open>
  Loading the migrations succeeds exactly when every file is readable and carries a positive number
  before its first underscore, and no number is used twice; the result holds every file once, in ascending order of
  the numbers.
\<close>

theorem loadMigrations_exact:
  "(case loadMigrations (Some es) of
      Inl e \<Rightarrow> \<not> (list_all good_entry es \<and> distinct (map (mg_version \<circ> of_entry) es))
    | Inr ms \<Rightarrow> list_all good_entry es \<and> distinct (map (mg_version \<circ> of_entry) es) \<and>
        mset ms = mset (map of_entry es) \<and> sorted_wrt (<) (map mg_version ms))"
proof (cases "list_all good_entry es \<and> distinct (map (mg_version \<circ> of_entry) es)")
  case True
  then have l: "load_loop es Map.empty [] = Inr (map of_entry es)" using load_loop_result [of es Map.empty "[]"] by simp
  with True sorted_versions show ?thesis by (simp add: loadMigrations_def)
next
  case False
  then have "isl (load_loop es Map.empty [])" using load_loop_result [of es Map.empty "[]"] by simp
  with False show ?thesis by (auto simp: loadMigrations_def isl_def)
qed

section \<open>What a run leaves\<close>

definition no_migration_faults :: migration_faults where
  "no_migration_faults = \<lparr>mf_acquire = False, mf_lock = False, mf_table = False, mf_read = False, mf_begin = (\<lambda>_. False),
     mf_sql = (\<lambda>_. False), mf_insert = (\<lambda>_. False), mf_commit = (\<lambda>_. CommitDone)\<rparr>"

definition pending :: "int list \<Rightarrow> migration list \<Rightarrow> migration list" where
  "pending vs ms = filter (\<lambda>m. current_version vs < mg_version m) ms"

lemma applyOne_cases:
  assumes "applyOne run flt m d = (b, d')"
  obtains (unchanged) "\<not> b" "d' = d"
  | (applied) "applyOne run no_migration_faults m d = (True, d')"
  using assms
  by (auto simp: applyOne_def Let_def no_migration_faults_def split: if_split_asm option.split_asm commit_outcome.split_asm)

lemma applyOne_versions: "applyOne run flt m d = (True, d') \<Longrightarrow> sc_versions d' = Some (versions_of d @ [mg_version m])"
  by (auto simp: applyOne_def Let_def insert_version_def split: if_split_asm option.split_asm commit_outcome.split_asm)

lemma apply_pending_filter: "apply_pending run flt c ms n d = apply_pending run flt c (filter (\<lambda>m. c < mg_version m) ms) n d"
  by (induction run flt c ms n d rule: apply_pending.induct) (auto split: prod.split bool.split)

lemma apply_pending_current:
  "\<forall>m\<in>set ms. c < mg_version m \<and> c' < mg_version m \<Longrightarrow> apply_pending run flt c ms n d = apply_pending run flt c' ms n d"
  by (induction ms arbitrary: n d) (auto split: prod.split bool.split)

lemma apply_pending_count:
  "apply_pending run flt c ms (n + j) d = (case apply_pending run flt c ms n d of ((a, e), d') \<Rightarrow> ((a + j, e), d'))"
proof (induction ms arbitrary: n d)
  case (Cons m ms)
  show ?case using Cons [of n d] Cons [of "n + 1"] by (auto split: prod.split bool.split)
qed simp

lemma apply_pending_append:
  "apply_pending run flt c (xs @ ys) n d = (case apply_pending run flt c xs n d of
     ((a, None), d') \<Rightarrow> apply_pending run flt c ys a d' | ((a, Some e), d') \<Rightarrow> ((a, Some e), d'))"
  by (induction xs arbitrary: n d) (auto split: prod.split bool.split)

text \<open>Under any faults, the first \<open>k\<close> of the pending migrations were applied, as a run without faults applies them.\<close>

lemma apply_pending_prefix:
  assumes "\<forall>m\<in>set ms. c < mg_version m" and "apply_pending run flt c ms n d = ((n', e), d')"
  shows "\<exists>k\<le>length ms. apply_pending run no_migration_faults c (take k ms) n d = ((n + k, None), d') \<and>
     n' \<le> n + k \<and> n + k \<le> n' + 1 \<and> (e = None \<longrightarrow> k = length ms \<and> n' = n + k)"
  using assms
proof (induction ms arbitrary: n d)
  case (Cons m ms)
  let ?A = "\<lambda>k n d. apply_pending run no_migration_faults c (take k (m # ms)) n d"
  obtain b d1 where one: "applyOne run flt m d = (b, d1)" by fastforce
  show ?case
  proof (cases b)
    case True
    have ok: "applyOne run no_migration_faults m d = (True, d1)"
      by (rule applyOne_cases [OF one]) (use True in simp_all)
    have "apply_pending run flt c ms (n + 1) d1 = ((n', e), d')" using Cons.prems one True by simp
    from Cons.IH [OF _ this] Cons.prems(1) obtain k where
      "k \<le> length ms" "apply_pending run no_migration_faults c (take k ms) (n + 1) d1 = ((n + 1 + k, None), d')"
      "n' \<le> n + 1 + k" "n + 1 + k \<le> n' + 1" "e = None \<longrightarrow> k = length ms \<and> n' = n + 1 + k" by auto
    with ok Cons.prems(1) show ?thesis by (intro exI [of _ "Suc k"]) auto
  next
    case False
    then have res: "n' = n" "e \<noteq> None" "d' = d1" using Cons.prems one by auto
    consider "d1 = d" | "applyOne run no_migration_faults m d = (True, d1)"
      by (rule applyOne_cases [OF one]) auto
    then show ?thesis
    proof cases
      case 1
      with res show ?thesis by (intro exI [of _ 0]) simp
    next
      case 2
      with res Cons.prems(1) show ?thesis by (intro exI [of _ 1]) auto
    qed
  qed
qed simp

lemma apply_pending_versions:
  "apply_pending run no_migration_faults c ms n d = ((n', None), d') \<Longrightarrow> \<forall>m\<in>set ms. c < mg_version m \<Longrightarrow>
   versions_of d' = versions_of d @ map mg_version ms"
proof (induction ms arbitrary: n d)
  case (Cons m ms)
  obtain b d1 where one: "applyOne run no_migration_faults m d = (b, d1)" by fastforce
  with Cons.prems have b: b and rest: "apply_pending run no_migration_faults c ms (n + 1) d1 = ((n', None), d')"
    by (auto split: bool.split_asm)
  from Cons.IH [OF rest] Cons.prems(2) applyOne_versions [of run no_migration_faults m d d1] one b
  show ?case by (simp add: versions_of_def)
qed simp

lemma apply_pending_table:
  "apply_pending run flt c ms n d = (r, d') \<Longrightarrow> sc_versions d \<noteq> None \<Longrightarrow> sc_versions d' \<noteq> None"
proof (induction run flt c ms n d rule: apply_pending.induct)
  case (2 run flt c m ms n d)
  have "sc_versions (snd (applyOne run flt m d)) \<noteq> None" using 2(4)
    by (auto simp: applyOne_def Let_def split: option.split commit_outcome.split)
  with 2 show ?case by (auto split: if_split_asm prod.split_asm bool.split_asm)
qed simp

lemma current_version_ascending:
  assumes "sorted_wrt (<) (map mg_version ms)" and "\<forall>m\<in>set ms. current_version vs < mg_version m" and "k < length ms"
  shows "current_version (vs @ map mg_version (take (Suc k) ms)) = mg_version (ms ! k)"
proof -
  have sorted: "sorted (map mg_version ms)" using assms(1) by (simp add: strict_sorted_iff)
  let ?xs = "set (vs @ map mg_version (take (Suc k) ms))"
  have "Max ?xs = mg_version (ms ! k)"
  proof (rule Max_eqI)
    show "mg_version (ms ! k) \<in> ?xs" using assms(3) by (auto simp: take_Suc_conv_app_nth)
    fix y
    assume y: "y \<in> ?xs"
    show "y \<le> mg_version (ms ! k)"
    proof (cases "y \<in> set vs")
      case True
      then have "y \<le> current_version vs" by (auto simp: current_version_def)
      also have "\<dots> \<le> mg_version (ms ! k)" using assms(2,3) by (simp add: less_imp_le)
      finally show ?thesis .
    next
      case False
      with y obtain j where "j < Suc k" "j < length ms" "y = mg_version (ms ! j)" by (auto simp: in_set_conv_nth)
      with sorted assms(3) show ?thesis using sorted_nth_mono [of "map mg_version ms" j k] by simp
    qed
  qed simp
  moreover have "vs @ map mg_version (take (Suc k) ms) \<noteq> []" using assms(3) by auto
  ultimately show ?thesis by (simp add: current_version_def del: append_is_Nil_conv set_append)
qed

text \<open>After the first \<open>k\<close> pending migrations, the rest is what is pending.\<close>

lemma pending_after:
  assumes "sorted_wrt (<) (map mg_version ms)"
  shows "pending (vs @ map mg_version (take k (pending vs ms))) ms = drop k (pending vs ms)"
proof (cases k)
  case (Suc j)
  let ?p = "pending vs ms"
  have p: "\<forall>m\<in>set ?p. current_version vs < mg_version m" by (simp add: pending_def)
  have s: "sorted_wrt (<) (map mg_version ?p)"
    using assms by (simp add: pending_def sorted_wrt_map sorted_wrt_filter)
  let ?i = "min j (length ?p - 1)"
  show ?thesis
  proof (cases "?p = []")
    case False
    then have i: "?i < length ?p" by (cases ?p) auto
    have take: "take k ?p = take (Suc ?i) ?p" and drop: "drop k ?p = drop (Suc ?i) ?p" using Suc False by (auto simp: min_def)
    let ?c = "mg_version (?p ! ?i)"
    have above: "current_version vs < ?c" using p i nth_mem by blast
    have "pending (vs @ map mg_version (take k ?p)) ms = filter (\<lambda>m. ?c < mg_version m) ms"
      unfolding take using current_version_ascending [OF s p i] by (simp only: pending_def)
    also have "\<dots> = filter (\<lambda>m. ?c < mg_version m) ?p"
      using above by (auto simp: pending_def intro!: filter_cong)
    also have "\<dots> = drop k ?p" unfolding drop by (rule filter_after [OF s i])
    finally show ?thesis .
  qed simp
qed simp

section \<open>Properties of a run\<close>

lemma Migrate_prefix:
  assumes l: "loadMigrations dir = Inr ms" and m: "Migrate run flt dir d = ((n, e), d')"
  obtains (early) "n = 0" "e \<noteq> None" "d' = d \<or> d' = d\<lparr>sc_versions := Some (versions_of d)\<rparr>"
  | (ran) k where "k \<le> length (pending (versions_of d) ms)" "n \<le> k" "k \<le> n + 1"
      "e = None \<longrightarrow> k = length (pending (versions_of d) ms) \<and> n = k"
      "apply_pending run no_migration_faults (current_version (versions_of d)) (take k (pending (versions_of d) ms)) 0
         (d\<lparr>sc_versions := Some (versions_of d)\<rparr>) = ((k, None), d')"
proof (cases "mf_acquire flt \<or> mf_lock flt \<or> mf_table flt \<or> mf_read flt")
  case True
  with m early show thesis by (auto simp: Migrate_def split: if_split_asm)
next
  case False
  let ?c = "current_version (versions_of d)" and ?p = "pending (versions_of d) ms" and ?d1 = "d\<lparr>sc_versions := Some (versions_of d)\<rparr>"
  have "versions_of ?d1 = versions_of d" by (simp add: versions_of_def)
  with False m l have "apply_pending run flt ?c ms 0 ?d1 = ((n, e), d')" by (simp add: Migrate_def)
  then have run: "apply_pending run flt ?c ?p 0 ?d1 = ((n, e), d')"
    by (subst (asm) apply_pending_filter) (simp add: pending_def)
  have "\<forall>m\<in>set ?p. ?c < mg_version m" by (simp add: pending_def)
  from apply_pending_prefix [OF this run] ran show thesis by auto
qed

text \<open>The scripts of a list of migrations, one after the other.\<close>

fun run_scripts :: "'d script \<Rightarrow> migration list \<Rightarrow> 'd \<Rightarrow> 'd option" where
  "run_scripts run [] t = Some t"
| "run_scripts run (m # ms) t = (case run (mg_sql m) t of None \<Rightarrow> None | Some t' \<Rightarrow> run_scripts run ms t')"

lemma apply_pending_scripts:
  "apply_pending run no_migration_faults c ms n d = ((n', None), d') \<Longrightarrow> \<forall>m\<in>set ms. c < mg_version m \<Longrightarrow>
   run_scripts run ms (sc_tables d) = Some (sc_tables d')"
proof (induction ms arbitrary: n d)
  case (Cons m ms)
  obtain b d1 where one: "applyOne run no_migration_faults m d = (b, d1)" by fastforce
  with Cons.prems have b: b and rest: "apply_pending run no_migration_faults c ms (n + 1) d1 = ((n', None), d')"
    by (auto split: bool.split_asm)
  have "run (mg_sql m) (sc_tables d) = Some (sc_tables d1)"
    using one b by (auto simp: applyOne_def Let_def no_migration_faults_def split: if_split_asm option.split_asm)
  with Cons.IH [OF rest] Cons.prems(2) show ?case by simp
qed simp

text \<open>A concrete directory, whose second migration fails at first.\<close>

definition demo_dir :: "migration_files option" where
  "demo_dir = Some [(''0002_more.sql'', Some ''B''), (''0001_init.sql'', Some ''A'')]"

definition demo_run :: "string list script" where
  "demo_run sql tables = Some (tables @ [sql])"

definition demo_trouble :: migration_faults where
  "demo_trouble = no_migration_faults\<lparr>mf_sql := (\<lambda>v. v = 2)\<rparr>"

definition demo_fresh :: "string list schema" where
  "demo_fresh = \<lparr>sc_versions = None, sc_tables = []\<rparr>"

lemma demo_loaded:
  "loadMigrations demo_dir = Inr [\<lparr>mg_version = 1, mg_name = ''0001_init.sql'', mg_sql = ''A''\<rparr>,
     \<lparr>mg_version = 2, mg_name = ''0002_more.sql'', mg_sql = ''B''\<rparr>]"
  by code_simp

lemma demo_interrupted:
  "Migrate demo_run demo_trouble demo_dir demo_fresh =
     ((1, Some (MigrationError 2 ''0002_more.sql'')), \<lparr>sc_versions = Some [1], sc_tables = [''A'']\<rparr>)"
  by code_simp

text \<open>
  Whatever fails, migrating leaves no migration half done and skips none: the run has applied, in ascending
  order, the scripts of the first \<open>k\<close> of the pending migrations, each recorded with its number; it counts
  them, save for one whose commit went through unheard, and a run that reports success has applied them all.
\<close>

theorem migrate_applies_a_prefix:
  assumes "loadMigrations dir = Inr ms" and "Migrate run flt dir d = ((n, e), d')"
  shows "\<exists>k. k \<le> length (pending (versions_of d) ms) \<and>
    versions_of d' = versions_of d @ map mg_version (take k (pending (versions_of d) ms)) \<and>
    run_scripts run (take k (pending (versions_of d) ms)) (sc_tables d) = Some (sc_tables d') \<and>
    n \<le> k \<and> k \<le> n + 1 \<and> (e = None \<longrightarrow> k = length (pending (versions_of d) ms) \<and> n = k)"
  using assms
proof (cases rule: Migrate_prefix)
  case early
  then show ?thesis by (intro exI [of _ 0]) (auto simp: versions_of_def)
next
  case (ran k)
  have p: "\<forall>m\<in>set (take k (pending (versions_of d) ms)). current_version (versions_of d) < mg_version m"
    by (auto simp: pending_def dest: in_set_takeD)
  from apply_pending_versions [OF ran(5) p] apply_pending_scripts [OF ran(5) p] ran(1-4) show ?thesis
    by (intro exI [of _ k]) (simp add: versions_of_def)
qed

theorem migrate_applies_a_prefix_witness:
  "\<exists>n e d'. Migrate demo_run demo_trouble demo_dir demo_fresh = ((n, e), d') \<and> versions_of d' = [1] \<and>
     n = 1 \<and> run_scripts demo_run [\<lparr>mg_version = 1, mg_name = ''0001_init.sql'', mg_sql = ''A''\<rparr>] [] = Some (sc_tables d')"
proof -
  from migrate_applies_a_prefix [OF demo_loaded demo_interrupted] obtain k where
    "versions_of (\<lparr>sc_versions = Some [1], sc_tables = [''A'']\<rparr> :: string list schema) = versions_of demo_fresh @ map mg_version
       (take k (pending (versions_of demo_fresh) [\<lparr>mg_version = 1, mg_name = ''0001_init.sql'', mg_sql = ''A''\<rparr>,
         \<lparr>mg_version = 2, mg_name = ''0002_more.sql'', mg_sql = ''B''\<rparr>]))" by blast
  then show ?thesis by (simp add: demo_interrupted versions_of_def demo_run_def)
qed

lemma Migrate_no_faults:
  "loadMigrations dir = Inr ms \<Longrightarrow> Migrate run no_migration_faults dir d =
     apply_pending run no_migration_faults (current_version (versions_of d)) (pending (versions_of d) ms) 0
       (d\<lparr>sc_versions := Some (versions_of d)\<rparr>)"
proof -
  assume l: "loadMigrations dir = Inr ms"
  have "versions_of (d\<lparr>sc_versions := Some (versions_of d)\<rparr>) = versions_of d" by (simp add: versions_of_def)
  with l show ?thesis
    by (simp add: Migrate_def no_migration_faults_def) (subst apply_pending_filter, simp add: pending_def)
qed

lemma apply_pending_result:
  "apply_pending run flt c ms n d = ((a, e), d') \<Longrightarrow> snd (apply_pending run flt c ms m d) = d' \<and>
   snd (fst (apply_pending run flt c ms m d)) = e"
  using apply_pending_count [of run flt c ms 0 n d] apply_pending_count [of run flt c ms 0 m d]
  by (auto split: prod.split_asm prod.split)

text \<open>
  C19 Migrating can be interrupted and repeated: after a run that stopped anywhere, for whatever reason, a run
  in which nothing fails ends in the same tables, the same record of versions and the same error, if any, as if
  the interrupted run had never been; and after a run that succeeded it applies nothing and changes nothing.
\<close>

theorem migrate_resumes:
  assumes "Migrate run flt dir d = ((n, e), d')" and "isl (loadMigrations dir) = False"
  shows "snd (Migrate run no_migration_faults dir d') = snd (Migrate run no_migration_faults dir d) \<and>
    snd (fst (Migrate run no_migration_faults dir d')) = snd (fst (Migrate run no_migration_faults dir d)) \<and>
    (e = None \<longrightarrow> Migrate run no_migration_faults dir d' = ((0, None), d'))"
proof -
  obtain ms where l: "loadMigrations dir = Inr ms" using assms(2) by (cases "loadMigrations dir") auto
  have sorted: "sorted_wrt (<) (map mg_version ms)"
    using l loadMigrations_sorted by blast
  show ?thesis
    using l assms(1)
  proof (cases rule: Migrate_prefix)
    case early
    have "Migrate run no_migration_faults dir d' = Migrate run no_migration_faults dir d"
      using early(3) by (auto simp: Migrate_def versions_of_def no_migration_faults_def)
    with early(2) show ?thesis by auto
  next
    case (ran k)
    let ?p = "pending (versions_of d) ms" and ?c = "current_version (versions_of d)"
    have p: "\<forall>m\<in>set (take k ?p). ?c < mg_version m" "\<forall>m\<in>set (drop k ?p). ?c < mg_version m"
      by (auto simp: pending_def dest: in_set_takeD in_set_dropD)
    have vs: "versions_of d' = versions_of d @ map mg_version (take k ?p)"
      using apply_pending_versions [OF ran(5) p(1)] by (simp add: versions_of_def)
    have left: "pending (versions_of d') ms = drop k ?p" unfolding vs by (rule pending_after [OF sorted])
    have "sc_versions d' \<noteq> None" using apply_pending_table [OF ran(5)] by simp
    then have d': "d'\<lparr>sc_versions := Some (versions_of d')\<rparr> = d'" by (auto simp: versions_of_def)
    have "\<forall>m\<in>set (drop k ?p). current_version (versions_of d') < mg_version m"
      unfolding left [symmetric] by (simp add: pending_def)
    then have again: "Migrate run no_migration_faults dir d' = apply_pending run no_migration_faults ?c (drop k ?p) 0 d'"
      using Migrate_no_faults [OF l, of run d'] p(2) apply_pending_current [of "drop k ?p" "current_version (versions_of d')" ?c]
      by (simp add: left d')
    have "Migrate run no_migration_faults dir d = apply_pending run no_migration_faults ?c (take k ?p @ drop k ?p) 0
        (d\<lparr>sc_versions := Some (versions_of d)\<rparr>)"
      using Migrate_no_faults [OF l] by simp
    then have once: "Migrate run no_migration_faults dir d = apply_pending run no_migration_faults ?c (drop k ?p) k d'"
      unfolding apply_pending_append using ran(5) by simp
    obtain a e' d2 where x: "apply_pending run no_migration_faults ?c (drop k ?p) k d' = ((a, e'), d2)" by (metis surj_pair)
    show ?thesis
      using apply_pending_result [OF x, of 0] x ran(4) by (simp add: again once)
  qed
qed

theorem migrate_resumes_witness:
  "snd (Migrate demo_run no_migration_faults demo_dir \<lparr>sc_versions = Some [1], sc_tables = [''A'']\<rparr>) =
     \<lparr>sc_versions = Some [1, 2], sc_tables = [''A'', ''B'']\<rparr>"
proof -
  have "snd (Migrate demo_run no_migration_faults demo_dir demo_fresh) = \<lparr>sc_versions = Some [1, 2], sc_tables = [''A'', ''B'']\<rparr>"
    by code_simp
  with migrate_resumes [OF demo_interrupted] demo_loaded show ?thesis by simp
qed

text \<open>A migration whose number lies below one that was already applied is never applied.\<close>

lemma late_migration_is_skipped:
  "Migrate demo_run no_migration_faults demo_dir \<lparr>sc_versions = Some [2], sc_tables = [''B'']\<rparr> =
     ((0, None), \<lparr>sc_versions = Some [2], sc_tables = [''B'']\<rparr>)"
  by code_simp

text \<open>A run that reports success leaves nothing pending.\<close>

lemma migrated:
  assumes "Migrate run flt dir d = ((n, None), d')"
  obtains ms where "loadMigrations dir = Inr ms" "pending (versions_of d') ms = []" "sc_versions d' \<noteq> None"
proof -
  obtain ms where l: "loadMigrations dir = Inr ms"
    using assms by (cases "loadMigrations dir") (auto simp: Migrate_def Let_def split: if_split_asm)
  from l assms show thesis
  proof (cases rule: Migrate_prefix)
    case (ran k)
    let ?p = "pending (versions_of d) ms"
    have all: "\<forall>m\<in>set (take k ?p). current_version (versions_of d) < mg_version m"
      by (auto simp: pending_def dest: in_set_takeD)
    have "versions_of d' = versions_of d @ map mg_version (take k ?p)"
      using apply_pending_versions [OF ran(5) all] by (simp add: versions_of_def)
    with ran(4) pending_after [OF loadMigrations_sorted [OF l], of "versions_of d" k] apply_pending_table [OF ran(5)]
    show thesis by (intro that [OF l]) simp_all
  qed simp
qed

end
