(* ===== verification/Startup.thy ===== *)
theory Startup
  imports Config Migrations Api_Routes
begin

text \<open>
  Starting the server, \<^verbatim>\<open>run\<close> in \<^verbatim>\<open>cmd/server/main.go\<close> and \<^verbatim>\<open>Connect\<close> in \<^verbatim>\<open>internal/database/database.go\<close>:
  configuration, database, migrations, object store, services and the HTTP server; \<^verbatim>\<open>main\<close> around it; and the
  package \<^verbatim>\<open>web\<close>, which hands the built interface to it.
\<close>

text \<open>
  \<^verbatim>\<open>web/embed_on.go\<close> and \<^verbatim>\<open>embed_off.go\<close>: which of the two is compiled is decided by a build tag. \<^verbatim>\<open>fs.Sub\<close> fails on
  a path that \<^verbatim>\<open>fs.ValidPath\<close> refuses; then \<^verbatim>\<open>FS\<close> panics (\<open>None\<close>).
\<close>

definition ValidPath :: "string \<Rightarrow> bool" where
  "ValidPath name \<longleftrightarrow> valid_utf8 name \<and>
     (name = ''.'' \<or> list_all (\<lambda>e. e \<noteq> [] \<and> e \<noteq> ''.'' \<and> e \<noteq> ''..'') (split_char (CHR ''/'') name))"

definition FS :: "bool \<Rightarrow> web_ui \<Rightarrow> web_ui option option" where
  "FS embedui dist = (if embedui then if ValidPath ''dist'' then Some (Some dist) else None else Some None)"

lemma FS_total: "FS embedui dist = Some (if embedui then Some dist else None)"
proof -
  have "valid_utf8 ''dist''" by (rule valid_utf8_ascii) simp
  then show ?thesis by (simp add: FS_def ValidPath_def)
qed

text \<open>Whether the pool can be made for a URL, and whether the database answers there.\<close>

datatype connect_error = PoolError | PingError

definition Connect :: "(string \<Rightarrow> bool) \<Rightarrow> (string \<Rightarrow> bool) \<Rightarrow> string \<Rightarrow> connect_error option" where
  "Connect pools pings url = (if \<not> pools url then Some PoolError else if \<not> pings url then Some PingError else None)"

datatype run_error =
    ConfigFailed config_error
  | ConnectFailed connect_error
  | MigrateFailed migrate_error
  | StorageFailed storage_error
  | ModeUnknown
  | Panicked

text \<open>The surroundings of a start.\<close>

record 'd host =
  ho_unicode :: unicode
  ho_getenv :: environment
  ho_pools :: "string \<Rightarrow> bool"
  ho_pings :: "string \<Rightarrow> bool"
  ho_script :: "'d script"
  ho_faults :: migration_faults
  ho_dir :: "migration_files option"
  ho_flt :: fs_faults
  ho_embedui :: bool
  ho_dist :: web_ui

text \<open>The server and the address it listens on, or the error the process exits with; the schema and the files.\<close>

definition run :: "'d host \<Rightarrow> 'd schema \<Rightarrow> fsys \<Rightarrow> (run_error + server \<times> string) \<times> 'd schema \<times> fsys" where
  "run ho d fs =
     (case Load (ho_unicode ho) (ho_getenv ho) of
        Inl e \<Rightarrow> (Inl (ConfigFailed e), d, fs)
      | Inr cfg \<Rightarrow>
      case Connect (ho_pools ho) (ho_pings ho) (cfg_DatabaseURL cfg) of
        Some e \<Rightarrow> (Inl (ConnectFailed e), d, fs)
      | None \<Rightarrow>
      case Migrate (ho_script ho) (ho_faults ho) (ho_dir ho) d of
        ((_, Some e), d1) \<Rightarrow> (Inl (MigrateFailed e), d1, fs)
      | ((applied, None), d1) \<Rightarrow>
      case New (cfg_DataDir cfg) (cfg_MasterKey cfg) (ho_flt ho) fs of
        (Inl e, fs1) \<Rightarrow> (Inl (StorageFailed e), d1, fs1)
      | (Inr st, fs1) \<Rightarrow>
      case ParseRegistrationMode (ho_unicode ho) (cfg_RegistrationMode cfg) of
        None \<Rightarrow> (Inl ModeUnknown, d1, fs1)
      | Some mode \<Rightarrow>
          let authSvc = SetRegistrationPolicy \<lparr>rp_Mode = mode, rp_MaxUsers = sint (cfg_MaxUsers cfg)\<rparr> NewService;
              r = NewRepo st (cfg_MaxUploadBytes cfg)
          in (case FS (ho_embedui ho) (ho_dist ho) of
                None \<Rightarrow> (Inl Panicked, d1, fs1)
              | Some ui \<Rightarrow>
                  (Inr (NewServer authSvc r (cfg_Dev cfg) (cfg_MaxUploadBytes cfg) ui, cfg_ListenAddr cfg), d1, fs1)))"

text \<open>
  The HTTP server that listens, and the process: it serves as long as the address can be listened on, and every way
  it ends, \<^verbatim>\<open>ListenAndServe\<close> included, is an error that is logged and exits with 1.
\<close>

record http_server =
  hs_Addr :: string
  hs_Handler :: server
  hs_ReadHeaderTimeout :: time
  hs_ReadTimeout :: time
  hs_WriteTimeout :: time
  hs_IdleTimeout :: time

definition listener :: "server \<Rightarrow> string \<Rightarrow> http_server" where
  "listener srv addr = \<lparr>hs_Addr = addr, hs_Handler = srv, hs_ReadHeaderTimeout = 10 * second,
     hs_ReadTimeout = 5 * minute, hs_WriteTimeout = 5 * minute, hs_IdleTimeout = 2 * minute\<rparr>"

datatype process = Serving http_server | Exited nat

definition run_log :: "run_error \<Rightarrow> string list" where
  "run_log e = (case e of ConfigFailed _ \<Rightarrow> [] | ConnectFailed _ \<Rightarrow> [] | MigrateFailed _ \<Rightarrow> []
     | _ \<Rightarrow> [''migrations up to date''])"

definition main :: "(string \<Rightarrow> bool) \<Rightarrow> 'd host \<Rightarrow> 'd schema \<Rightarrow> fsys \<Rightarrow> process \<times> string list \<times> 'd schema \<times> fsys" where
  "main listens ho d fs =
     (case run ho d fs of
        (Inl e, d1, fs1) \<Rightarrow>
          (if e = Panicked then (Exited 2, run_log e, d1, fs1) else (Exited 1, run_log e @ [''fatal''], d1, fs1))
      | (Inr (srv, addr), d1, fs1) \<Rightarrow>
          if listens addr then (Serving (listener srv addr), [''migrations up to date'', ''listening''], d1, fs1)
          else (Exited 1, [''migrations up to date'', ''listening'', ''fatal''], d1, fs1))"

text \<open>What a started server is made of.\<close>

definition server_sound :: "environment \<Rightarrow> server \<Rightarrow> bool" where
  "server_sound getenv srv \<longleftrightarrow>
     length (st_kek (re_store (srv_files srv))) = 32 \<and>
     hex_decode (getenv ''SECUREVAULT_MASTER_KEY'') = Some (st_kek (re_store (srv_files srv))) \<and>
     0 < sint (re_maxBytes (srv_files srv)) \<and> srv_maxUpload srv = re_maxBytes (srv_files srv) \<and>
     rp_Mode (sv_policy (srv_auth srv)) \<in> {RegistrationOpen, RegistrationInvite, RegistrationClosed} \<and>
     0 \<le> rp_MaxUsers (sv_policy (srv_auth srv)) \<and> sv_idle (srv_auth srv) = 30 * minute \<and> sv_absolute (srv_auth srv) = 4 * hour"

lemma New_Inr:
  "New dir kek flt fs = (Inr st, fs') \<Longrightarrow> st = \<lparr>st_root = dir, st_kek = kek\<rparr> \<and>
   path_join [dir, ''objects''] \<in> fs_dirs fs' \<and> path_join [dir, ''tmp''] \<in> fs_dirs fs' \<and> fs_files fs' = fs_files fs"
  by (auto simp: New_def split: if_split_asm)

lemma New_files: "New dir kek flt fs = (x, fs') \<Longrightarrow> fs_files fs' = fs_files fs"
  by (auto simp: New_def split: if_split_asm)

lemma started:
  assumes "run ho d fs = (Inr (srv, addr), d', fs')"
  obtains cfg n where "Load (ho_unicode ho) (ho_getenv ho) = Inr cfg"
    "Migrate (ho_script ho) (ho_faults ho) (ho_dir ho) d = ((n, None), d')" "fs_files fs' = fs_files fs"
    "srv = NewServer (SetRegistrationPolicy \<lparr>rp_Mode = cfg_RegistrationMode cfg, rp_MaxUsers = sint (cfg_MaxUsers cfg)\<rparr> NewService)
       (NewRepo \<lparr>st_root = cfg_DataDir cfg, st_kek = cfg_MasterKey cfg\<rparr> (cfg_MaxUploadBytes cfg)) (cfg_Dev cfg)
       (cfg_MaxUploadBytes cfg) (if ho_embedui ho then Some (ho_dist ho) else None)"
proof -
  obtain cfg where l: "Load (ho_unicode ho) (ho_getenv ho) = Inr cfg"
    using assms by (auto simp: run_def split: sum.split_asm)
  obtain r d1 where m: "Migrate (ho_script ho) (ho_faults ho) (ho_dir ho) d = (r, d1)" by fastforce
  obtain x fs1 where n: "New (cfg_DataDir cfg) (cfg_MasterKey cfg) (ho_flt ho) fs = (x, fs1)" by fastforce
  from assms Load_Inr(3) [OF l] New_Inr [of "cfg_DataDir cfg" "cfg_MasterKey cfg" "ho_flt ho" fs _ fs1] n show thesis
    by (auto simp: run_def l m Let_def FS_total split: option.split_asm sum.split_asm prod.split_asm intro!: that [OF l])
qed

lemma started_sound:
  assumes "run ho d fs = (Inr (srv, addr), d', fs')"
  shows "server_sound (ho_getenv ho) srv"
proof (rule started [OF assms])
  fix cfg n
  assume l: "Load (ho_unicode ho) (ho_getenv ho) = Inr cfg"
    and srv: "srv = NewServer (SetRegistrationPolicy \<lparr>rp_Mode = cfg_RegistrationMode cfg, rp_MaxUsers = sint (cfg_MaxUsers cfg)\<rparr> NewService)
       (NewRepo \<lparr>st_root = cfg_DataDir cfg, st_kek = cfg_MasterKey cfg\<rparr> (cfg_MaxUploadBytes cfg)) (cfg_Dev cfg)
       (cfg_MaxUploadBytes cfg) (if ho_embedui ho then Some (ho_dist ho) else None)"
  from Load_Inr(1,2) [OF l] show "server_sound (ho_getenv ho) srv"
    by (auto simp: server_sound_def srv NewServer_def NewRepo_def NewService_def SetRegistrationPolicy_def config_ok_def
        MasterKeySize_def registrationModes_def mode_defs sessionIdleTTL_def sessionAbsoluteTTL_def)
qed

text \<open>
  C30 Starting: a server that starts has the 32-byte key its environment spells, a positive upload limit that
  the HTTP layer and the repository share, a known registration mode and the session limits of the service, and runs
  on a database with no migration pending; a start that fails in the configuration or the connection has touched
  neither the database nor the disk, one that fails in the migrations has not touched the disk, and the mode the
  configuration accepted is never refused later.
\<close>

theorem startup_is_sound:
  "case run ho d fs of
     (Inr (srv, _), d', fs') \<Rightarrow> server_sound (ho_getenv ho) srv \<and> fs_files fs' = fs_files fs \<and>
       (\<exists>ms. loadMigrations (ho_dir ho) = Inr ms \<and> pending (versions_of d') ms = [])
   | (Inl e, d', fs') \<Rightarrow>
       (case e of
          ConfigFailed _ \<Rightarrow> d' = d \<and> fs' = fs
        | ConnectFailed _ \<Rightarrow> d' = d \<and> fs' = fs
        | MigrateFailed _ \<Rightarrow> fs' = fs
        | StorageFailed _ \<Rightarrow> fs_files fs' = fs_files fs
        | ModeUnknown \<Rightarrow> False
        | Panicked \<Rightarrow> False)"
proof (cases "run ho d fs")
  case (fields res d' fs')
  show ?thesis
  proof (cases res)
    case (Inr sa)
    obtain srv addr where "sa = (srv, addr)" by fastforce
    with fields Inr have r: "run ho d fs = (Inr (srv, addr), d', fs')" by simp
    obtain n where "Migrate (ho_script ho) (ho_faults ho) (ho_dir ho) d = ((n, None), d')" "fs_files fs' = fs_files fs"
      by (rule started [OF r])
    with started_sound [OF r] r show ?thesis by (auto elim: migrated)
  next
    case (Inl e)
    with fields have r: "run ho d fs = (Inl e, d', fs')" by simp
    with Load_Inr(3) [of "ho_unicode ho" "ho_getenv ho"] show ?thesis
      by (auto simp: run_def Let_def FS_total dest: New_files split: option.split_asm sum.split_asm prod.split_asm)
  qed
qed

text \<open>The process serves, with a sound server, or it exits with 1 and says so; it never panics and never exits with 0.\<close>

lemma main_serves_or_exits:
  "(\<exists>hs ls d' fs'. main listens ho d fs = (Serving hs, ls, d', fs') \<and> server_sound (ho_getenv ho) (hs_Handler hs) \<and>
     listens (hs_Addr hs)) \<or>
   (\<exists>ls d' fs'. main listens ho d fs = (Exited 1, ls @ [''fatal''], d', fs'))"
proof (cases "run ho d fs")
  case (fields res d' fs')
  show ?thesis
  proof (cases res)
    case (Inr sa)
    obtain srv addr where sa: "sa = (srv, addr)" by fastforce
    show ?thesis
      using fields Inr sa started_sound [of ho d fs srv addr d' fs']
      by (cases "listens addr") (simp_all add: main_def listener_def)
  next
    case (Inl e)
    have "e \<noteq> Panicked" using fields Inl by (auto simp: run_def Let_def FS_total split: option.splits sum.splits prod.splits)
    with fields Inl show ?thesis by (simp add: main_def)
  qed
qed

end
