(* ===== verification/Auth_Races.thy ===== *)
theory Auth_Races
  imports Auth_Properties
begin

text \<open>
  What the throttle of \<^verbatim>\<open>Service.Login\<close> (\<^verbatim>\<open>internal/auth/service.go\<close>) is worth against guessing.
  Guesses that follow each other are limited to \<^verbatim>\<open>throttleUserMax\<close> per window. But the check
  (\<^verbatim>\<open>isThrottled\<close>) and the record of a failure (\<^verbatim>\<open>loginFailed\<close>) are separate statements without a
  transaction or a lock, and the server runs every request in its own goroutine: requests that are all
  past the check before the first failure is recorded all have their password verified.
\<close>

section \<open>A client that guesses\<close>

record guess =
  gs_env :: env
  gs_rnd :: rand_source
  gs_user :: string
  gs_password :: string
  gs_addr :: string

type_synonym login_result = "auth_error + string \<times> user"

definition guess_login :: "crypto \<Rightarrow> string \<Rightarrow> service \<Rightarrow> guess \<Rightarrow> world \<Rightarrow> login_result \<times> world" where
  "guess_login c dummy s g = Login (gs_env g) c (gs_rnd g) dummy s (gs_user g) (gs_password g) (gs_addr g)"

text \<open>
  Whether a login gets as far as the password: the throttle lets it pass, the account can be looked up, and the
  password is checked against the stored hash, if that can be parsed, or against the dummy when there is no account.
  The answer does not tell this: a guess whose failure cannot be recorded has been compared all the same.
\<close>

definition password_compared :: "crypto \<Rightarrow> guess \<Rightarrow> world \<Rightarrow> bool" where
  "password_compared c g w \<longleftrightarrow>
     fst (isThrottled (gs_env g) (userKey (gs_user g)) (addrKey (gs_addr g)) w) = Inr False \<and>
     \<not> en_fail (gs_env g) CallSelectUser \<and>
     (case user_by_name (gs_user g) (w_db w) of
        None \<Rightarrow> True
      | Some row \<Rightarrow> \<not> isl (VerifyPassword c (gs_password g) (ur_hash row)))"

text \<open>One guess after the other, with whether the password was compared and what the service answered.\<close>

primrec guess_in_turn ::
  "crypto \<Rightarrow> string \<Rightarrow> service \<Rightarrow> guess list \<Rightarrow> world \<Rightarrow> (guess \<times> bool \<times> login_result) list \<times> world" where
  "guess_in_turn c dummy s [] w = ([], w)"
| "guess_in_turn c dummy s (g # gs) w =
     (let (r, w1) = guess_login c dummy s g w; (rs, w2) = guess_in_turn c dummy s gs w1
      in ((g, password_compared c g w, r) # rs, w2))"

text \<open>A guess that is not the password of its account.\<close>

definition wrong_guess :: "crypto \<Rightarrow> guess \<Rightarrow> db \<Rightarrow> bool" where
  "wrong_guess c g d \<longleftrightarrow>
     (case user_by_name (gs_user g) d of
        None \<Rightarrow> True
      | Some row \<Rightarrow> VerifyPassword c (gs_password g) (ur_hash row) \<noteq> Inr True)"

text \<open>How many guesses were compared, and how many cannot leave a failure behind because that \<^verbatim>\<open>INSERT\<close> fails.\<close>

definition compared :: "(guess \<Rightarrow> bool) \<Rightarrow> (guess \<times> bool \<times> login_result) list \<Rightarrow> nat" where
  "compared P rs = count_where (\<lambda>(g, b, _). P g \<and> b) rs"

definition unrecorded :: "(guess \<Rightarrow> bool) \<Rightarrow> guess list \<Rightarrow> nat" where
  "unrecorded P gs = count_where (\<lambda>g. P g \<and> en_fail (gs_env g) CallInsertFailures) gs"

lemma wrong_guess_users: "users d' = users d \<Longrightarrow> wrong_guess c g d' = wrong_guess c g d"
  by (simp add: wrong_guess_def user_by_name_def)

lemma login_rest_wrong:
  assumes "wrong_guess c g (w_db w)"
    and "login_rest env c rnd s (gs_user g) (gs_password g) addr w = (r, w')"
  obtains (error) e where "r = Inl (ErrAuthOther e)" "w' = w"
  | (recorded) "r = Inl ErrInvalidCredentials"
      "login_effect w (failures (w_db w) @ login_failures_rows env (gs_user g) addr) (sessions (w_db w)) w'"
proof -
  have refused: thesis
    if "(let (e, w2) = loginFailed env (gs_user g) (userKey (gs_user g)) (addrKey addr) reason w in (Inl e, w2)) = (r, w')"
    for reason
  proof -
    obtain e w2 where lf: "loginFailed env (gs_user g) (userKey (gs_user g)) (addrKey addr) reason w = (e, w2)"
      by fastforce
    with that have "r = Inl e" "w' = w2" by simp_all
    with lf error recorded show thesis by (cases rule: loginFailed_effect) auto
  qed
  show thesis
    using assms error refused [of "''unknown_user''"] refused [of "''wrong_password''"]
    by (auto simp: login_rest_def wrong_guess_def exec_def Let_def
        split: if_splits option.splits sum.splits bool.splits)
qed

text \<open>What a wrong guess does to the failure table.\<close>

lemma wrong_login:
  assumes wrong: "wrong_guess c g (w_db w)" and run: "guess_login c dummy s g w = (r, w')"
  obtains (other) e where "r = Inl e" "e \<noteq> ErrInvalidCredentials" "users (w_db w') = users (w_db w)"
      "failures (w_db w') = failures (w_db w) \<or>
       failures (w_db w') = failures (prune_failures (en_now (gs_env g)) (w_db w))"
  | (recorded) "r = Inl ErrInvalidCredentials" "users (w_db w') = users (w_db w)"
      "\<not> throttled (en_now (gs_env g)) (gs_user g) (gs_addr g) (w_db w)"
      "failures (w_db w') = failures (prune_failures (en_now (gs_env g)) (w_db w)) @
         login_failures_rows (gs_env g) (gs_user g) (gs_addr g)"
proof -
  let ?wp = "w\<lparr>w_db := prune_failures (en_now (gs_env g)) (w_db w)\<rparr>"
  obtain r1 w1 where thr: "isThrottled (gs_env g) (userKey (gs_user g)) (addrKey (gs_addr g)) w = (r1, w1)"
    by fastforce
  note run' = run [unfolded guess_login_def Login_split] thr
  from thr show thesis
  proof (cases rule: isThrottled_cases)
    case (error e)
    with run' show thesis by (intro other [of "ErrAuthOther e"]) auto
  next
    case decided
    show thesis
    proof (cases "throttled (en_now (gs_env g)) (gs_user g) (gs_addr g) (w_db w)")
      case True
      with run' decided show thesis by (intro other [of ErrThrottled]) auto
    next
      case False
      with run' decided
      have rest: "login_rest (gs_env g) c (gs_rnd g) s (gs_user g) (gs_password g) (gs_addr g) ?wp = (r, w')" by simp
      have "wrong_guess c g (w_db ?wp)" using wrong by (simp add: wrong_guess_def user_by_name_def)
      from this rest show thesis
      proof (cases rule: login_rest_wrong)
        case (error e)
        then show thesis by (intro other [of "ErrAuthOther e"]) auto
      next
        case recorded
        then have "core (w_db w') = core ((w_db ?wp)\<lparr>failures := failures (w_db ?wp) @
            login_failures_rows (gs_env g) (gs_user g) (gs_addr g), sessions := sessions (w_db ?wp)\<rparr>)"
          by (simp add: login_effect_def)
        from core_eqD [OF this] show thesis
          by (intro that(2) [OF recorded(1) _ False]) simp_all
      qed
    qed
  qed
qed

text \<open>A guess that is not compared gets an answer that does not depend on its password.\<close>

lemma VerifyPassword_isl: "isl (VerifyPassword c pw h) \<longleftrightarrow> isl (parsePHC h)"
  by (simp add: VerifyPassword_def split: sum.split)

lemma uncompared_is_blind:
  assumes "\<not> password_compared c g w"
  shows "guess_login c dummy s (g\<lparr>gs_password := pw\<rparr>) w = guess_login c dummy s g w"
proof -
  obtain r w1 where thr: "isThrottled (gs_env g) (userKey (gs_user g)) (addrKey (gs_addr g)) w = (r, w1)" by fastforce
  have users: "user_by_name (gs_user g) (w_db w1) = user_by_name (gs_user g) (w_db w)"
    using isThrottled_users [OF thr] by (simp add: user_by_name_def)
  show ?thesis
  proof (cases "r = Inr False \<and> \<not> en_fail (gs_env g) CallSelectUser")
    case True
    with assms thr obtain row where row: "user_by_name (gs_user g) (w_db w) = Some row"
        "isl (VerifyPassword c (gs_password g) (ur_hash row))"
      by (auto simp: password_compared_def split: option.splits)
    have err: "\<exists>e. VerifyPassword c q (ur_hash row) = Inl e" for q
      using row(2) unfolding VerifyPassword_isl by (auto simp: VerifyPassword_def isl_def)
    obtain e e' where "VerifyPassword c (gs_password g) (ur_hash row) = Inl e" "VerifyPassword c pw (ur_hash row) = Inl e'"
      using err by blast
    with True thr row(1) users show ?thesis
      by (simp add: guess_login_def Login_split login_rest_def exec_def Let_def)
  next
    case False
    then consider e where "r = Inl e" | "r = Inr True" | "r = Inr False" "en_fail (gs_env g) CallSelectUser"
      by (cases r) auto
    then show ?thesis
      by cases (simp_all add: guess_login_def Login_split thr login_rest_def exec_def Let_def)
  qed
qed

text \<open>A wrong guess that is compared is told so, unless its failure cannot be recorded.\<close>

lemma compared_answer:
  assumes "password_compared c g w" and "wrong_guess c g (w_db w)" and "\<not> en_fail (gs_env g) CallInsertFailures"
  shows "fst (guess_login c dummy s g w) = Inl ErrInvalidCredentials"
proof -
  obtain r w1 where thr: "isThrottled (gs_env g) (userKey (gs_user g)) (addrKey (gs_addr g)) w = (r, w1)" by fastforce
  have r: "r = Inr False" and sel: "\<not> en_fail (gs_env g) CallSelectUser"
    using assms(1) thr by (simp_all add: password_compared_def)
  have keys: "pg_text (userKey (gs_user g))" "pg_text (addrKey (gs_addr g))"
    using thr r by (auto elim: isThrottled_cases)
  have users: "user_by_name (gs_user g) (w_db w1) = user_by_name (gs_user g) (w_db w)"
    using isThrottled_users [OF thr] by (simp add: user_by_name_def)
  have failed: "fst (loginFailed (gs_env g) (gs_user g) (userKey (gs_user g)) (addrKey (gs_addr g)) reason w1) =
      ErrInvalidCredentials" for reason
    using keys assms(3) by (simp add: loginFailed_def exec_def insert_failures_def)
  have refused: "fst (let (e, w2) = loginFailed (gs_env g) (gs_user g) (userKey (gs_user g)) (addrKey (gs_addr g)) reason w1
      in (Inl e, w2)) = Inl ErrInvalidCredentials" for reason
    using failed [of reason] by (simp add: case_prod_unfold)
  show ?thesis
  proof (cases "user_by_name (gs_user g) (w_db w)")
    case None
    with r sel thr users refused show ?thesis by (simp add: guess_login_def Login_split login_rest_def exec_def)
  next
    case (Some row)
    have "VerifyPassword c (gs_password g) (ur_hash row) = Inr False"
      using assms(1,2) Some
      by (cases "VerifyPassword c (gs_password g) (ur_hash row)") (auto simp: password_compared_def wrong_guess_def)
    with Some r sel thr users refused show ?thesis by (simp add: guess_login_def Login_split login_rest_def exec_def)
  qed
qed

text \<open>The failures of a key since the start of the window, which the guesses in it never prune.\<close>

definition since :: "time \<Rightarrow> string \<Rightarrow> db \<Rightarrow> nat" where
  "since t0 k d = count_where (\<lambda>f. lf_key f = k \<and> t0 \<le> lf_at f) (failures d)"

lemma since_prune:
  assumes "t \<le> t0 + throttleWindow"
  shows "since t0 k (prune_failures t d) = since t0 k d"
proof -
  have "since t0 k (prune_failures t d) =
      count_where (\<lambda>f. (lf_key f = k \<and> t0 \<le> lf_at f) \<and> \<not> lf_at f < t - throttleWindow) (failures d)"
    by (simp add: since_def prune_failures_def count_where_delete)
  also have "\<dots> = since t0 k d"
    unfolding since_def by (rule count_where_cong) (use assms in auto)
  finally show ?thesis .
qed

lemma since_recent: "t \<le> t0 + throttleWindow \<Longrightarrow> since t0 k d \<le> recent_failures t k d"
  unfolding since_def recent_failures_def by (rule count_where_mono) auto

lemma since_same: "failures d' = failures d \<Longrightarrow> since t0 k d' = since t0 k d"
  by (simp add: since_def)

lemma since_record:
  assumes "failures d' = failures (prune_failures (en_now env) d) @ login_failures_rows env nm addr"
    and "t0 \<le> en_now env" and "en_now env \<le> t0 + throttleWindow"
  shows "since t0 k d' = since t0 k d + of_bool (k = userKey nm) + of_bool (k = addrKey addr)"
proof -
  have "since t0 k d' = since t0 k (prune_failures (en_now env) d) +
      count_where (\<lambda>f. lf_key f = k \<and> t0 \<le> lf_at f) (login_failures_rows env nm addr)"
    by (simp add: since_def assms(1) count_where_append)
  with assms(2) show ?thesis
    by (auto simp: since_prune [OF assms(3)] login_failures_rows_def table_simps)
qed

text \<open>A key whose failures the throttle limits to \<open>L\<close>: every compared guess that counts for it is one of them.\<close>

lemma in_turn_limited:
  assumes "\<forall>g\<in>set gs. t0 \<le> en_now (gs_env g) \<and> en_now (gs_env g) \<le> t0 + throttleWindow"
    and "\<forall>g\<in>set gs. wrong_guess c g (w_db w)"
    and row: "\<And>g. P g \<Longrightarrow> k = userKey (gs_user g) \<or> k = addrKey (gs_addr g)"
    and low: "\<And>g t d. P g \<Longrightarrow> \<not> throttled t (gs_user g) (gs_addr g) d \<Longrightarrow> recent_failures t k d < L"
    and "since t0 k (w_db w) = n"
  shows "compared P (fst (guess_in_turn c dummy s gs w)) \<le> (L - n) + unrecorded P gs"
  using assms(1,2,5)
proof (induction gs arbitrary: w n)
  case Nil
  show ?case by (simp add: compared_def table_simps)
next
  case (Cons g gs)
  obtain r w1 where g: "guess_login c dummy s g w = (r, w1)" by fastforce
  obtain rs w2 where rest: "guess_in_turn c dummy s gs w1 = (rs, w2)" by fastforce
  have window: "t0 \<le> en_now (gs_env g)" "en_now (gs_env g) \<le> t0 + throttleWindow" using Cons.prems(1) by auto
  have IH: "compared P rs \<le> (L - m) + unrecorded P gs" if "users (w_db w1) = users (w_db w)" "since t0 k (w_db w1) = m" for m
    using Cons.IH [of w1 m] Cons.prems(1,2) that(2) rest by (simp add: wrong_guess_users [OF that(1)])
  define b where "b = password_compared c g w"
  have hit: "compared P ((g, b, r) # rs) = of_bool (P g \<and> b) + compared P rs"
    by (simp add: compared_def table_simps)
  have lost: "unrecorded P (g # gs) = of_bool (P g \<and> en_fail (gs_env g) CallInsertFailures) + unrecorded P gs"
    by (simp add: unrecorded_def table_simps)
  have "compared P ((g, b, r) # rs) \<le> (L - n) + unrecorded P (g # gs)"
    using Cons.prems(2) [THEN bspec, of g] g
  proof (cases rule: wrong_login [case_names _ other recorded])
    case (other e)
    have "b \<longrightarrow> en_fail (gs_env g) CallInsertFailures"
      using compared_answer [of c g w dummy s] Cons.prems(2) g other(1,2) by (auto simp: b_def)
    moreover have "since t0 k (w_db w1) = n"
      using other(4) Cons.prems(3) since_prune [OF window(2), of k "w_db w"] by (auto simp: since_def)
    ultimately show ?thesis using IH [OF other(3)] hit lost by simp
  next
    case recorded
    note n = since_record [OF recorded(4) window, of k, unfolded Cons.prems(3)]
    show ?thesis
    proof (cases "P g")
      case False
      with IH [OF recorded(2) n] hit lost show ?thesis by simp
    next
      case True
      have "n < L"
        using low [OF True recorded(3)] since_recent [OF window(2), of k "w_db w"] Cons.prems(3) by simp
      moreover have "compared P rs \<le> (L - Suc n) + unrecorded P gs"
        using IH [OF recorded(2) n] row [OF True] by auto
      ultimately have "Suc (compared P rs) \<le> (L - n) + unrecorded P gs" by arith
      moreover have "compared P ((g, b, r) # rs) \<le> Suc (compared P rs)" "unrecorded P gs \<le> unrecorded P (g # gs)"
        using hit lost by simp_all
      ultimately show ?thesis by linarith
    qed
  qed simp
  with g rest show ?case by (simp add: b_def)
qed

text \<open>
  C12 The throttle bounds guessing: of any wrong guesses that follow each other within one throttle
  window, at most ten are compared with the password of one account, whatever addresses they come
  from, and at most thirty from one address, whatever accounts they try, not counting those whose failure the
  database refuses to record, each of which is one more. A guess that is not compared is answered without regard to its
  password. The passwords, the order, the clocks, the database failures and the state before are arbitrary.
\<close>

theorem guessing_is_throttled:
  assumes "\<forall>g\<in>set gs. t0 \<le> en_now (gs_env g) \<and> en_now (gs_env g) \<le> t0 + throttleWindow"
    and "\<forall>g\<in>set gs. wrong_guess c g (w_db w)"
  shows "compared (\<lambda>g. gs_user g = nm) (fst (guess_in_turn c dummy s gs w)) \<le>
      throttleUserMax + unrecorded (\<lambda>g. gs_user g = nm) gs \<and>
    compared (\<lambda>g. gs_addr g = addr) (fst (guess_in_turn c dummy s gs w)) \<le>
      throttleAddrMax + unrecorded (\<lambda>g. gs_addr g = addr) gs \<and>
    (\<forall>g v pw. \<not> password_compared c g v \<longrightarrow>
       guess_login c dummy s (g\<lparr>gs_password := pw\<rparr>) v = guess_login c dummy s g v)"
proof (intro conjI allI impI)
  have "compared (\<lambda>g. gs_user g = nm) (fst (guess_in_turn c dummy s gs w)) \<le>
      (throttleUserMax - since t0 (userKey nm) (w_db w)) + unrecorded (\<lambda>g. gs_user g = nm) gs"
    by (rule in_turn_limited [OF assms, where k = "userKey nm"]) (auto simp: throttled_def)
  then show "compared (\<lambda>g. gs_user g = nm) (fst (guess_in_turn c dummy s gs w)) \<le>
      throttleUserMax + unrecorded (\<lambda>g. gs_user g = nm) gs" by simp
  have "compared (\<lambda>g. gs_addr g = addr) (fst (guess_in_turn c dummy s gs w)) \<le>
      (throttleAddrMax - since t0 (addrKey addr) (w_db w)) + unrecorded (\<lambda>g. gs_addr g = addr) gs"
    by (rule in_turn_limited [OF assms, where k = "addrKey addr"]) (auto simp: throttled_def)
  then show "compared (\<lambda>g. gs_addr g = addr) (fst (guess_in_turn c dummy s gs w)) \<le>
      throttleAddrMax + unrecorded (\<lambda>g. gs_addr g = addr) gs" by simp
qed (rule uncompared_is_blind)

text \<open>A client that tries one wrong password again and again.\<close>

definition demo_guess :: guess where
  "demo_guess = \<lparr>gs_env = demo_env, gs_rnd = Some (\<lambda>_. 9), gs_user = ''bob'', gs_password = ''wrong'',
     gs_addr = ''10.0.0.7''\<rparr>"

lemma demo_guess_fields [simp]:
  "gs_env demo_guess = demo_env" "gs_user demo_guess = ''bob''" "gs_password demo_guess = ''wrong''"
  "gs_addr demo_guess = ''10.0.0.7''"
  by (simp_all add: demo_guess_def)

lemma demo_guess_wrong:
  assumes "HashPassword demo_crypto (Some (\<lambda>_. 3)) ''correct horse'' = Inr h"
  shows "wrong_guess demo_crypto demo_guess (w_db (demo_account h))"
  by (simp add: wrong_guess_def demo_account_user demo_wrong [OF assms])

theorem guessing_is_throttled_witness:
  "\<exists>h. HashPassword demo_crypto (Some (\<lambda>_. 3)) ''correct horse'' = Inr h \<and>
     compared (\<lambda>g. gs_user g = ''bob'')
       (fst (guess_in_turn demo_crypto [] NewService (replicate 1000 demo_guess) (demo_account h))) \<le> 10 \<and>
     password_compared demo_crypto demo_guess (demo_account h)"
proof -
  obtain h where h: "HashPassword demo_crypto (Some (\<lambda>_. 3)) ''correct horse'' = Inr h"
    using demo_hash by blast
  have "unrecorded (\<lambda>g. gs_user g = ''bob'') (replicate 1000 demo_guess) = 0"
    by (simp add: unrecorded_def count_where_zero demo_env_def)
  moreover have "compared (\<lambda>g. gs_user g = ''bob'')
      (fst (guess_in_turn demo_crypto [] NewService (replicate 1000 demo_guess) (demo_account h))) \<le>
      throttleUserMax + unrecorded (\<lambda>g. gs_user g = ''bob'') (replicate 1000 demo_guess)"
    by (rule guessing_is_throttled [THEN conjunct1, of _ "en_now demo_env"])
      (auto simp: demo_guess_wrong [OF h] throttle_defs)
  moreover have "password_compared demo_crypto demo_guess (demo_account h)"
  proof -
    have "fst (isThrottled demo_env (userKey ''bob'') (addrKey ''10.0.0.7'') (demo_account h)) = Inr False"
      using demo_login_premises(3) [OF h] demo_keys
      by (simp add: isThrottled_def exec_def demo_env_def throttled_def recent_after_prune not_le)
    then show ?thesis
      by (simp add: password_compared_def demo_account_user demo_wrong [OF h]) (simp add: demo_env_def)
  qed
  ultimately show ?thesis using h by (simp add: throttle_defs)
qed

section \<open>Guesses that overlap\<close>

text \<open>
  A request in the middle of its login: before the throttle check, past it, or answered. A step runs
  it up to its next stop; two steps are the whole login. (The check is itself two statements and the
  rest several, so that the interleavings of the code are a superset of these.)
\<close>

datatype phase = Arrived | Admitted | Answered login_result

definition login_step :: "crypto \<Rightarrow> service \<Rightarrow> guess \<Rightarrow> phase \<Rightarrow> world \<Rightarrow> phase \<times> world" where
  "login_step c s g p w =
     (case p of
        Arrived \<Rightarrow>
          (case isThrottled (gs_env g) (userKey (gs_user g)) (addrKey (gs_addr g)) w of
             (Inl e, w1) \<Rightarrow> (Answered (Inl e), w1)
           | (Inr True, w1) \<Rightarrow> (Answered (Inl ErrThrottled), Record (gs_env g)
               (service_event [] (gs_user g) ''auth.login'' (gs_user g) ResultDenied ''throttled'') w1)
           | (Inr False, w1) \<Rightarrow> (Admitted, w1))
      | Admitted \<Rightarrow>
          (let (r, w1) = login_rest (gs_env g) c (gs_rnd g) s (gs_user g) (gs_password g) (gs_addr g) w
           in (Answered r, w1))
      | Answered r \<Rightarrow> (Answered r, w))"

lemma two_steps_login:
  "(let (p, w1) = login_step c s g Arrived w in login_step c s g p w1) =
     (let (r, w1) = guess_login c dummy s g w in (Answered r, w1))"
proof -
  obtain r w1 where thr: "isThrottled (gs_env g) (userKey (gs_user g)) (addrKey (gs_addr g)) w = (r, w1)"
    by fastforce
  consider e where "r = Inl e" | "r = Inr True" | "r = Inr False" by (metis (full_types) sum.exhaust)
  then show ?thesis
    by cases (simp_all add: thr login_step_def guess_login_def Login_split Let_def split: prod.split)
qed

text \<open>A round gives every request one step, in the order of the list.\<close>

primrec round_of ::
  "crypto \<Rightarrow> service \<Rightarrow> (guess \<times> phase) list \<Rightarrow> world \<Rightarrow> (guess \<times> phase) list \<times> world" where
  "round_of c s [] w = ([], w)"
| "round_of c s (x # xs) w =
     (let (p, w1) = login_step c s (fst x) (snd x) w; (ys, w2) = round_of c s xs w1 in ((fst x, p) # ys, w2))"

definition guess_at_once :: "crypto \<Rightarrow> service \<Rightarrow> guess list \<Rightarrow> world \<Rightarrow> (guess \<times> phase) list \<times> world" where
  "guess_at_once c s gs w =
     (let (xs, w1) = round_of c s (map (\<lambda>g. (g, Arrived)) gs) w in round_of c s xs w1)"

text \<open>A wrong guess of one account at one instant, with a database that answers.\<close>

definition plain_guess :: "crypto \<Rightarrow> time \<Rightarrow> user_row \<Rightarrow> guess \<Rightarrow> bool" where
  "plain_guess c t row g \<longleftrightarrow> gs_user g = ur_username row \<and> en_now (gs_env g) = t \<and>
     (\<forall>call. \<not> en_fail (gs_env g) call) \<and> pg_text (userKey (gs_user g)) \<and> pg_text (addrKey (gs_addr g)) \<and>
     VerifyPassword c (gs_password g) (ur_hash row) = Inr False"

lemma prune_prune [simp]: "prune_failures t (prune_failures t d) = prune_failures t d"
  by (simp add: prune_failures_def delete_where_def)

lemma throttled_prune [simp]: "throttled t nm addr (prune_failures t d) = throttled t nm addr d"
  by (simp add: throttled_def recent_after_prune)

lemma first_round:
  assumes "\<forall>g\<in>set gs. plain_guess c t row g \<and> \<not> throttled t (gs_user g) (gs_addr g) (w_db w)" and "gs \<noteq> []"
  shows "round_of c s (map (\<lambda>g. (g, Arrived)) gs) w =
    (map (\<lambda>g. (g, Admitted)) gs, w\<lparr>w_db := prune_failures t (w_db w)\<rparr>)"
  using assms
proof (induction gs arbitrary: w)
  case (Cons g gs)
  let ?w = "w\<lparr>w_db := prune_failures t (w_db w)\<rparr>"
  have g: "plain_guess c t row g" "\<not> throttled t (gs_user g) (gs_addr g) (w_db w)" using Cons.prems by auto
  then have "isThrottled (gs_env g) (userKey (gs_user g)) (addrKey (gs_addr g)) w = (Inr False, ?w)"
    by (auto simp: isThrottled_def exec_def plain_guess_def throttled_def recent_after_prune)
  then have "login_step c s g Arrived w = (Admitted, ?w)" by (simp add: login_step_def)
  moreover have "round_of c s (map (\<lambda>g. (g, Arrived)) gs) ?w = (map (\<lambda>g. (g, Admitted)) gs, ?w)"
    using Cons.IH [of ?w] Cons.prems by (cases gs) auto
  ultimately show ?case by simp
qed simp

lemma second_round:
  assumes "\<forall>g\<in>set gs. plain_guess c t row g" and "user_by_name (ur_username row) (w_db w) = Some row"
    and "round_of c s (map (\<lambda>g. (g, Admitted)) gs) w = (xs, w')"
  shows "xs = map (\<lambda>g. (g, Answered (Inl ErrInvalidCredentials))) gs \<and>
    recent_failures t (userKey (ur_username row)) (w_db w') =
    recent_failures t (userKey (ur_username row)) (w_db w) + length gs"
  using assms
proof (induction gs arbitrary: w xs w')
  case (Cons g gs)
  let ?k = "userKey (ur_username row)"
  have g: "plain_guess c t row g" using Cons.prems(1) by simp
  obtain r w1 where rest: "login_rest (gs_env g) c (gs_rnd g) s (gs_user g) (gs_password g) (gs_addr g) w = (r, w1)"
    by fastforce
  define d1 where "d1 = (w_db w)\<lparr>failures := failures (w_db w) @ login_failures_rows (gs_env g) (gs_user g) (gs_addr g)\<rparr>"
  have w1: "r = Inl ErrInvalidCredentials" "w1 = Record (gs_env g) (service_event [] (gs_user g) ''auth.login''
      (gs_user g) ResultDenied ''wrong_password'') (w\<lparr>w_db := d1\<rparr>)"
    using rest g Cons.prems(2)
    by (auto simp: login_rest_def loginFailed_def exec_def insert_failures_def plain_guess_def d1_def
        login_failures_rows_def Let_def)
  have n: "recent_failures t ?k (w_db w1) = Suc (recent_failures t ?k (w_db w))"
    using g by (simp add: recent_failures_def w1(2) d1_def plain_guess_def login_failures_rows_def table_simps
        throttleWindow_def)
  have user: "user_by_name (ur_username row) (w_db w1) = Some row"
    using Cons.prems(2) by (simp add: user_by_name_def w1(2) d1_def)
  obtain ys w2 where ys: "round_of c s (map (\<lambda>g. (g, Admitted)) gs) w1 = (ys, w2)" by fastforce
  have "xs = (g, Answered r) # ys" "w' = w2"
    using Cons.prems(3) rest ys by (simp_all add: login_step_def)
  with Cons.IH [OF _ user ys] Cons.prems(1) w1(1) n show ?case by simp
qed simp

text \<open>
  C36 Guesses at once outrun the throttle: however many wrong passwords for one account are sent at
  one instant, if all requests pass the check before the first failure is recorded, every one of them
  is compared with the password; the failures of the account then exceed the limit by any number.
\<close>

theorem throttle_is_outrun:
  assumes "\<forall>g\<in>set gs. plain_guess c t row g \<and> \<not> throttled t (gs_user g) (gs_addr g) (w_db w)"
    and "user_by_name (ur_username row) (w_db w) = Some row"
    and "guess_at_once c s gs w = (xs, w')"
  shows "xs = map (\<lambda>g. (g, Answered (Inl ErrInvalidCredentials))) gs \<and>
    recent_failures t (userKey (ur_username row)) (w_db w') =
    recent_failures t (userKey (ur_username row)) (w_db w) + length gs"
proof (cases "gs = []")
  case True
  with assms(3) show ?thesis by (simp add: guess_at_once_def)
next
  case False
  let ?w = "w\<lparr>w_db := prune_failures t (w_db w)\<rparr>"
  have "round_of c s (map (\<lambda>g. (g, Admitted)) gs) ?w = (xs, w')"
    using assms(3) by (simp add: guess_at_once_def first_round [OF assms(1) False])
  then have "xs = map (\<lambda>g. (g, Answered (Inl ErrInvalidCredentials))) gs \<and>
      recent_failures t (userKey (ur_username row)) (w_db w') =
      recent_failures t (userKey (ur_username row)) (w_db ?w) + length gs"
    using assms(1,2) by (intro second_round) (auto simp: user_by_name_def)
  then show ?thesis by (simp add: recent_after_prune)
qed

lemma demo_guess_plain:
  assumes "HashPassword demo_crypto (Some (\<lambda>_. 3)) ''correct horse'' = Inr h"
  shows "plain_guess demo_crypto (en_now demo_env) ((demo_user_row ''02'' ''bob'' ''user'')\<lparr>ur_hash := h\<rparr>) demo_guess"
  using demo_wrong [OF assms] demo_keys demo_request(1) by (simp add: plain_guess_def demo_user_row_def)

text \<open>A thousand guesses at once are all compared; one after the other, ten of them would be.\<close>

theorem throttle_is_outrun_witness:
  "\<exists>h xs w'. HashPassword demo_crypto (Some (\<lambda>_. 3)) ''correct horse'' = Inr h \<and>
     guess_at_once demo_crypto NewService (replicate 1000 demo_guess) (demo_account h) = (xs, w') \<and>
     recent_failures (en_now demo_env) (userKey ''bob'') (w_db w') = 1000"
proof -
  obtain h where h: "HashPassword demo_crypto (Some (\<lambda>_. 3)) ''correct horse'' = Inr h"
    using demo_hash by blast
  obtain xs w' where run: "guess_at_once demo_crypto NewService (replicate 1000 demo_guess) (demo_account h) = (xs, w')"
    by fastforce
  let ?row = "(demo_user_row ''02'' ''bob'' ''user'')\<lparr>ur_hash := h\<rparr>"
  have nm: "ur_username ?row = ''bob''" by (simp add: demo_user_row_def)
  have "\<not> throttled (en_now demo_env) (gs_user demo_guess) (gs_addr demo_guess) (w_db (demo_account h))"
    using demo_login_premises(3) [OF h] by simp
  then have "recent_failures (en_now demo_env) (userKey ''bob'') (w_db w') =
      recent_failures (en_now demo_env) (userKey ''bob'') (w_db (demo_account h)) + 1000"
    using throttle_is_outrun [OF _ _ run, of "en_now demo_env" ?row] demo_guess_plain [OF h] demo_account_user [of h]
    unfolding nm by auto
  moreover have "recent_failures (en_now demo_env) (userKey ''bob'') (w_db (demo_account h)) = 0"
    by (simp add: recent_failures_def demo_account_def empty_db_def table_simps)
  ultimately show ?thesis using h run by auto
qed

section \<open>A login that is overtaken by a password change\<close>

text \<open>
  \<open>login_rest\<close> with a window: \<open>rv\<close> is what other sessions do while the password is compared, after the
  account row has been read. (The comparison is the slow part of a login: one run of Argon2id.)
\<close>

definition login_rest_during ::
  "(world \<Rightarrow> world) \<Rightarrow> env \<Rightarrow> crypto \<Rightarrow> rand_source \<Rightarrow> service \<Rightarrow> string \<Rightarrow> string \<Rightarrow> string
   \<Rightarrow> world \<Rightarrow> login_result \<times> world" where
  "login_rest_during rv env c rnd s username password clientAddr w1 =
     (let refuse = (\<lambda>reason. let (e, w2) = loginFailed env username (userKey username) (addrKey clientAddr) reason (rv w1)
                            in (Inl e, w2)) in
      case exec env CallSelectUser (Inr (user_by_name username (w_db w1))) of
        Inl _ \<Rightarrow> (Inl (ErrAuthOther ''auth: look up user''), w1)
      | Inr None \<Rightarrow> refuse ''unknown_user''
      | Inr (Some row) \<Rightarrow>
      case VerifyPassword c password (ur_hash row) of
        Inl _ \<Rightarrow> (Inl (ErrAuthOther ''auth: verify password''), rv w1)
      | Inr False \<Rightarrow> refuse ''wrong_password''
      | Inr True \<Rightarrow> login_success env c rnd s username row (rv w1))"

lemma login_rest_undisturbed: "login_rest_during (\<lambda>w. w) = login_rest"
  by (intro ext) (simp add: login_rest_during_def login_rest_def)

lemma login_rest_during_Inr:
  assumes "login_rest_during rv env c rnd s nm pw addr w = (Inr x, w')"
  obtains row where "user_by_name nm (w_db w) = Some row" "VerifyPassword c pw (ur_hash row) = Inr True"
    "login_success env c rnd s nm row (rv w) = (Inr x, w')"
  using assms
  by (auto simp: login_rest_during_def Let_def exec_def split: if_splits option.splits sum.splits bool.splits
      prod.splits)

text \<open>A changed password leaves the accounts with the names and roles they had.\<close>

lemma update_password_user:
  assumes "user_by_id uid d = Some row"
  shows "\<exists>x. user_by_id uid (update_password v h t d) = Some x \<and> ur_id x = uid \<and>
    ur_username x = ur_username row \<and> ur_role x = ur_role row"
proof -
  have "query_row (\<lambda>u. ur_id u = uid) (update_where (\<lambda>x. ur_id x = v) (\<lambda>x. x\<lparr>ur_hash := h, ur_changed := t\<rparr>) us) =
      map_option (\<lambda>x. if ur_id x = v then x\<lparr>ur_hash := h, ur_changed := t\<rparr> else x) (query_row (\<lambda>u. ur_id u = uid) us)"
    for us :: "user_row list"
    by (induction us) (simp_all add: query_row_def update_where_def)
  with assms query_row_Some [OF assms [unfolded user_by_id_def]] show ?thesis
    by (simp add: user_by_id_def update_password_def)
qed

text \<open>
  C37 The old password outlives its change: when a login with the old password has read the account and the
  password is changed while it compares, then both succeed, and the session of that login serves the account
  after the change, although the change revokes all sessions.
\<close>

theorem old_password_outlives_change:
  assumes "schema_ok (w_db w)" and "user_by_name nm (w_db w) = Some row" and "u_ID p = ur_id row"
    and "fst (ChangePassword envc c rs rt s p pw new w) = Inr other"
    and "login_rest_during (\<lambda>v. snd (ChangePassword envc c rs rt s p pw new v)) env c rnd s nm pw addr w =
      (Inr (token, q), w')"
    and "\<not> en_fail env' CallTouchSession"
  shows "fst (ValidateSession env' c s token w') =
    (if en_now env' < en_now env + sv_absolute s \<and> en_now env' < en_now env + sv_idle s
     then Inr q else Inl ErrSessionInvalid) \<and> u_ID q = u_ID p"
proof -
  obtain w1 where ch: "ChangePassword envc c rs rt s p pw new w = (Inr other, w1)"
    using assms(4) by (metis prod.collapse)
  obtain row' where r: "user_by_name nm (w_db w) = Some row'" and ok: "login_success env c rnd s nm row' w1 = (Inr (token, q), w')"
    using assms(5) ch by (auto elim: login_rest_during_Inr)
  then have "row' = row" using assms(2) by simp
  have row: "row \<in> set (users (w_db w))" "ur_username row = nm"
    using query_row_Some [OF assms(2) [unfolded user_by_name_def]] by simp_all
  then have "user_by_id (ur_id row) (w_db w) = Some row"
    using query_row_key [of ur_id "users (w_db w)" row] schema_parts(1) [OF assms(1)] by (simp add: user_by_id_def users_ok_def)
  note user = update_password_user [OF this]
  obtain h where "users (w_db w1) = users (update_password (u_ID p) h (en_now envc) (w_db w))"
    using ch by (cases rule: ChangePassword_cases) (auto simp: update_password_def)
  then obtain x where x: "user_by_id (ur_id row) (w_db w1) = Some x" "ur_id x = ur_id row" "ur_username x = nm"
      "ur_role x = ur_role row"
    using user [of "u_ID p" h "en_now envc"] row(2) by (auto simp: user_by_id_def)
  from ok show ?thesis
    unfolding \<open>row' = row\<close>
  proof (cases rule: login_success_cases)
    case (ok t)
    then have t: "t = token" "q = \<lparr>u_ID = ur_id row, u_Username = nm, u_Role = ur_role row\<rparr>" by simp_all
    have core: "core (w_db w') = core ((w_db w1)\<lparr>failures := filter (\<lambda>f. lf_key f \<noteq> userKey nm) (failures (w_db w1)),
        sessions := sessions (w_db w1) @ [fresh_session env c s (ur_id row) token]\<rparr>)"
      using ok(4) by (simp add: login_effect_def t)
    have ses: "sessions (w_db w') = sessions (w_db w1) @ [fresh_session env c s (ur_id row) token]"
      using core_eqD(2) [OF core] by simp
    have byid: "user_by_id (ur_id row) (w_db w') = Some x"
      using x(1) core_eqD(1) [OF core] by (simp add: user_by_id_def)
    have "token \<noteq> []" using NewSessionToken_length [OF ok(1)] t by auto
    from fresh_session_window [OF ses _ byid this assms(6)] ok(3) t x(2-4) assms(3) show ?thesis by simp
  qed simp
qed

text \<open>A deployment whose digests tell tokens apart, and the two sessions in it.\<close>

definition race_crypto :: crypto where
  "race_crypto = demo_crypto\<lparr>c_sha256 := (\<lambda>m. take 32 (m @ replicate 32 0))\<rparr>"

lemma race_passwords:
  "HashPassword race_crypto = HashPassword demo_crypto" "VerifyPassword race_crypto = VerifyPassword demo_crypto"
proof -
  have argon: "c_argon2id race_crypto = c_argon2id demo_crypto" by (simp add: race_crypto_def demo_crypto_def)
  show "HashPassword race_crypto = HashPassword demo_crypto"
    by (intro ext) (simp only: HashPassword_def argon)
  show "VerifyPassword race_crypto = VerifyPassword demo_crypto"
    by (intro ext) (simp only: VerifyPassword_def argon)
qed

lemma race_tokens:
  obtains t t' where "NewSessionToken race_crypto (Some (\<lambda>_. 9)) = Some (t, HashToken race_crypto t)"
    "NewSessionToken race_crypto (Some (\<lambda>_. 200)) = Some (t', HashToken race_crypto t')"
    "HashToken race_crypto t' \<noteq> HashToken race_crypto t"
proof -
  obtain t t' where t: "NewSessionToken race_crypto (Some (\<lambda>_. 9)) = Some (t, HashToken race_crypto t)"
    "NewSessionToken race_crypto (Some (\<lambda>_. 200)) = Some (t', HashToken race_crypto t')"
    using NewSessionToken_Some by metis
  have "map_option snd (NewSessionToken race_crypto (Some (\<lambda>_. 200))) \<noteq>
      map_option snd (NewSessionToken race_crypto (Some (\<lambda>_. 9)))"
    by code_simp
  with t that show thesis by simp
qed

lemma login_success_runs:
  assumes "\<forall>call. \<not> en_fail env call" and "NewSessionToken c rnd = Some (token, h)"
    and "h \<notin> se_token_hash ` set (sessions (w_db w))" and "\<exists>x\<in>set (users (w_db w)). ur_id x = ur_id row"
  shows "fst (login_success env c rnd s nm row w) = Inr (token, \<lparr>u_ID = ur_id row, u_Username = nm, u_Role = ur_role row\<rparr>)"
  using assms by (auto simp: login_success_def createSession_def exec_def insert_session_def image_iff)

definition race_change :: "world \<Rightarrow> (auth_error + string) \<times> world" where
  "race_change = ChangePassword demo_env race_crypto (Some (\<lambda>_. 4)) (Some (\<lambda>_. 9)) NewService
     (demo_user ''02'' ''bob'' ''user'') ''correct horse'' ''battery staple''"

lemma race_change_runs:
  assumes h: "HashPassword demo_crypto (Some (\<lambda>_. 3)) ''correct horse'' = Inr h"
    and t: "NewSessionToken race_crypto (Some (\<lambda>_. 9)) = Some (t, HashToken race_crypto t)"
  obtains w1 where "race_change (demo_account h) = (Inr t, w1)" "map ur_id (users (w_db w1)) = [demo_id ''02'']"
    "se_token_hash ` set (sessions (w_db w1)) = {HashToken race_crypto t}"
proof -
  obtain h2 where h2: "HashPassword race_crypto (Some (\<lambda>_. 4)) ''battery staple'' = Inr h2"
    unfolding race_passwords using demo_hash by blast
  let ?p = "demo_user ''02'' ''bob'' ''user''"
  define row where "row = (demo_user_row ''02'' ''bob'' ''user'')\<lparr>ur_hash := h\<rparr>"
  have byid: "user_by_id (u_ID ?p) (w_db (demo_account h)) = Some row"
    by (simp add: user_by_id_def demo_account_def table_simps demo_user_row_def demo_user_def row_def)
  have v: "VerifyPassword race_crypto ''correct horse'' (ur_hash row) = Inr True"
    using verify_hashed [OF demo_crypto_ok h] by (simp add: race_passwords row_def)
  have pol: "password_ok ''battery staple''"
    by (simp add: password_ok_def passwordMinLen_def passwordMaxLen_def)
  have "fst (race_change (demo_account h)) = Inr t"
    unfolding race_change_def
    by (rule ChangePassword_succeeds [OF demo_request(1) pol byid v h2 t demo_login_premises(1) [OF h]])
  then obtain w1 where w1: "race_change (demo_account h) = (Inr t, w1)" by (metis prod.collapse)
  then have "users (w_db w1) = users (update_password (u_ID ?p) h2 (en_now demo_env) (w_db (demo_account h))) \<and>
      se_token_hash ` set (sessions (w_db w1)) = {HashToken race_crypto t}"
    unfolding race_change_def
    by (cases rule: ChangePassword_cases)
      (use h2 in \<open>auto simp: update_password_def demo_account_def empty_db_def delete_where_def fresh_session_def\<close>)
  with w1 that show thesis
    by (auto simp: update_password_def demo_account_def demo_user_row_def update_where_def)
qed

theorem old_password_outlives_change_witness:
  "\<exists>h other token q w'. HashPassword demo_crypto (Some (\<lambda>_. 3)) ''correct horse'' = Inr h \<and>
     fst (race_change (demo_account h)) = Inr other \<and>
     login_rest_during (\<lambda>v. snd (race_change v)) demo_env race_crypto (Some (\<lambda>_. 200)) NewService ''bob''
       ''correct horse'' ''10.0.0.7'' (demo_account h) = (Inr (token, q), w') \<and>
     fst (ValidateSession demo_env race_crypto NewService token w') = Inr q"
proof -
  obtain h where h: "HashPassword demo_crypto (Some (\<lambda>_. 3)) ''correct horse'' = Inr h" using demo_hash by blast
  obtain t t' where t: "NewSessionToken race_crypto (Some (\<lambda>_. 9)) = Some (t, HashToken race_crypto t)"
    "NewSessionToken race_crypto (Some (\<lambda>_. 200)) = Some (t', HashToken race_crypto t')"
    "HashToken race_crypto t' \<noteq> HashToken race_crypto t" by (rule race_tokens)
  obtain w1 where w1: "race_change (demo_account h) = (Inr t, w1)" "map ur_id (users (w_db w1)) = [demo_id ''02'']"
      "se_token_hash ` set (sessions (w_db w1)) = {HashToken race_crypto t}"
    by (rule race_change_runs [OF h t(1)])
  define row where "row = (demo_user_row ''02'' ''bob'' ''user'')\<lparr>ur_hash := h\<rparr>"
  have byname: "user_by_name ''bob'' (w_db (demo_account h)) = Some row"
    unfolding row_def by (rule demo_account_user)
  have id: "u_ID (demo_user ''02'' ''bob'' ''user'') = ur_id row" "ur_id row = demo_id ''02''"
    by (simp_all add: demo_user_row_def demo_user_def row_def)
  have v: "VerifyPassword race_crypto ''correct horse'' (ur_hash row) = Inr True"
    using verify_hashed [OF demo_crypto_ok h] by (simp add: race_passwords row_def)
  have "\<exists>x\<in>set (users (w_db w1)). ur_id x = ur_id row" using w1(2) id(2) by (auto simp: map_eq_Cons_conv)
  with t(3) w1(3) have "fst (login_success demo_env race_crypto (Some (\<lambda>_. 200)) NewService ''bob'' row w1) =
      Inr (t', \<lparr>u_ID = ur_id row, u_Username = ''bob'', u_Role = ur_role row\<rparr>)"
    by (intro login_success_runs [OF demo_request(1) t(2)]) auto
  then obtain q w' where w': "login_success demo_env race_crypto (Some (\<lambda>_. 200)) NewService ''bob'' row w1 = (Inr (t', q), w')"
    by (metis prod.collapse)
  have run: "login_rest_during (\<lambda>v. snd (race_change v)) demo_env race_crypto (Some (\<lambda>_. 200)) NewService ''bob''
      ''correct horse'' ''10.0.0.7'' (demo_account h) = (Inr (t', q), w')"
    using demo_request(1) byname v w1(1) w' by (simp add: login_rest_during_def exec_def)
  have ok: "fst (race_change (demo_account h)) = Inr t" by (simp add: w1(1))
  have "fst (ValidateSession demo_env race_crypto NewService t' w') = Inr q"
    using old_password_outlives_change [OF demo_account_ok byname id(1) ok [unfolded race_change_def]
        run [unfolded race_change_def], of demo_env] demo_request(1)
    by (simp add: NewService_def sessionIdleTTL_def sessionAbsoluteTTL_def)
  with h ok run show ?thesis by blast
qed

end
