(* ===== verification/Registration_Lock.thy ===== *)
theory Registration_Lock
  imports Auth_Properties
begin

text \<open>
  Registrations that overlap: \<^verbatim>\<open>Service.Register\<close> (\<^verbatim>\<open>internal/auth/service.go\<close>) and
  \<^verbatim>\<open>admitRegistration\<close> (\<^verbatim>\<open>registration.go\<close>), one step for each statement that goes to the database, with the
  advisory lock that serializes them, the row lock on the invite, the connections of the pool, the writes that
  nobody sees before the \<^verbatim>\<open>COMMIT\<close>, and the audit events that are recorded outside the transaction. The lock does
  what its comment promises: every interleaving is a sequence of whole registrations. But the holder of the lock needs
  a second connection to record a refusal, and the requests that wait for the lock can hold them all.
\<close>

section \<open>The statements of a registration\<close>

record reg_request =
  rr_env :: env
  rr_rnd :: rand_source
  rr_uuid :: string
  rr_username :: string
  rr_password :: string
  rr_code :: string

text \<open>Before the transaction: the policies, the password hash, the call that begins it.\<close>

definition register_entry :: "crypto \<Rightarrow> reg_request \<Rightarrow> auth_error + string" where
  "register_entry c q =
     (if \<not> usernameRe (rr_username q) then Inl ErrUsernamePolicy else
      if \<not> password_ok (rr_password q) then Inl ErrPasswordPolicy else
      case HashPassword c (rr_rnd q) (rr_password q) of
        Inl _ \<Rightarrow> Inl (ErrAuthOther ''auth: generate salt'')
      | Inr hash \<Rightarrow>
          if en_fail (rr_env q) CallBegin then Inl (ErrAuthOther ''auth: begin registration'') else Inr hash)"

definition admit :: "crypto \<Rightarrow> unicode \<Rightarrow> service \<Rightarrow> reg_request \<Rightarrow> world
   \<Rightarrow> (auth_error + string \<times> string) \<times> world" where
  "admit c u s q = admitRegistration (rr_env q) c u s (rr_username q) (rr_code q)"

text \<open>
  What a statement of the admission decides: an error, a refusal that is audited under a reason code, the
  question whether a code belongs to an invite, or an admission with its audit reason and the invite to consume.
\<close>

datatype verdict = Refuse auth_error | Deny string auth_error | Lookup string | Admit string string

definition count_users :: "unicode \<Rightarrow> service \<Rightarrow> reg_request \<Rightarrow> world \<Rightarrow> verdict" where
  "count_users u s q w =
     (case exec (rr_env q) CallCountUsers (Inr (int (length (users (w_db w))))) of
        Inl _ \<Rightarrow> Refuse (ErrAuthOther ''auth: count users'')
      | Inr count \<Rightarrow>
      if count = 0 then Admit ''bootstrap'' [] else
      if rp_MaxUsers (sv_policy s) > 0 \<and> count \<ge> rp_MaxUsers (sv_policy s)
      then Deny ''user_limit'' ErrUserLimitReached else
      if rp_Mode (sv_policy s) = RegistrationClosed then Deny ''registration_closed'' ErrRegistrationClosed else
      if rp_Mode (sv_policy s) = RegistrationInvite then
        let code = normalizeInviteCode u (rr_code q)
        in if code = [] then Deny ''invite_required'' ErrInviteRequired else Lookup code
      else Admit ''open'' [])"

definition select_invite :: "crypto \<Rightarrow> reg_request \<Rightarrow> string \<Rightarrow> world \<Rightarrow> verdict" where
  "select_invite c q code w =
     (case exec (rr_env q) CallSelectInvite
             (Inr (query_row (redeemable (en_now (rr_env q)) (HashToken c code)) (invites (w_db w)))) of
        Inl _ \<Rightarrow> Refuse (ErrAuthOther ''auth: look up invite'')
      | Inr None \<Rightarrow> Deny ''invite_invalid'' ErrInviteInvalid
      | Inr (Some r) \<Rightarrow> Admit ''invite'' (i_id r))"

text \<open>The refusals that are audited while the transaction is still open.\<close>

definition is_denial :: "auth_error \<Rightarrow> bool" where
  "is_denial e \<longleftrightarrow> e \<in> {ErrUserLimitReached, ErrRegistrationClosed, ErrInviteRequired, ErrInviteInvalid}"

text \<open>The statements one after the other are the admission.\<close>

definition decided :: "reg_request \<Rightarrow> verdict \<Rightarrow> world \<Rightarrow> (auth_error + string \<times> string) \<times> world" where
  "decided q v w = (case v of
     Refuse e \<Rightarrow> (Inl e, w)
   | Deny reason e \<Rightarrow> (Inl e, deny_registration (rr_env q) (rr_username q) reason w)
   | Lookup code \<Rightarrow> (Inl ErrInviteRequired, w)
   | Admit reason inviteID \<Rightarrow> (Inr (reason, inviteID), w))"

lemma admit_split:
  "admit c u s q w =
     (if en_fail (rr_env q) CallLockRegistration then (Inl (ErrAuthOther ''auth: lock registrations''), w) else
      case count_users u s q w of
        Lookup code \<Rightarrow> decided q (select_invite c q code w) w
      | v \<Rightarrow> decided q v w)"
  by (simp add: admit_def admitRegistration_def count_users_def select_invite_def decided_def exec_def Let_def
      split: option.split)

lemma select_invite_not_Lookup [simp]: "select_invite c q code w \<noteq> Lookup code'"
  by (simp add: select_invite_def exec_def split: option.split)

lemma verdict_denials:
  "count_users u s q w = Deny reason e \<Longrightarrow> is_denial e" "select_invite c q code w = Deny reason e \<Longrightarrow> is_denial e"
  "count_users u s q w = Refuse e \<Longrightarrow> \<not> is_denial e" "select_invite c q code w = Refuse e \<Longrightarrow> \<not> is_denial e"
  by (auto simp: count_users_def select_invite_def exec_def is_denial_def Let_def split: option.splits if_splits)

text \<open>After the admission: the account, the invite, the commit, and the audit events that follow it.\<close>

definition register_tx :: "reg_request \<Rightarrow> string \<Rightarrow> string \<Rightarrow> string \<Rightarrow> world
   \<Rightarrow> (auth_error + user) \<times> world" where
  "register_tx q hash reason inviteID w1 =
     (let env = rr_env q in
      case exec env CallInsertUser (insert_user (new_user env (rr_uuid q) (rr_username q) hash) (w_db w1)) of
        Inl UniqueViolation \<Rightarrow> (Inl ErrUsernameTaken, w1)
      | Inl _ \<Rightarrow> (Inl (ErrAuthOther ''auth: create user''), w1)
      | Inr d2 \<Rightarrow>
      case (if inviteID \<noteq> [] then exec env CallConsumeInvite (Inr (consume_invite inviteID (rr_uuid q) (en_now env) d2))
            else Inr d2) of
        Inl _ \<Rightarrow> (Inl (ErrAuthOther ''auth: consume invite''), w1)
      | Inr d3 \<Rightarrow>
      case commit_tx env (w_db w1) d3 of
        (False, d) \<Rightarrow> (Inl (ErrAuthOther ''auth: commit registration''), w1\<lparr>w_db := d\<rparr>)
      | (True, d) \<Rightarrow>
          let p = \<lparr>u_ID = rr_uuid q, u_Username = rr_username q, u_Role = roleUser\<rparr>
          in (Inr p, register_audit env p reason inviteID (w1\<lparr>w_db := d\<rparr>)))"

definition register_one :: "crypto \<Rightarrow> unicode \<Rightarrow> service \<Rightarrow> reg_request \<Rightarrow> world
   \<Rightarrow> (auth_error + user) \<times> world" where
  "register_one c u s q = Register (rr_env q) c u (rr_rnd q) (rr_uuid q) s (rr_username q) (rr_password q) (rr_code q)"

lemma Register_split:
  "register_one c u s q w =
     (case register_entry c q of
        Inl e \<Rightarrow> (Inl e, w)
      | Inr hash \<Rightarrow>
      case admit c u s q w of
        (Inl e, w1) \<Rightarrow> (Inl e, w1)
      | (Inr (reason, inviteID), w1) \<Rightarrow> register_tx q hash reason inviteID w1)"
proof -
  obtain v w1 where adm: "admitRegistration (rr_env q) c u s (rr_username q) (rr_code q) w = (v, w1)" by fastforce
  show ?thesis
    by (cases v) (simp_all add: adm register_one_def Register_def register_entry_def admit_def register_tx_def
        new_user_def Let_def split: sum.split prod.split)
qed

section \<open>Many at once\<close>

text \<open>
  Where a request is: outside; in a transaction that waits for the lock; with the lock; looking for its invite;
  refused, with the audit event still to be recorded; admitted; with the account written but not its invite; with all
  written; on an error path before the rollback; committed, or that and the registration audited, with an audit event
  still to be recorded; answered; or abandoned by its client.
\<close>

datatype stage = Outside | Waiting string | Locked string | Looking string string | Denying string auth_error
  | Admitted string string string | Inserted string string string | Ready string string string
  | Ending auth_error | Committed user string string | Redeeming user string
  | Finished "auth_error + user" | Gone

text \<open>The last field is no part of the program: it lists what the other operations did, in their order.\<close>

record arena =
  ar_world :: world
  ar_free :: nat
  ar_holder :: "nat option"
  ar_at :: "nat \<Rightarrow> stage"
  ar_ops :: "(world \<Rightarrow> world) list"

text \<open>The invite that the transaction with the lock has selected \<^verbatim>\<open>FOR UPDATE\<close>.\<close>

definition stage_invite :: "stage \<Rightarrow> string set" where
  "stage_invite p = (case p of
     Admitted hash reason inviteID \<Rightarrow> {inviteID}
   | Inserted hash reason inviteID \<Rightarrow> {inviteID}
   | Ready hash reason inviteID \<Rightarrow> {inviteID}
   | _ \<Rightarrow> {})"

definition held :: "arena \<Rightarrow> string set" where
  "held A = (case ar_holder A of None \<Rightarrow> {} | Some i \<Rightarrow> stage_invite (ar_at A i))"

text \<open>
  What all other operations of the service, or the statements they consist of, do to the world in between: anything
  that keeps the schema, adds, removes and renames no account and does not touch the locked invites, and for which
  the audit trail and the log make no difference.
\<close>

definition outsider :: "string set \<Rightarrow> world \<Rightarrow> world \<Rightarrow> bool" where
  "outsider H w w' \<longleftrightarrow>
     map (\<lambda>x. (ur_id x, ur_username x)) (users (w_db w')) = map (\<lambda>x. (ur_id x, ur_username x)) (users (w_db w)) \<and>
     (schema_ok (w_db w) \<longrightarrow> schema_ok (w_db w')) \<and>
     (\<forall>r\<in>set (invites (w_db w)). i_id r \<in> H \<longrightarrow> r \<in> set (invites (w_db w')))"

definition same_core :: "world \<Rightarrow> world \<Rightarrow> bool" where
  "same_core w v \<longleftrightarrow> core (w_db v) = core (w_db w) \<and> w_fs v = w_fs w"

definition trail_blind :: "(world \<Rightarrow> world) \<Rightarrow> bool" where
  "trail_blind f \<longleftrightarrow> (\<forall>w v. same_core w v \<longrightarrow> same_core (f w) (f v))"

datatype label = By nat | Leaves nat | Others "world \<Rightarrow> world"

definition move :: "arena \<Rightarrow> nat \<Rightarrow> stage \<Rightarrow> arena" where
  "move A i p = A\<lparr>ar_at := (ar_at A)(i := p)\<rparr>"

text \<open>The end of a transaction: its connection is free again, and so is the lock if it had it.\<close>

definition release :: "arena \<Rightarrow> nat \<Rightarrow> arena" where
  "release A i = A\<lparr>ar_free := Suc (ar_free A), ar_holder := (if ar_holder A = Some i then None else ar_holder A)\<rparr>"

definition follow :: "string \<Rightarrow> verdict \<Rightarrow> stage" where
  "follow hash v = (case v of
     Refuse e \<Rightarrow> Ending e
   | Deny reason e \<Rightarrow> Denying reason e
   | Lookup code \<Rightarrow> Looking hash code
   | Admit reason inviteID \<Rightarrow> Admitted hash reason inviteID)"

text \<open>The \<^verbatim>\<open>INSERT\<close> of the account, which nobody sees yet, and what it decides.\<close>

definition insert_account :: "reg_request \<Rightarrow> string \<Rightarrow> string \<Rightarrow> string \<Rightarrow> world \<Rightarrow> stage" where
  "insert_account q hash reason inviteID w =
     (case exec (rr_env q) CallInsertUser
             (insert_user (new_user (rr_env q) (rr_uuid q) (rr_username q) hash) (w_db w)) of
        Inl UniqueViolation \<Rightarrow> Ending ErrUsernameTaken
      | Inl _ \<Rightarrow> Ending (ErrAuthOther ''auth: create user'')
      | Inr _ \<Rightarrow> if inviteID \<noteq> [] then Inserted hash reason inviteID else Ready hash reason inviteID)"

text \<open>The writes of the transaction, as they become visible with its \<^verbatim>\<open>COMMIT\<close>.\<close>

definition tx_writes :: "reg_request \<Rightarrow> string \<Rightarrow> string \<Rightarrow> db \<Rightarrow> db" where
  "tx_writes q hash inviteID d =
     (let d2 = d\<lparr>users := users d @ [new_user (rr_env q) (rr_uuid q) (rr_username q) hash]\<rparr>
      in if inviteID \<noteq> [] then consume_invite inviteID (rr_uuid q) (en_now (rr_env q)) d2 else d2)"

definition new_account :: "reg_request \<Rightarrow> user" where
  "new_account q = \<lparr>u_ID = rr_uuid q, u_Username = rr_username q, u_Role = roleUser\<rparr>"

text \<open>Where a client that leaves ends the request: the call it waits in fails, and the transaction is rolled back.\<close>

definition cancelled :: "stage \<Rightarrow> bool" where
  "cancelled p \<longleftrightarrow> (case p of
     Waiting _ \<Rightarrow> True | Locked _ \<Rightarrow> True | Looking _ _ \<Rightarrow> True | Admitted _ _ _ \<Rightarrow> True
   | Inserted _ _ _ \<Rightarrow> True | Ready _ _ _ \<Rightarrow> True | _ \<Rightarrow> False)"

text \<open>
  One step for each statement. The audit events take a connection of their own and do not heed the client
  (\<^verbatim>\<open>context.WithoutCancel\<close>); nor does the rollback.
\<close>

inductive reg_step :: "crypto \<Rightarrow> unicode \<Rightarrow> service \<Rightarrow> (nat \<Rightarrow> reg_request) \<Rightarrow> arena \<Rightarrow> label \<Rightarrow> arena \<Rightarrow> bool"
  for c u s rq A where
  reject: "ar_at A i = Outside \<Longrightarrow> register_entry c (rq i) = Inl e \<Longrightarrow>
    reg_step c u s rq A (By i) (move A i (Finished (Inl e)))"
| begin_tx: "ar_at A i = Outside \<Longrightarrow> register_entry c (rq i) = Inr hash \<Longrightarrow> 0 < ar_free A \<Longrightarrow>
    reg_step c u s rq A (By i) ((move A i (Waiting hash))\<lparr>ar_free := ar_free A - 1\<rparr>)"
| lock: "ar_at A i = Waiting hash \<Longrightarrow> ar_holder A = None \<Longrightarrow>
    \<not> en_fail (rr_env (rq i)) CallLockRegistration \<Longrightarrow>
    reg_step c u s rq A (By i) ((move A i (Locked hash))\<lparr>ar_holder := Some i\<rparr>)"
| lock_failed: "ar_at A i = Waiting hash \<Longrightarrow> ar_holder A = None \<Longrightarrow>
    en_fail (rr_env (rq i)) CallLockRegistration \<Longrightarrow>
    reg_step c u s rq A (By i) (move A i (Ending (ErrAuthOther ''auth: lock registrations'')))"
| count: "ar_at A i = Locked hash \<Longrightarrow>
    reg_step c u s rq A (By i) (move A i (follow hash (count_users u s (rq i) (ar_world A))))"
| lookup: "ar_at A i = Looking hash code \<Longrightarrow>
    reg_step c u s rq A (By i) (move A i (follow hash (select_invite c (rq i) code (ar_world A))))"
| deny: "ar_at A i = Denying reason e \<Longrightarrow> 0 < ar_free A \<Longrightarrow>
    reg_step c u s rq A (By i) ((move A i (Ending e))\<lparr>ar_world :=
      deny_registration (rr_env (rq i)) (rr_username (rq i)) reason (ar_world A)\<rparr>)"
| insert: "ar_at A i = Admitted hash reason inviteID \<Longrightarrow>
    reg_step c u s rq A (By i) (move A i (insert_account (rq i) hash reason inviteID (ar_world A)))"
| consume: "ar_at A i = Inserted hash reason inviteID \<Longrightarrow>
    reg_step c u s rq A (By i) (move A i (if en_fail (rr_env (rq i)) CallConsumeInvite
      then Ending (ErrAuthOther ''auth: consume invite'') else Ready hash reason inviteID))"
| commit: "ar_at A i = Ready hash reason inviteID \<Longrightarrow>
    commit_tx (rr_env (rq i)) (w_db (ar_world A)) (tx_writes (rq i) hash inviteID (w_db (ar_world A))) = (ok, d) \<Longrightarrow>
    reg_step c u s rq A (By i) (release (move A i (if ok then Committed (new_account (rq i)) reason inviteID
      else Finished (Inl (ErrAuthOther ''auth: commit registration'')))) i\<lparr>ar_world := (ar_world A)\<lparr>w_db := d\<rparr>\<rparr>)"
| rollback: "ar_at A i = Ending e \<Longrightarrow>
    reg_step c u s rq A (By i) (release (move A i (Finished (Inl e))) i)"
| audit: "ar_at A i = Committed p reason inviteID \<Longrightarrow> 0 < ar_free A \<Longrightarrow>
    reg_step c u s rq A (By i) ((move A i (if inviteID \<noteq> [] then Redeeming p inviteID else Finished (Inr p)))\<lparr>ar_world :=
      Record (rr_env (rq i)) (service_event (u_ID p) (u_Username p) ''auth.register'' (u_Username p) ResultOK reason)
        (ar_world A)\<rparr>)"
| audit_invite: "ar_at A i = Redeeming p inviteID \<Longrightarrow> 0 < ar_free A \<Longrightarrow>
    reg_step c u s rq A (By i) ((move A i (Finished (Inr p)))\<lparr>ar_world :=
      Record (rr_env (rq i)) (service_event (u_ID p) (u_Username p) ''invite.redeem'' inviteID ResultOK [])
        (ar_world A)\<rparr>)"
| queue_left: "ar_at A i = Outside \<Longrightarrow> reg_step c u s rq A (Leaves i) (move A i Gone)"
| tx_left: "cancelled (ar_at A i) \<Longrightarrow> reg_step c u s rq A (Leaves i) (release (move A i Gone) i)"
| other: "0 < ar_free A \<Longrightarrow> outsider (held A) (ar_world A) (f (ar_world A)) \<Longrightarrow> trail_blind f \<Longrightarrow>
    reg_step c u s rq A (Others f) (A\<lparr>ar_world := f (ar_world A), ar_ops := ar_ops A @ [f]\<rparr>)"

inductive reg_reaches :: "crypto \<Rightarrow> unicode \<Rightarrow> service \<Rightarrow> (nat \<Rightarrow> reg_request) \<Rightarrow> arena \<Rightarrow> arena \<Rightarrow> bool"
  for c u s rq A where
  start: "reg_reaches c u s rq A A"
| step: "reg_reaches c u s rq A B \<Longrightarrow> reg_step c u s rq B l C \<Longrightarrow> reg_reaches c u s rq A C"

definition at_rest :: "world \<Rightarrow> nat \<Rightarrow> arena" where
  "at_rest w n = \<lparr>ar_world = w, ar_free = n, ar_holder = None, ar_at = (\<lambda>_. Outside), ar_ops = []\<rparr>"

text \<open>
  The specification: whole registrations and other operations, one after the other. It is a function: the start
  and the list of what happens determine the answers and the end.
\<close>

datatype happening = Registration nat | Operation "world \<Rightarrow> world"

primrec replay :: "crypto \<Rightarrow> unicode \<Rightarrow> service \<Rightarrow> (nat \<Rightarrow> reg_request) \<Rightarrow> happening list \<Rightarrow> world
   \<Rightarrow> (nat \<times> (auth_error + user)) list \<times> world" where
  "replay c u s rq [] w = ([], w)"
| "replay c u s rq (h # hs) w = (case h of
     Registration i \<Rightarrow>
       (let (r, w1) = register_one c u s (rq i) w; (rs, w2) = replay c u s rq hs w1 in ((i, r) # rs, w2))
   | Operation f \<Rightarrow> replay c u s rq hs (f w))"

definition operations :: "happening list \<Rightarrow> (world \<Rightarrow> world) list" where
  "operations hs = List.map_filter (\<lambda>h. case h of Registration _ \<Rightarrow> None | Operation f \<Rightarrow> Some f) hs"

text \<open>The answer of a request, from the moment on at which it is certain.\<close>

definition answer :: "stage \<Rightarrow> (auth_error + user) option" where
  "answer p = (case p of
     Denying _ e \<Rightarrow> Some (Inl e) | Ending e \<Rightarrow> Some (Inl e) | Committed q _ _ \<Rightarrow> Some (Inr q)
   | Redeeming q _ \<Rightarrow> Some (Inr q) | Finished r \<Rightarrow> Some r | _ \<Rightarrow> None)"

lemmas arena_simps = move_def release_def at_rest_def

section \<open>Worlds that differ in the trail and the log\<close>

lemma same_core_refl [simp]: "same_core w w"
  by (simp add: same_core_def)

lemma same_core_sym: "same_core w v \<Longrightarrow> same_core v w"
  by (simp add: same_core_def)

lemma same_core_trans: "same_core w v \<Longrightarrow> same_core v x \<Longrightarrow> same_core w x"
  by (simp add: same_core_def)

lemma same_core_Record [simp]:
  "same_core w (Record env e v) = same_core w v" "same_core (Record env e w) v = same_core w v"
  by (simp_all add: same_core_def)

lemma same_core_deny [simp]:
  "same_core w (deny_registration env n r v) = same_core w v" "same_core (deny_registration env n r w) v = same_core w v"
  by (simp_all add: deny_registration_def)

lemma same_core_tables:
  assumes "same_core w v"
  shows "users (w_db v) = users (w_db w)" "sessions (w_db v) = sessions (w_db w)" "failures (w_db v) = failures (w_db w)"
    "blobs (w_db v) = blobs (w_db w)" "nodes (w_db v) = nodes (w_db w)" "grants (w_db v) = grants (w_db w)"
    "invites (w_db v) = invites (w_db w)" "w_fs v = w_fs w"
  using core_eqD [of "w_db v" "w_db w"] assms by (simp_all add: same_core_def)

lemma same_coreI:
  assumes "users (w_db v) = users (w_db w)" "sessions (w_db v) = sessions (w_db w)" "failures (w_db v) = failures (w_db w)"
    "blobs (w_db v) = blobs (w_db w)" "nodes (w_db v) = nodes (w_db w)" "grants (w_db v) = grants (w_db w)"
    "invites (w_db v) = invites (w_db w)" "w_fs v = w_fs w"
  shows "same_core w v"
  using assms unfolding same_core_def by (intro conjI core_eqI)

lemma count_users_core: "users (w_db v) = users (w_db w) \<Longrightarrow> count_users u s q v = count_users u s q w"
  by (simp add: count_users_def)

lemma select_invite_core: "invites (w_db v) = invites (w_db w) \<Longrightarrow> select_invite c q code v = select_invite c q code w"
  by (simp add: select_invite_def)

lemma decided_core:
  "same_core w v \<Longrightarrow> fst (decided q x v) = fst (decided q x w) \<and> same_core (snd (decided q x w)) (snd (decided q x v))"
  by (simp add: decided_def split: verdict.split)

lemma admit_core:
  assumes "same_core w v"
  shows "fst (admit c u s q v) = fst (admit c u s q w) \<and> same_core (snd (admit c u s q w)) (snd (admit c u s q v))"
  using decided_core [OF assms, of q] assms
  by (simp add: admit_split count_users_core [OF same_core_tables(1) [OF assms]]
      select_invite_core [OF same_core_tables(7) [OF assms]] split: verdict.split)

lemma tx_insert:
  assumes "insert_user (new_user (rr_env q) (rr_uuid q) (rr_username q) hash) d = Inr d2"
  shows "tx_writes q hash inviteID d =
    (if inviteID \<noteq> [] then consume_invite inviteID (rr_uuid q) (en_now (rr_env q)) d2 else d2)"
  using assms by (auto simp: insert_user_def tx_writes_def split: if_splits)

lemma register_tx_writes:
  "register_tx q hash reason inviteID w =
     (case exec (rr_env q) CallInsertUser (insert_user (new_user (rr_env q) (rr_uuid q) (rr_username q) hash) (w_db w)) of
        Inl UniqueViolation \<Rightarrow> (Inl ErrUsernameTaken, w)
      | Inl _ \<Rightarrow> (Inl (ErrAuthOther ''auth: create user''), w)
      | Inr _ \<Rightarrow>
      if inviteID \<noteq> [] \<and> en_fail (rr_env q) CallConsumeInvite then (Inl (ErrAuthOther ''auth: consume invite''), w) else
      case commit_tx (rr_env q) (w_db w) (tx_writes q hash inviteID (w_db w)) of
        (False, d) \<Rightarrow> (Inl (ErrAuthOther ''auth: commit registration''), w\<lparr>w_db := d\<rparr>)
      | (True, d) \<Rightarrow> (Inr (new_account q), register_audit (rr_env q) (new_account q) reason inviteID (w\<lparr>w_db := d\<rparr>)))"
proof (cases "exec (rr_env q) CallInsertUser (insert_user (new_user (rr_env q) (rr_uuid q) (rr_username q) hash) (w_db w))")
  case (Inl e)
  then show ?thesis by (cases e) (simp_all add: register_tx_def)
next
  case (Inr d2)
  then have "insert_user (new_user (rr_env q) (rr_uuid q) (rr_username q) hash) (w_db w) = Inr d2" by (simp add: exec_Inr)
  with Inr tx_insert [OF this, of inviteID] show ?thesis
    by (auto simp: register_tx_def new_account_def exec_def Let_def split: prod.split bool.split)
qed

lemma tx_writes_core:
  "core d' = core d \<Longrightarrow> core (tx_writes q hash i d') = core (tx_writes q hash i d)"
  by (rule core_eqI) (simp_all add: tx_writes_def Let_def consume_invite_def core_eqD [of d' d])

lemma commit_tx_core:
  assumes "core d' = core d" and "core n' = core n"
  shows "fst (commit_tx env d' n') = fst (commit_tx env d n) \<and>
    core (snd (commit_tx env d' n')) = core (snd (commit_tx env d n))"
  using assms by (simp add: commit_tx_def split: commit_outcome.split)

lemma insert_user_core:
  assumes "users d' = users d"
  shows "insert_user r d' = (case insert_user r d of Inl e \<Rightarrow> Inl e | Inr _ \<Rightarrow> Inr (d'\<lparr>users := users d' @ [r]\<rparr>))"
  using assms by (simp add: insert_user_def)

lemma register_tx_core:
  assumes "same_core w v"
  shows "fst (register_tx q hash reason i v) = fst (register_tx q hash reason i w) \<and>
    same_core (snd (register_tx q hash reason i w)) (snd (register_tx q hash reason i v))"
proof -
  let ?row = "new_user (rr_env q) (rr_uuid q) (rr_username q) hash"
  have db: "core (w_db v) = core (w_db w)" and fs: "w_fs v = w_fs w" using assms by (simp_all add: same_core_def)
  note writes = commit_tx_core [OF db tx_writes_core [OF db, of q hash i], of "rr_env q"]
  obtain ok d ok' d' where tx: "commit_tx (rr_env q) (w_db w) (tx_writes q hash i (w_db w)) = (ok, d)"
      "commit_tx (rr_env q) (w_db v) (tx_writes q hash i (w_db v)) = (ok', d')" by fastforce
  with writes have eq: "ok' = ok" "core d' = core d" by simp_all
  have ins: "exec (rr_env q) CallInsertUser (insert_user ?row (w_db v)) =
      (case exec (rr_env q) CallInsertUser (insert_user ?row (w_db w)) of
         Inl e \<Rightarrow> Inl e | Inr _ \<Rightarrow> Inr ((w_db v)\<lparr>users := users (w_db v) @ [?row]\<rparr>))"
    using insert_user_core [OF same_core_tables(1) [OF assms], of ?row] by (simp add: exec_def)
  have aud: "same_core (register_audit env p x y (w\<lparr>w_db := d\<rparr>)) (register_audit env p x y (v\<lparr>w_db := d'\<rparr>))" for env p x y
    using eq fs by (simp add: same_core_def)
  show ?thesis
    unfolding register_tx_writes ins tx eq using assms aud eq fs
    by (cases "exec (rr_env q) CallInsertUser (insert_user ?row (w_db w))")
      (auto simp: same_core_def split: pg_error.split bool.split)
qed

text \<open>A registration does the same to worlds that differ in the trail and the log only.\<close>

lemma register_one_core:
  assumes "same_core w v"
  shows "fst (register_one c u s q v) = fst (register_one c u s q w) \<and>
    same_core (snd (register_one c u s q w)) (snd (register_one c u s q v))"
proof (cases "register_entry c q")
  case (Inl e)
  then show ?thesis using assms by (simp add: Register_split)
next
  case (Inr hash)
  obtain r w1 r' v1 where adm: "admit c u s q w = (r, w1)" "admit c u s q v = (r', v1)" by fastforce
  with admit_core [OF assms, of c u s q] have eq: "r' = r" "same_core w1 v1" by simp_all
  show ?thesis
  proof (cases r)
    case e: (Inl e)
    with Inr adm eq show ?thesis by (simp add: Register_split)
  next
    case x: (Inr x)
    obtain reason i where "x = (reason, i)" by fastforce
    with Inr adm eq x register_tx_core [OF eq(2), of q hash reason i] show ?thesis by (simp add: Register_split)
  qed
qed

section \<open>What is decided stays good while the lock is held\<close>

lemma outsider_same:
  "users (w_db w') = users (w_db w) \<Longrightarrow> invites (w_db w') = invites (w_db w) \<Longrightarrow>
   (schema_ok (w_db w) \<Longrightarrow> schema_ok (w_db w')) \<Longrightarrow> outsider H w w'"
  by (simp add: outsider_def)

lemma outsider_length: "outsider H w w' \<Longrightarrow> length (users (w_db w')) = length (users (w_db w))"
  unfolding outsider_def by (metis length_map)

lemma insert_user_stable:
  assumes "outsider H w w'"
  shows "isl (insert_user r (w_db w')) \<longleftrightarrow> isl (insert_user r (w_db w))"
proof -
  have ids: "map (\<lambda>x. (ur_id x, ur_username x)) (users (w_db w')) = map (\<lambda>x. (ur_id x, ur_username x)) (users (w_db w))"
    using assms by (simp add: outsider_def)
  have taken: "(\<exists>x\<in>set (users d). ur_id x = i \<or> ur_username x = nm) \<longleftrightarrow>
      (\<exists>p\<in>set (map (\<lambda>x. (ur_id x, ur_username x)) (users d)). fst p = i \<or> snd p = nm)" for d i nm
    by auto
  show ?thesis by (simp add: insert_user_def taken ids del: set_map)
qed

lemma count_users_stable:
  assumes "outsider H w w'"
  shows "count_users u s q w' = count_users u s q w"
  using outsider_length [OF assms] by (simp add: count_users_def)

lemma select_invite_stable:
  assumes sel: "select_invite c q code w = Admit reason i" and out: "outsider {i} w w'" and sch: "schema_ok (w_db w)"
  shows "select_invite c q code w' = Admit reason i"
proof -
  let ?P = "redeemable (en_now (rr_env q)) (HashToken c code)"
  obtain r where r: "query_row ?P (invites (w_db w)) = Some r" "i_id r = i" "reason = ''invite''"
      "\<not> en_fail (rr_env q) CallSelectInvite"
    using sel by (auto simp: select_invite_def exec_def split: if_splits option.splits)
  have r': "r \<in> set (invites (w_db w'))" "?P r"
    using query_row_Some [OF r(1)] r(2) out by (auto simp: outsider_def)
  have "schema_ok (w_db w')" using out sch by (simp add: outsider_def)
  then have d: "distinct (map i_code_hash (invites (w_db w')))"
    using schema_parts(6) by (simp add: invites_ok_def)
  obtain r2 where r2: "query_row ?P (invites (w_db w')) = Some r2"
    using r' by (cases "query_row ?P (invites (w_db w'))") (auto simp: query_row_None)
  have "r2 = r"
    using query_row_Some [OF r2] r' d by (intro distinct_key_unique [of i_code_hash]) (auto simp: redeemable_def)
  with r2 r show ?thesis by (simp add: select_invite_def exec_def)
qed

lemma admit_Inr:
  assumes "fst (admit c u s q w) = Inr (reason, i)"
  shows "\<not> en_fail (rr_env q) CallLockRegistration \<and>
    (count_users u s q w = Admit reason i \<or>
     (\<exists>code. count_users u s q w = Lookup code \<and> select_invite c q code w = Admit reason i))"
  using assms by (auto simp: admit_split decided_def split: if_splits verdict.splits)

lemma admit_stable:
  assumes adm: "fst (admit c u s q w) = Inr (reason, i)" and out: "outsider {i} w w'" and sch: "schema_ok (w_db w)"
  shows "fst (admit c u s q w') = Inr (reason, i)"
  using admit_Inr [OF adm] select_invite_stable [OF _ out sch]
  by (auto simp: admit_split count_users_stable [OF out] decided_def)

lemma admit_same_world: "fst (admit c u s q w) = Inr x \<Longrightarrow> admit c u s q w = (Inr x, w)"
  unfolding admit_def using admit_Inr_world by (metis prod.collapse)

section \<open>The invariant\<close>

text \<open>What a request knows where it is: this still holds of the world.\<close>

definition accountable :: "reg_request \<Rightarrow> string \<Rightarrow> world \<Rightarrow> bool" where
  "accountable q hash w \<longleftrightarrow> \<not> en_fail (rr_env q) CallInsertUser \<and>
     \<not> isl (insert_user (new_user (rr_env q) (rr_uuid q) (rr_username q) hash) (w_db w))"

definition stage_ok :: "crypto \<Rightarrow> unicode \<Rightarrow> service \<Rightarrow> reg_request \<Rightarrow> world \<Rightarrow> stage \<Rightarrow> bool" where
  "stage_ok c u s q w p \<longleftrightarrow> (case p of
     Waiting hash \<Rightarrow> register_entry c q = Inr hash
   | Locked hash \<Rightarrow> register_entry c q = Inr hash \<and> \<not> en_fail (rr_env q) CallLockRegistration
   | Looking hash code \<Rightarrow> register_entry c q = Inr hash \<and> \<not> en_fail (rr_env q) CallLockRegistration \<and>
       count_users u s q w = Lookup code
   | Admitted hash reason i \<Rightarrow> register_entry c q = Inr hash \<and> fst (admit c u s q w) = Inr (reason, i)
   | Inserted hash reason i \<Rightarrow> register_entry c q = Inr hash \<and> fst (admit c u s q w) = Inr (reason, i) \<and>
       accountable q hash w \<and> i \<noteq> []
   | Ready hash reason i \<Rightarrow> register_entry c q = Inr hash \<and> fst (admit c u s q w) = Inr (reason, i) \<and>
       accountable q hash w \<and> (i \<noteq> [] \<longrightarrow> \<not> en_fail (rr_env q) CallConsumeInvite)
   | _ \<Rightarrow> True)"

definition locking :: "stage \<Rightarrow> bool" where
  "locking p \<longleftrightarrow> (case p of
     Locked _ \<Rightarrow> True | Looking _ _ \<Rightarrow> True | Denying _ _ \<Rightarrow> True | Admitted _ _ _ \<Rightarrow> True
   | Inserted _ _ _ \<Rightarrow> True | Ready _ _ _ \<Rightarrow> True | _ \<Rightarrow> False)"

definition exclusive :: "arena \<Rightarrow> bool" where
  "exclusive A \<longleftrightarrow> (\<forall>i. (locking (ar_at A i) \<longrightarrow> ar_holder A = Some i) \<and>
     (ar_holder A = Some i \<longrightarrow> locking (ar_at A i) \<or> (\<exists>e. ar_at A i = Ending e)))"

definition arena_inv :: "crypto \<Rightarrow> unicode \<Rightarrow> service \<Rightarrow> (nat \<Rightarrow> reg_request) \<Rightarrow> arena \<Rightarrow> bool" where
  "arena_inv c u s rq A \<longleftrightarrow> schema_ok (w_db (ar_world A)) \<and> exclusive A \<and>
     (\<forall>i. stage_ok c u s (rq i) (ar_world A) (ar_at A i))"

lemma locking_simps [simp]:
  "\<not> locking Outside" "\<not> locking (Waiting h)" "locking (Locked h)" "locking (Looking h code)" "locking (Denying reason e)"
  "locking (Admitted h reason i)" "locking (Inserted h reason i)" "locking (Ready h reason i)" "\<not> locking (Ending e)"
  "\<not> locking (Committed p reason i)" "\<not> locking (Redeeming p i)" "\<not> locking (Finished r)" "\<not> locking Gone"
  by (simp_all add: locking_def)

lemma answer_simps [simp]:
  "answer Outside = None" "answer (Waiting h) = None" "answer (Locked h) = None" "answer (Looking h code) = None"
  "answer (Denying reason e) = Some (Inl e)" "answer (Admitted h reason i) = None" "answer (Inserted h reason i) = None"
  "answer (Ready h reason i) = None" "answer (Ending e) = Some (Inl e)" "answer (Committed p reason i) = Some (Inr p)"
  "answer (Redeeming p i) = Some (Inr p)" "answer (Finished r) = Some r" "answer Gone = None"
  by (simp_all add: answer_def)

lemma stage_ok_simps [simp]:
  "stage_ok c u s q w Outside" "stage_ok c u s q w (Denying reason e)" "stage_ok c u s q w (Ending e)"
  "stage_ok c u s q w (Committed p reason i)" "stage_ok c u s q w (Redeeming p i)" "stage_ok c u s q w (Finished r)"
  "stage_ok c u s q w Gone"
  by (simp_all add: stage_ok_def)

lemma stage_invite_simps [simp]:
  "stage_invite (Admitted h reason i) = {i}" "stage_invite (Inserted h reason i) = {i}" "stage_invite (Ready h reason i) = {i}"
  by (simp_all add: stage_invite_def)

lemma cancelled_answer: "cancelled p \<Longrightarrow> answer p = None"
  by (cases p) (simp_all add: cancelled_def)

lemma arena_inv_at_rest: "schema_ok (w_db w) \<Longrightarrow> arena_inv c u s rq (at_rest w n)"
  by (simp add: arena_inv_def exclusive_def at_rest_def)

lemma accountable_stable: "outsider H w w' \<Longrightarrow> accountable q hash w' = accountable q hash w"
  using insert_user_stable by (simp add: accountable_def)

lemma stage_ok_quiet: "\<not> locking p \<Longrightarrow> stage_ok c u s q w' p = stage_ok c u s q w p"
  by (cases p) (simp_all add: stage_ok_def)

lemma stage_ok_stable:
  assumes "stage_ok c u s q w p" and "outsider (stage_invite p) w w'" and "schema_ok (w_db w)"
  shows "stage_ok c u s q w' p"
  using assms admit_stable [of c u s q w _ _ w'] accountable_stable [of _ w w' q] count_users_stable [of _ w w' u s q]
  by (cases p) (simp_all add: stage_ok_def)

lemma stage_ok_follow:
  assumes "register_entry c q = Inr hash" and "\<not> en_fail (rr_env q) CallLockRegistration"
    and "count_users u s q w = v \<or> (\<exists>code. count_users u s q w = Lookup code \<and> select_invite c q code w = v)"
  shows "stage_ok c u s q w (follow hash v)"
  using assms by (cases v) (auto simp: stage_ok_def follow_def admit_split decided_def)

lemma follow_locking: "locking (follow hash v) \<or> (\<exists>e. follow hash v = Ending e)"
  by (cases v) (simp_all add: follow_def)

lemma stage_ok_insert:
  assumes "register_entry c q = Inr hash" and "fst (admit c u s q w) = Inr (reason, i)"
  shows "stage_ok c u s q w (insert_account q hash reason i w)"
  using assms
  by (auto simp: stage_ok_def insert_account_def exec_def accountable_def split: sum.split pg_error.split)

lemma insert_locking: "locking (insert_account q hash reason i w) \<or> (\<exists>e. insert_account q hash reason i w = Ending e)"
  by (simp add: insert_account_def split: sum.split pg_error.split)

text \<open>A step of one request that keeps or takes or gives back the lock.\<close>

definition lock_passes :: "arena \<Rightarrow> nat \<Rightarrow> stage \<Rightarrow> arena \<Rightarrow> bool" where
  "lock_passes A i p B \<longleftrightarrow>
     ar_holder B = ar_holder A \<and> locking (ar_at A i) \<and> (locking p \<or> (\<exists>e. p = Ending e)) \<or>
     ar_holder B = ar_holder A \<and> ar_holder A \<noteq> Some i \<and> \<not> locking p \<or>
     ar_holder A = None \<and> ar_holder B = Some i \<and> locking p \<or>
     ar_holder B = (if ar_holder A = Some i then None else ar_holder A) \<and> \<not> locking p"

lemma move_inv:
  assumes inv: "arena_inv c u s rq A" and at: "ar_at B = (ar_at A)(i := p)" and hold: "lock_passes A i p B"
    and sch: "schema_ok (w_db (ar_world B))" and ok: "stage_ok c u s (rq i) (ar_world B) p"
    and rely: "locking (ar_at A i) \<or> (\<forall>H. outsider H (ar_world A) (ar_world B))"
  shows "arena_inv c u s rq B"
proof -
  have ex: "locking (ar_at A j) \<Longrightarrow> ar_holder A = Some j"
      "ar_holder A = Some j \<Longrightarrow> locking (ar_at A j) \<or> (\<exists>e. ar_at A j = Ending e)" for j
    using inv unfolding arena_inv_def exclusive_def by blast+
  have "exclusive B"
    unfolding exclusive_def
  proof (intro allI)
    fix j
    show "(locking (ar_at B j) \<longrightarrow> ar_holder B = Some j) \<and>
        (ar_holder B = Some j \<longrightarrow> locking (ar_at B j) \<or> (\<exists>e. ar_at B j = Ending e))"
    proof (cases "j = i")
      case True
      then have "ar_at B j = p" by (simp add: at)
      with hold ex(1) [of i] True show ?thesis unfolding lock_passes_def by (elim disjE conjE) simp_all
    next
      case False
      then have "ar_at B j = ar_at A j" by (simp add: at)
      with hold ex(1) [of j] ex(2) [of j] False show ?thesis unfolding lock_passes_def by (elim disjE conjE) auto
    qed
  qed
  moreover have "stage_ok c u s (rq j) (ar_world B) (ar_at B j)" for j
  proof (cases "j = i")
    case True
    with ok show ?thesis by (simp add: at)
  next
    case False
    have okA: "stage_ok c u s (rq j) (ar_world A) (ar_at A j)" and schA: "schema_ok (w_db (ar_world A))"
      using inv by (simp_all add: arena_inv_def)
    have "stage_ok c u s (rq j) (ar_world B) (ar_at A j)"
    proof (cases "locking (ar_at A j)")
      case True
      then have "\<not> locking (ar_at A i)" using ex(1) [of i] ex(1) [of j] False by auto
      with rely stage_ok_stable [OF okA _ schA] show ?thesis by blast
    next
      case False
      with stage_ok_quiet okA show ?thesis by blast
    qed
    with False show ?thesis by (simp add: at)
  qed
  ultimately show ?thesis using sch by (simp add: arena_inv_def)
qed

lemma outsider_Record [simp]: "outsider H w (Record env e w)"
  by (rule outsider_same) simp_all

lemma outsider_refl [simp]: "outsider H w w"
  by (rule outsider_same) simp_all

section \<open>Where a registration takes effect\<close>

lemma admit_decided:
  assumes "\<not> en_fail (rr_env q) CallLockRegistration" and "\<And>code. v \<noteq> Lookup code"
    and "count_users u s q w = v \<or> (\<exists>code. count_users u s q w = Lookup code \<and> select_invite c q code w = v)"
  shows "admit c u s q w = decided q v w"
  using assms by (auto simp: admit_split split: verdict.split)

text \<open>\<open>takes_effect\<close>: the whole registration on this world has that answer and leaves such a world.\<close>

definition takes_effect :: "crypto \<Rightarrow> unicode \<Rightarrow> service \<Rightarrow> reg_request \<Rightarrow> world \<Rightarrow> stage \<Rightarrow> world \<Rightarrow> bool" where
  "takes_effect c u s q w p w' \<longleftrightarrow> answer p = Some (fst (register_one c u s q w)) \<and>
     same_core (snd (register_one c u s q w)) w'"

lemma follow_effect:
  assumes "register_entry c q = Inr hash" and "\<not> en_fail (rr_env q) CallLockRegistration"
    and "count_users u s q w = v \<or> (\<exists>code. count_users u s q w = Lookup code \<and> select_invite c q code w = v)"
  shows "answer (follow hash v) = None \<or> takes_effect c u s q w (follow hash v) w"
proof (cases v)
  case (Refuse e)
  have "admit c u s q w = decided q v w" by (rule admit_decided [OF assms(2) _ assms(3)]) (simp add: Refuse)
  with Refuse assms(1) show ?thesis by (simp add: takes_effect_def follow_def Register_split decided_def)
next
  case (Deny reason e)
  have "admit c u s q w = decided q v w" by (rule admit_decided [OF assms(2) _ assms(3)]) (simp add: Deny)
  with Deny assms(1) show ?thesis by (simp add: takes_effect_def follow_def Register_split decided_def)
qed (simp_all add: follow_def)

lemma admitted_register:
  assumes "register_entry c q = Inr hash" and "fst (admit c u s q w) = Inr (reason, i)"
  shows "register_one c u s q w = register_tx q hash reason i w"
  using assms(1) admit_same_world [OF assms(2)] by (simp add: Register_split)

lemma insert_effect:
  assumes "register_entry c q = Inr hash" and "fst (admit c u s q w) = Inr (reason, i)"
  shows "answer (insert_account q hash reason i w) = None \<or> takes_effect c u s q w (insert_account q hash reason i w) w"
  unfolding takes_effect_def admitted_register [OF assms]
  by (auto simp: insert_account_def register_tx_writes split: sum.split pg_error.split)

lemma accountable_insert:
  assumes "accountable q hash w"
  obtains d where "exec (rr_env q) CallInsertUser (insert_user (new_user (rr_env q) (rr_uuid q) (rr_username q) hash) (w_db w)) = Inr d"
  using assms by (cases "insert_user (new_user (rr_env q) (rr_uuid q) (rr_username q) hash) (w_db w)")
    (auto simp: accountable_def exec_def)

lemma consume_effect:
  assumes "stage_ok c u s q w (Inserted hash reason i)" and "en_fail (rr_env q) CallConsumeInvite"
  shows "takes_effect c u s q w (Ending (ErrAuthOther ''auth: consume invite'')) w"
proof -
  have ok: "register_entry c q = Inr hash" "fst (admit c u s q w) = Inr (reason, i)" "accountable q hash w" "i \<noteq> []"
    using assms(1) by (simp_all add: stage_ok_def)
  obtain d where "exec (rr_env q) CallInsertUser (insert_user (new_user (rr_env q) (rr_uuid q) (rr_username q) hash) (w_db w)) = Inr d"
    by (rule accountable_insert [OF ok(3)])
  with assms(2) ok(4) show ?thesis
    unfolding takes_effect_def admitted_register [OF ok(1,2)] by (simp add: register_tx_writes)
qed

lemma commit_effect:
  assumes "stage_ok c u s q w (Ready hash reason i)"
    and "commit_tx (rr_env q) (w_db w) (tx_writes q hash i (w_db w)) = (ok, d)"
  shows "takes_effect c u s q w (if ok then Committed (new_account q) reason i
      else Finished (Inl (ErrAuthOther ''auth: commit registration''))) (w\<lparr>w_db := d\<rparr>)"
proof -
  have r: "register_entry c q = Inr hash" "fst (admit c u s q w) = Inr (reason, i)" "accountable q hash w"
      "i \<noteq> [] \<longrightarrow> \<not> en_fail (rr_env q) CallConsumeInvite"
    using assms(1) by (simp_all add: stage_ok_def)
  obtain d2 where "exec (rr_env q) CallInsertUser (insert_user (new_user (rr_env q) (rr_uuid q) (rr_username q) hash) (w_db w)) = Inr d2"
    by (rule accountable_insert [OF r(3)])
  moreover have "\<not> (i \<noteq> [] \<and> en_fail (rr_env q) CallConsumeInvite)" using r(4) by blast
  ultimately have tx: "register_tx q hash reason i w = (if ok
      then (Inr (new_account q), register_audit (rr_env q) (new_account q) reason i (w\<lparr>w_db := d\<rparr>))
      else (Inl (ErrAuthOther ''auth: commit registration''), w\<lparr>w_db := d\<rparr>))"
    by (simp only: register_tx_writes assms(2) if_False sum.case prod.case) (cases ok; simp)
  show ?thesis
    unfolding takes_effect_def admitted_register [OF r(1,2)] tx by (cases ok) (simp_all add: same_core_def)
qed

lemma register_one_schema: "schema_ok (w_db w) \<Longrightarrow> schema_ok (w_db (snd (register_one c u s q w)))"
  by (simp add: register_one_def Register_schema)

section \<open>Every step keeps the invariant and does a whole registration or none\<close>

lemma tx_writes_schema:
  assumes "accountable q hash w" and "schema_ok (w_db w)"
  shows "schema_ok (tx_writes q hash i (w_db w))"
proof -
  obtain d where "insert_user (new_user (rr_env q) (rr_uuid q) (rr_username q) hash) (w_db w) = Inr d"
    using accountable_insert [OF assms(1)] by (metis exec_Inr)
  with schema_insert_user [OF assms(2) this] tx_insert [OF this, of i] show ?thesis
    by (simp add: schema_consume_invite)
qed

text \<open>
  A step of a request either decides its answer, and is the whole registration on the world it finds, or it
  leaves the answer and, but for the audit trail, the world alone.
\<close>

definition step_effect :: "crypto \<Rightarrow> unicode \<Rightarrow> service \<Rightarrow> (nat \<Rightarrow> reg_request) \<Rightarrow> arena \<Rightarrow> nat \<Rightarrow> arena \<Rightarrow> bool" where
  "step_effect c u s rq A i B \<longleftrightarrow> ar_ops B = ar_ops A \<and> (\<forall>j. j \<noteq> i \<longrightarrow> ar_at B j = ar_at A j) \<and>
     (answer (ar_at B i) = answer (ar_at A i) \<and> same_core (ar_world A) (ar_world B) \<or>
      answer (ar_at A i) = None \<and> takes_effect c u s (rq i) (ar_world A) (ar_at B i) (ar_world B))"

lemma silent_effect:
  "answer p = answer (ar_at A i) \<Longrightarrow> same_core (ar_world A) (ar_world B) \<Longrightarrow> ar_ops B = ar_ops A \<Longrightarrow>
   ar_at B = (ar_at A)(i := p) \<Longrightarrow> step_effect c u s rq A i B"
  by (simp add: step_effect_def)

lemma whole_effect:
  "answer (ar_at A i) = None \<Longrightarrow> answer p = None \<and> same_core (ar_world A) (ar_world B) \<or>
     takes_effect c u s (rq i) (ar_world A) p (ar_world B) \<Longrightarrow> ar_ops B = ar_ops A \<Longrightarrow>
   ar_at B = (ar_at A)(i := p) \<Longrightarrow> step_effect c u s rq A i B"
  by (auto simp: step_effect_def)

lemma move_simps [simp]:
  "ar_at (move A i p) = (ar_at A)(i := p)" "ar_world (move A i p) = ar_world A" "ar_free (move A i p) = ar_free A"
  "ar_holder (move A i p) = ar_holder A" "ar_ops (move A i p) = ar_ops A"
  "ar_at (release A i) = ar_at A" "ar_world (release A i) = ar_world A" "ar_free (release A i) = Suc (ar_free A)"
  "ar_holder (release A i) = (if ar_holder A = Some i then None else ar_holder A)" "ar_ops (release A i) = ar_ops A"
  by (simp_all add: move_def release_def)

lemma lock_passes_locking:
  "ar_holder B = ar_holder A \<Longrightarrow> locking (ar_at A i) \<Longrightarrow> locking p \<or> (\<exists>e. p = Ending e) \<Longrightarrow> lock_passes A i p B"
  "ar_holder B = ar_holder A \<Longrightarrow> ar_holder A \<noteq> Some i \<Longrightarrow> \<not> locking p \<Longrightarrow> lock_passes A i p B"
  "ar_holder A = None \<Longrightarrow> ar_holder B = Some i \<Longrightarrow> locking p \<Longrightarrow> lock_passes A i p B"
  "ar_holder B = (if ar_holder A = Some i then None else ar_holder A) \<Longrightarrow> \<not> locking p \<Longrightarrow> lock_passes A i p B"
  by (simp_all add: lock_passes_def)

lemma not_holder: "arena_inv c u s rq A \<Longrightarrow> \<not> locking (ar_at A i) \<Longrightarrow> (\<And>e. ar_at A i \<noteq> Ending e) \<Longrightarrow> ar_holder A \<noteq> Some i"
  by (auto simp: arena_inv_def exclusive_def)

lemma by_step:
  assumes step: "reg_step c u s rq A (By i) B" and inv: "arena_inv c u s rq A"
  shows "arena_inv c u s rq B \<and> step_effect c u s rq A i B"
proof -
  have sch: "schema_ok (w_db (ar_world A))" and ok: "stage_ok c u s (rq i) (ar_world A) (ar_at A i)"
    using inv by (simp_all add: arena_inv_def)
  from step show ?thesis
  proof cases
    case (reject e)
    have "ar_holder A \<noteq> Some i" by (rule not_holder [OF inv]) (simp_all add: reject)
    then have "arena_inv c u s rq B"
      by (intro move_inv [OF inv, of B i "Finished (Inl e)"] lock_passes_locking(2)) (simp_all add: reject sch)
    moreover have "step_effect c u s rq A i B"
      by (rule whole_effect [of A i "Finished (Inl e)"]) (simp_all add: reject takes_effect_def Register_split)
    ultimately show ?thesis by simp
  next
    case (begin_tx hash)
    have "ar_holder A \<noteq> Some i" by (rule not_holder [OF inv]) (simp_all add: begin_tx)
    then have "arena_inv c u s rq B"
      by (intro move_inv [OF inv, of B i "Waiting hash"] lock_passes_locking(2)) (simp_all add: begin_tx sch stage_ok_def)
    moreover have "step_effect c u s rq A i B"
      by (rule silent_effect [of "Waiting hash"]) (simp_all add: begin_tx)
    ultimately show ?thesis by simp
  next
    case (lock hash)
    have "arena_inv c u s rq B"
      using ok by (intro move_inv [OF inv, of B i "Locked hash"] lock_passes_locking(3)) (simp_all add: lock sch stage_ok_def)
    moreover have "step_effect c u s rq A i B"
      by (rule silent_effect [of "Locked hash"]) (simp_all add: lock)
    ultimately show ?thesis by simp
  next
    case (lock_failed hash)
    let ?p = "Ending (ErrAuthOther ''auth: lock registrations'')"
    have "arena_inv c u s rq B"
      by (intro move_inv [OF inv, of B i ?p] lock_passes_locking(2)) (simp_all add: lock_failed sch)
    moreover have "step_effect c u s rq A i B"
      by (rule whole_effect [of A i ?p])
        (use ok in \<open>simp_all add: lock_failed takes_effect_def Register_split admit_split stage_ok_def\<close>)
    ultimately show ?thesis by simp
  next
    case (count hash)
    let ?p = "follow hash (count_users u s (rq i) (ar_world A))"
    have e: "register_entry c (rq i) = Inr hash" "\<not> en_fail (rr_env (rq i)) CallLockRegistration"
      using ok by (simp_all add: count stage_ok_def)
    have "arena_inv c u s rq B"
      by (intro move_inv [OF inv, of B i ?p] lock_passes_locking(1))
        (simp_all add: count sch follow_locking stage_ok_follow [OF e])
    moreover have "step_effect c u s rq A i B"
      using follow_effect [OF e, of u s "ar_world A" "count_users u s (rq i) (ar_world A)"]
      by (intro whole_effect [of A i ?p]) (auto simp: count)
    ultimately show ?thesis by simp
  next
    case (lookup hash code)
    let ?v = "select_invite c (rq i) code (ar_world A)"
    have e: "register_entry c (rq i) = Inr hash" "\<not> en_fail (rr_env (rq i)) CallLockRegistration"
      and l: "count_users u s (rq i) (ar_world A) = ?v \<or>
        (\<exists>code. count_users u s (rq i) (ar_world A) = Lookup code \<and> select_invite c (rq i) code (ar_world A) = ?v)"
      using ok by (simp_all add: lookup stage_ok_def)
    have "arena_inv c u s rq B"
      by (intro move_inv [OF inv, of B i "follow hash ?v"] lock_passes_locking(1))
        (simp_all add: lookup sch follow_locking stage_ok_follow [OF e l])
    moreover have "step_effect c u s rq A i B"
      using follow_effect [OF e l] by (intro whole_effect [of A i "follow hash ?v"]) (auto simp: lookup)
    ultimately show ?thesis by simp
  next
    case (deny reason e)
    have "arena_inv c u s rq B"
      by (intro move_inv [OF inv, of B i "Ending e"] lock_passes_locking(1)) (simp_all add: deny sch)
    moreover have "step_effect c u s rq A i B"
      by (rule silent_effect [of "Ending e"]) (simp_all add: deny)
    ultimately show ?thesis by simp
  next
    case (insert hash reason inviteID)
    let ?p = "insert_account (rq i) hash reason inviteID (ar_world A)"
    have e: "register_entry c (rq i) = Inr hash" "fst (admit c u s (rq i) (ar_world A)) = Inr (reason, inviteID)"
      using ok by (simp_all add: insert stage_ok_def)
    have "arena_inv c u s rq B"
      by (intro move_inv [OF inv, of B i ?p] lock_passes_locking(1))
        (simp_all add: insert sch insert_locking stage_ok_insert [OF e])
    moreover have "step_effect c u s rq A i B"
      using insert_effect [OF e] by (intro whole_effect [of A i ?p]) (auto simp: insert)
    ultimately show ?thesis by simp
  next
    case (consume hash reason inviteID)
    have okI: "stage_ok c u s (rq i) (ar_world A) (Inserted hash reason inviteID)" using ok by (simp add: consume)
    define p where "p = (if en_fail (rr_env (rq i)) CallConsumeInvite
      then Ending (ErrAuthOther ''auth: consume invite'') else Ready hash reason inviteID)"
    have okp: "stage_ok c u s (rq i) (ar_world A) p" "locking p \<or> (\<exists>e. p = Ending e)"
      using okI by (simp_all add: p_def stage_ok_def)
    have B: "B = move A i p" by (simp add: consume p_def)
    have "arena_inv c u s rq B"
      by (intro move_inv [OF inv, of B i p] lock_passes_locking(1)) (simp_all add: B consume(2) sch okp)
    moreover have "step_effect c u s rq A i B"
      using consume_effect [OF okI] by (intro whole_effect [of A i p]) (auto simp: B consume(2) p_def)
    ultimately show ?thesis by simp
  next
    case (commit hash reason inviteID ok' d)
    have okR: "stage_ok c u s (rq i) (ar_world A) (Ready hash reason inviteID)" using ok by (simp add: commit)
    define p where "p = (if ok' then Committed (new_account (rq i)) reason inviteID
      else Finished (Inl (ErrAuthOther ''auth: commit registration'')))"
    have p: "\<not> locking p" "stage_ok c u s q w p" for q w by (simp_all add: p_def)
    have B: "B = release (move A i p) i\<lparr>ar_world := (ar_world A)\<lparr>w_db := d\<rparr>\<rparr>" by (simp add: commit p_def)
    have "accountable (rq i) hash (ar_world A)" using okR by (simp add: stage_ok_def)
    from tx_writes_schema [OF this sch, of inviteID] sch commit_tx_db [of "rr_env (rq i)" "w_db (ar_world A)"
        "tx_writes (rq i) hash inviteID (w_db (ar_world A))"]
    have "schema_ok d" by (auto simp: commit(3))
    then have "arena_inv c u s rq B"
      by (intro move_inv [OF inv, of B i p] lock_passes_locking(4)) (simp_all add: B commit(2) p)
    moreover have "step_effect c u s rq A i B"
      using commit_effect [OF okR commit(3)] by (intro whole_effect [of A i p]) (simp_all add: B commit(2) p_def)
    ultimately show ?thesis by simp
  next
    case (rollback e)
    have "arena_inv c u s rq B"
      by (intro move_inv [OF inv, of B i "Finished (Inl e)"] lock_passes_locking(4)) (simp_all add: rollback sch)
    moreover have "step_effect c u s rq A i B"
      by (rule silent_effect [of "Finished (Inl e)"]) (simp_all add: rollback)
    ultimately show ?thesis by simp
  next
    case (audit p reason inviteID)
    define st where "st = (if inviteID \<noteq> [] then Redeeming p inviteID else Finished (Inr p))"
    have st: "\<not> locking st" "answer st = Some (Inr p)" "stage_ok c u s q w st" for q w by (simp_all add: st_def)
    have B: "B = (move A i st)\<lparr>ar_world := Record (rr_env (rq i)) (service_event (u_ID p) (u_Username p) ''auth.register''
        (u_Username p) ResultOK reason) (ar_world A)\<rparr>" by (simp add: audit st_def)
    have "ar_holder A \<noteq> Some i" by (rule not_holder [OF inv]) (simp_all add: audit)
    then have "arena_inv c u s rq B"
      by (intro move_inv [OF inv, of B i st] lock_passes_locking(2)) (simp_all add: B sch st)
    moreover have "step_effect c u s rq A i B"
      by (rule silent_effect [of st]) (simp_all add: B st audit(2))
    ultimately show ?thesis by simp
  next
    case (audit_invite p inviteID)
    have "ar_holder A \<noteq> Some i" by (rule not_holder [OF inv]) (simp_all add: audit_invite)
    then have "arena_inv c u s rq B"
      by (intro move_inv [OF inv, of B i "Finished (Inr p)"] lock_passes_locking(2)) (simp_all add: audit_invite sch)
    moreover have "step_effect c u s rq A i B"
      by (rule silent_effect [of "Finished (Inr p)"]) (simp_all add: audit_invite)
    ultimately show ?thesis by simp
  qed
qed

lemma leaves_step:
  assumes step: "reg_step c u s rq A (Leaves i) B" and inv: "arena_inv c u s rq A"
  shows "arena_inv c u s rq B \<and> step_effect c u s rq A i B"
proof -
  have sch: "schema_ok (w_db (ar_world A))" using inv by (simp add: arena_inv_def)
  from step show ?thesis
  proof cases
    case queue_left
    have "ar_holder A \<noteq> Some i" by (rule not_holder [OF inv]) (simp_all add: queue_left)
    then have "arena_inv c u s rq B"
      by (intro move_inv [OF inv, of B i Gone] lock_passes_locking(2)) (simp_all add: queue_left sch)
    moreover have "step_effect c u s rq A i B" by (rule silent_effect [of Gone]) (simp_all add: queue_left)
    ultimately show ?thesis by simp
  next
    case tx_left
    have "arena_inv c u s rq B"
      by (intro move_inv [OF inv, of B i Gone] lock_passes_locking(4)) (simp_all add: tx_left(1) sch)
    moreover have "step_effect c u s rq A i B"
      by (rule silent_effect [of Gone]) (simp_all add: tx_left(1) cancelled_answer [OF tx_left(2)])
    ultimately show ?thesis by simp
  qed
qed

lemma others_step:
  assumes step: "reg_step c u s rq A (Others f) B" and inv: "arena_inv c u s rq A"
  shows "arena_inv c u s rq B \<and> ar_at B = ar_at A \<and> ar_ops B = ar_ops A @ [f] \<and> ar_world B = f (ar_world A) \<and>
    trail_blind f \<and> outsider (held A) (ar_world A) (f (ar_world A))"
  using step
proof cases
  case other
  have sch: "schema_ok (w_db (ar_world A))" using inv by (simp add: arena_inv_def)
  have "stage_ok c u s (rq i) (f (ar_world A)) (ar_at A i)" for i
  proof (cases "locking (ar_at A i)")
    case True
    then have "ar_holder A = Some i" using inv by (simp add: arena_inv_def exclusive_def)
    then have "outsider (stage_invite (ar_at A i)) (ar_world A) (f (ar_world A))" using other(3) by (simp add: held_def)
    then show ?thesis by (rule stage_ok_stable [rotated]) (use inv in \<open>simp_all add: arena_inv_def\<close>)
  next
    case False
    then show ?thesis using inv stage_ok_quiet [OF False] unfolding arena_inv_def by blast
  qed
  with inv other sch show ?thesis by (simp add: arena_inv_def exclusive_def outsider_def)
qed

lemma arena_step_inv: "reg_step c u s rq A l B \<Longrightarrow> arena_inv c u s rq A \<Longrightarrow> arena_inv c u s rq B"
  using by_step [of c u s rq A _ B] leaves_step [of c u s rq A _ B] others_step [of c u s rq A _ B] by (cases l) auto

lemma arena_reach_inv: "reg_reaches c u s rq A B \<Longrightarrow> arena_inv c u s rq A \<Longrightarrow> arena_inv c u s rq B"
  by (induction rule: reg_reaches.induct) (auto intro: arena_step_inv)

section \<open>Every interleaving is serial\<close>

lemma replay_append:
  "replay c u s rq (hs @ hs') w =
     (let (rs, w1) = replay c u s rq hs w; (rs', w2) = replay c u s rq hs' w1 in (rs @ rs', w2))"
  by (induction hs arbitrary: w) (auto simp: Let_def split: happening.split prod.split)

lemma operations_append [simp]: "operations (hs @ hs') = operations hs @ operations hs'"
  by (simp add: operations_def List.map_filter_def)

lemma operations_simps [simp]:
  "operations [] = []" "operations [Registration i] = []" "operations [Operation f] = [f]"
  by (simp_all add: operations_def List.map_filter_def)

text \<open>A serial history of an arena: its answers are those of the history, each once, and its other operations too.\<close>

definition history :: "crypto \<Rightarrow> unicode \<Rightarrow> service \<Rightarrow> (nat \<Rightarrow> reg_request) \<Rightarrow> world \<Rightarrow> happening list
   \<Rightarrow> (nat \<times> (auth_error + user)) list \<Rightarrow> arena \<Rightarrow> bool" where
  "history c u s rq w hs rs A \<longleftrightarrow> (\<exists>v. replay c u s rq hs w = (rs, v) \<and> same_core v (ar_world A)) \<and>
     operations hs = ar_ops A \<and> distinct (map fst rs) \<and> (\<forall>i r. answer (ar_at A i) = Some r \<longleftrightarrow> (i, r) \<in> set rs)"

lemma history_step:
  assumes h: "history c u s rq w hs rs A" and e: "step_effect c u s rq A i B"
  shows "\<exists>hs' rs'. history c u s rq w hs' rs' B"
proof -
  obtain v where v: "replay c u s rq hs w = (rs, v)" "same_core v (ar_world A)" using h by (auto simp: history_def)
  have tr: "operations hs = ar_ops A" "distinct (map fst rs)" "\<And>j r. answer (ar_at A j) = Some r \<longleftrightarrow> (j, r) \<in> set rs"
    using h by (auto simp: history_def)
  have frame: "ar_ops B = ar_ops A" "\<And>j. j \<noteq> i \<Longrightarrow> ar_at B j = ar_at A j"
    using e by (auto simp: step_effect_def)
  consider (silent) "answer (ar_at B i) = answer (ar_at A i)" "same_core (ar_world A) (ar_world B)"
    | (whole) "answer (ar_at A i) = None" "takes_effect c u s (rq i) (ar_world A) (ar_at B i) (ar_world B)"
    using e by (auto simp: step_effect_def)
  then show ?thesis
  proof cases
    case silent
    have "answer (ar_at B j) = answer (ar_at A j)" for j using silent(1) frame(2) by (cases "j = i") simp_all
    with v tr frame(1) silent(2) same_core_trans [OF v(2) silent(2)] show ?thesis
      by (intro exI [of _ hs] exI [of _ rs]) (auto simp: history_def)
  next
    case whole
    obtain r v' where reg: "register_one c u s (rq i) v = (r, v')" by fastforce
    note cong = register_one_core [OF same_core_sym [OF v(2)], of c u s "rq i", unfolded reg fst_conv snd_conv]
    have r: "answer (ar_at B i) = Some r" using whole(2) cong by (simp add: takes_effect_def)
    have v': "same_core v' (ar_world B)"
      by (rule same_core_trans [OF same_core_sym [OF cong [THEN conjunct2]]]) (use whole(2) in \<open>simp add: takes_effect_def\<close>)
    have new: "(i, x) \<notin> set rs" for x using tr(3) [of i x] whole(1) by simp
    have run: "replay c u s rq (hs @ [Registration i]) w = (rs @ [(i, r)], v')"
      by (simp add: replay_append v(1) reg Let_def)
    have "answer (ar_at B j) = Some x \<longleftrightarrow> (j, x) \<in> set (rs @ [(i, r)])" for j x
      using frame(2) [of j] tr(3) [of j x] r new by (cases "j = i") auto
    moreover have "distinct (map fst (rs @ [(i, r)]))" using tr(2) new by force
    ultimately show ?thesis
      using run v' tr(1) frame(1)
      by (intro exI [of _ "hs @ [Registration i]"] exI [of _ "rs @ [(i, r)]"]) (auto simp: history_def)
  qed
qed

lemma history_other:
  assumes h: "history c u s rq w hs rs A" and f: "trail_blind f"
    and B: "ar_at B = ar_at A" "ar_ops B = ar_ops A @ [f]" "ar_world B = f (ar_world A)"
  shows "history c u s rq w (hs @ [Operation f]) rs B"
proof -
  obtain v where v: "replay c u s rq hs w = (rs, v)" "same_core v (ar_world A)" using h by (auto simp: history_def)
  have "replay c u s rq (hs @ [Operation f]) w = (rs, f v)" by (simp add: replay_append v(1) Let_def)
  moreover have "same_core (f v) (ar_world B)" using f v(2) by (simp add: B trail_blind_def)
  ultimately show ?thesis using h by (auto simp: history_def B)
qed

lemma reaches_serial:
  assumes "reg_reaches c u s rq (at_rest w n) A" and "schema_ok (w_db w)"
  shows "\<exists>hs rs. history c u s rq w hs rs A"
  using assms(1)
proof (induction rule: reg_reaches.induct)
  case start
  show ?case by (intro exI [of _ "[]"]) (simp add: at_rest_def history_def)
next
  case (step B l C)
  have inv: "arena_inv c u s rq B" using arena_reach_inv [OF step(1) arena_inv_at_rest [OF assms(2)]] .
  from step.IH obtain hs rs where h: "history c u s rq w hs rs B" by blast
  show ?case
  proof (cases l)
    case (By i)
    with by_step [of c u s rq B i C] step(2) inv history_step [OF h] show ?thesis by blast
  next
    case (Leaves i)
    with leaves_step [of c u s rq B i C] step(2) inv history_step [OF h] show ?thesis by blast
  next
    case (Others f)
    with others_step [of c u s rq B f C] step(2) inv history_other [OF h] show ?thesis by blast
  qed
qed

text \<open>
  C15 Registrations that overlap are serial: whatever the interleaving of their statements, with each other, with
  clients that leave, and with any other operations that respect the row lock and leave the accounts' names alone, there
  is one order of whole registrations and of exactly those operations, which, run one after the other from the same
  start, gives every request whose answer is certain this answer, and no other request takes part; and it ends in the
  same tables, all but the audit trail, and the same files. So what is proved of one registration holds of all at
  once.
\<close>

theorem registrations_are_serial:
  assumes "reg_reaches c u s rq (at_rest w n) A" and "schema_ok (w_db w)"
  shows "\<exists>hs rs v. replay c u s rq hs w = (rs, v) \<and>
    core (w_db (ar_world A)) = core (w_db v) \<and> w_fs (ar_world A) = w_fs v \<and>
    operations hs = ar_ops A \<and> distinct (map fst rs) \<and>
    (\<forall>i r. answer (ar_at A i) = Some r \<longleftrightarrow> (i, r) \<in> set rs)"
  using reaches_serial [OF assms] unfolding history_def same_core_def by blast

section \<open>The limits on accounts\<close>

lemma register_one_users:
  assumes "register_one c u s q w = (r, w')"
  shows "length (users (w_db w')) = length (users (w_db w)) \<or>
    length (users (w_db w')) = Suc (length (users (w_db w))) \<and>
    (users (w_db w) = [] \<or> rp_Mode (sv_policy s) \<noteq> RegistrationClosed \<and>
       (0 < rp_MaxUsers (sv_policy s) \<longrightarrow> int (length (users (w_db w))) < rp_MaxUsers (sv_policy s)))"
  using assms unfolding register_one_def
proof (cases rule: Register_cases)
  case refused
  then show ?thesis by (auto dest: core_eqD)
next
  case (created hash reason i d2 d3)
  have n: "length (users (w_db w')) = Suc (length (users (w_db w)))"
    using core_eqD(1) [OF created(7)] insert_user_frame [OF created(5)] created(6) by simp
  from created(4) show ?thesis
    by (cases rule: admit_Inr_cases) (use n in \<open>auto simp: mode_defs\<close>)
qed

lemma step_users:
  assumes "step_effect c u s rq A i B"
  shows "length (users (w_db (ar_world B))) = length (users (w_db (ar_world A))) \<or>
    length (users (w_db (ar_world B))) = Suc (length (users (w_db (ar_world A)))) \<and>
    (users (w_db (ar_world A)) = [] \<or> rp_Mode (sv_policy s) \<noteq> RegistrationClosed \<and>
       (0 < rp_MaxUsers (sv_policy s) \<longrightarrow> int (length (users (w_db (ar_world A)))) < rp_MaxUsers (sv_policy s)))"
proof (cases "same_core (ar_world A) (ar_world B)")
  case True
  from same_core_tables(1) [OF this] show ?thesis by simp
next
  case False
  then have "same_core (snd (register_one c u s (rq i) (ar_world A))) (ar_world B)"
    using assms by (auto simp: step_effect_def takes_effect_def)
  from same_core_tables(1) [OF this] show ?thesis
    using register_one_users [of c u s "rq i" "ar_world A"] by (cases "register_one c u s (rq i) (ar_world A)") auto
qed

lemma step_cap:
  assumes "reg_step c u s rq A l B" and "arena_inv c u s rq A"
  shows "length (users (w_db (ar_world B))) = length (users (w_db (ar_world A))) \<or>
    length (users (w_db (ar_world B))) = Suc (length (users (w_db (ar_world A)))) \<and>
    (users (w_db (ar_world A)) = [] \<or> rp_Mode (sv_policy s) \<noteq> RegistrationClosed \<and>
       (0 < rp_MaxUsers (sv_policy s) \<longrightarrow> int (length (users (w_db (ar_world A)))) < rp_MaxUsers (sv_policy s)))"
proof (cases l)
  case (By i)
  with assms by_step [of c u s rq A i B] show ?thesis by (intro step_users) auto
next
  case (Leaves i)
  with assms leaves_step [of c u s rq A i B] show ?thesis by (intro step_users) auto
next
  case (Others f)
  with assms others_step [of c u s rq A f B] outsider_length [of "held A" "ar_world A" "f (ar_world A)"] show ?thesis by auto
qed

text \<open>
  C16 The limits on accounts hold under concurrent requests: however many registrations overlap, the accounts
  never exceed the configured number, and a closed service that starts empty gets one account, not two.
\<close>

theorem account_limits_hold:
  assumes "reg_reaches c u s rq (at_rest w n) A" and "schema_ok (w_db w)"
  shows "(0 < rp_MaxUsers (sv_policy s) \<longrightarrow>
       int (length (users (w_db (ar_world A)))) \<le> max (rp_MaxUsers (sv_policy s)) (int (length (users (w_db w))))) \<and>
    (rp_Mode (sv_policy s) = RegistrationClosed \<longrightarrow>
       length (users (w_db (ar_world A))) \<le> max 1 (length (users (w_db w))))"
  using assms(1)
proof (induction rule: reg_reaches.induct)
  case start
  show ?case by (simp add: at_rest_def)
next
  case (step B l C)
  have inv: "arena_inv c u s rq B" using arena_reach_inv [OF step(1) arena_inv_at_rest [OF assms(2)]] .
  show ?case
    using step_cap [OF step(2) inv] step.IH by (cases "users (w_db (ar_world B)) = []") auto
qed

section \<open>Other operations of the service\<close>

text \<open>That the rule for other operations does not ask too much: operations of the service that go between.\<close>

lemma outsider_core:
  assumes "core (w_db w') = core d" and "users d = users (w_db w)" and "invites d = invites (w_db w)"
    and "schema_ok (w_db w) \<Longrightarrow> schema_ok (w_db w')"
  shows "outsider H w w'"
  using core_eqD(1,7) [OF assms(1)] assms(2-4) by (intro outsider_same) simp_all

lemma Login_outsider: "outsider H w (snd (Login env c rnd dummy s nm pw addr w))"
proof -
  obtain r w' where x: "Login env c rnd dummy s nm pw addr w = (r, w')" by fastforce
  then have "outsider H w w'"
  proof (cases rule: Login_cases)
    case (error e P)
    then show ?thesis by (intro outsider_core [OF error(3)]) simp_all
  next
    case failed
    then show ?thesis by (intro outsider_core [OF failed(4)]) (simp_all add: prune_failures_def)
  next
    case (ok row token)
    then show ?thesis by (intro outsider_core [OF ok(7)]) simp_all
  qed
  then show ?thesis by (simp add: x)
qed

lemma isThrottled_core:
  assumes "same_core w v"
  shows "fst (isThrottled env uk ak v) = fst (isThrottled env uk ak w) \<and>
    same_core (snd (isThrottled env uk ak w)) (snd (isThrottled env uk ak v))"
  using same_core_tables [OF assms] assms
  by (auto simp: isThrottled_def exec_def recent_failures_def prune_failures_def intro!: same_coreI)

lemma loginFailed_core:
  assumes "same_core w v"
  shows "fst (loginFailed env nm uk ak reason v) = fst (loginFailed env nm uk ak reason w) \<and>
    same_core (snd (loginFailed env nm uk ak reason w)) (snd (loginFailed env nm uk ak reason v))"
  using same_core_tables [OF assms] assms
  by (auto simp: loginFailed_def exec_def insert_failures_def intro!: same_coreI)

lemma createSession_core:
  assumes "same_core w v"
  shows "fst (createSession env c rnd s uid v) = fst (createSession env c rnd s uid w) \<and>
    same_core (snd (createSession env c rnd s uid w)) (snd (createSession env c rnd s uid v))"
  using same_core_tables [OF assms] assms
  by (auto simp: createSession_def exec_def insert_session_def intro!: same_coreI split: option.split)

lemma login_success_core:
  assumes "same_core w v"
  shows "same_core (snd (login_success env c rnd s nm row w)) (snd (login_success env c rnd s nm row v))"
proof (cases "en_fail env CallClearFailures")
  case True
  with assms show ?thesis by (simp add: login_success_def exec_def)
next
  case False
  let ?clear = "\<lambda>w. w\<lparr>w_db := (w_db w)\<lparr>failures := delete_where (\<lambda>f. lf_key f = userKey nm) (failures (w_db w))\<rparr>\<rparr>"
  have "same_core (?clear w) (?clear v)"
    using same_core_tables [OF assms] by (intro same_coreI) simp_all
  note cong = createSession_core [OF this, of env c rnd s "ur_id row"]
  obtain r w1 r' v1 where "createSession env c rnd s (ur_id row) (?clear w) = (r, w1)"
      "createSession env c rnd s (ur_id row) (?clear v) = (r', v1)" by fastforce
  with False cong show ?thesis by (simp add: login_success_def exec_def split: sum.split)
qed

lemma login_rest_core:
  assumes "same_core w v"
  shows "same_core (snd (login_rest env c rnd s nm pw addr w)) (snd (login_rest env c rnd s nm pw addr v))"
proof -
  have refuse: "same_core (snd (let (e, w2) = loginFailed env nm (userKey nm) (addrKey addr) reason w in (Inl e, w2)))
      (snd (let (e, w2) = loginFailed env nm (userKey nm) (addrKey addr) reason v in (Inl e, w2)))" for reason
    using loginFailed_core [OF assms, of env nm "userKey nm" "addrKey addr" reason] by (simp add: case_prod_unfold Let_def)
  have user: "user_by_name nm (w_db v) = user_by_name nm (w_db w)"
    using same_core_tables(1) [OF assms] by (simp add: user_by_name_def)
  consider "en_fail env CallSelectUser" | "\<not> en_fail env CallSelectUser" "user_by_name nm (w_db w) = None"
    | row e where "\<not> en_fail env CallSelectUser" "user_by_name nm (w_db w) = Some row" "VerifyPassword c pw (ur_hash row) = Inl e"
    | row where "\<not> en_fail env CallSelectUser" "user_by_name nm (w_db w) = Some row" "VerifyPassword c pw (ur_hash row) = Inr False"
    | row where "\<not> en_fail env CallSelectUser" "user_by_name nm (w_db w) = Some row" "VerifyPassword c pw (ur_hash row) = Inr True"
    by (metis (full_types) option.exhaust sum.exhaust)
  then show ?thesis
    by cases (use assms refuse user login_success_core [OF assms] in \<open>simp_all add: login_rest_def exec_def Let_def\<close>)
qed

lemma Login_blind: "trail_blind (\<lambda>w. snd (Login env c rnd dummy s nm pw addr w))"
  unfolding trail_blind_def
proof (intro allI impI)
  fix w v
  assume wv: "same_core w v"
  obtain r w1 r' v1 where thr: "isThrottled env (userKey nm) (addrKey addr) w = (r, w1)"
      "isThrottled env (userKey nm) (addrKey addr) v = (r', v1)" by fastforce
  with isThrottled_core [OF wv, of env "userKey nm" "addrKey addr"] have eq: "r' = r" "same_core w1 v1" by simp_all
  consider e where "r = Inl e" | "r = Inr True" | "r = Inr False" by (metis (full_types) sum.exhaust)
  then show "same_core (snd (Login env c rnd dummy s nm pw addr w)) (snd (Login env c rnd dummy s nm pw addr v))"
    by cases (simp_all add: Login_split thr eq login_rest_core [OF eq(2)])
qed

lemma RevokeInvite_outsider:
  assumes "i \<notin> H"
  shows "outsider H w (snd (RevokeInvite env admin i w))"
proof -
  let ?d = "revoke_invite_row i (en_now env) (w_db w)"
  have d: "outsider H w (w\<lparr>w_db := ?d\<rparr>)"
    unfolding outsider_def
  proof (intro conjI impI ballI)
    show "map (\<lambda>x. (ur_id x, ur_username x)) (users (w_db (w\<lparr>w_db := ?d\<rparr>))) =
        map (\<lambda>x. (ur_id x, ur_username x)) (users (w_db w))"
      by (simp add: revoke_invite_row_def)
    show "schema_ok (w_db (w\<lparr>w_db := ?d\<rparr>))" if "schema_ok (w_db w)"
      using schema_revoke_invite_row [OF that] by simp
    show "r \<in> set (invites (w_db (w\<lparr>w_db := ?d\<rparr>)))" if "r \<in> set (invites (w_db w))" "i_id r \<in> H" for r
      using that assms by (force simp: revoke_invite_row_def update_where_def image_iff)
  qed
  have "outsider H w (Record env e (w\<lparr>w_db := ?d\<rparr>))" for e
    using d Record_schema [of "w\<lparr>w_db := ?d\<rparr>" env e] by (simp add: outsider_def)
  with d show ?thesis by (simp add: RevokeInvite_def exec_def split: option.split)
qed

lemma RevokeInvite_blind: "trail_blind (\<lambda>w. snd (RevokeInvite env admin i w))"
  unfolding trail_blind_def
proof (intro allI impI)
  fix w v
  assume wv: "same_core w v"
  note tables = same_core_tables [OF wv]
  have d: "same_core (w\<lparr>w_db := revoke_invite_row i t (w_db w)\<rparr>) (v\<lparr>w_db := revoke_invite_row i t (w_db v)\<rparr>)" for t
    using tables by (intro same_coreI) (simp_all add: revoke_invite_row_def)
  show "same_core (snd (RevokeInvite env admin i w)) (snd (RevokeInvite env admin i v))"
    using d wv tables(7) by (simp add: RevokeInvite_def exec_def split: option.split)
qed

section \<open>The connections\<close>

text \<open>With a connection to spare somebody can go on.\<close>

lemma stage_progress:
  assumes "0 < ar_free A" and "locking (ar_at A j) \<or> answer (ar_at A j) \<noteq> None" and "\<And>r. ar_at A j \<noteq> Finished r"
  shows "\<exists>B. reg_step c u s rq A (By j) B"
proof (cases "ar_at A j")
  case (Ready hash reason i)
  obtain ok d where "commit_tx (rr_env (rq j)) (w_db (ar_world A)) (tx_writes (rq j) hash i (w_db (ar_world A))) = (ok, d)"
    by fastforce
  from commit [of A j, OF Ready, where rq = rq, OF this] show ?thesis by blast
qed (use assms in \<open>auto intro: count lookup deny insert consume rollback audit audit_invite\<close>)

lemma registration_progress:
  assumes reach: "reg_reaches c u s rq (at_rest w n) A" and sch: "schema_ok (w_db w)"
    and free: "0 < ar_free A" and open_i: "ar_at A i \<noteq> Gone" "\<And>r. ar_at A i \<noteq> Finished r"
  shows "\<exists>j B. reg_step c u s rq A (By j) B"
proof -
  have ex: "locking (ar_at A j) \<Longrightarrow> ar_holder A = Some j"
      "ar_holder A = Some j \<Longrightarrow> locking (ar_at A j) \<or> (\<exists>e. ar_at A j = Ending e)" for j
    using arena_reach_inv [OF reach arena_inv_at_rest [OF sch]] unfolding arena_inv_def exclusive_def by blast+
  show ?thesis
  proof (cases "locking (ar_at A i) \<or> answer (ar_at A i) \<noteq> None")
    case True
    with stage_progress [OF free True open_i(2)] show ?thesis by blast
  next
    case idle: False
    then consider "ar_at A i = Outside" | hash where "ar_at A i = Waiting hash"
      using open_i by (cases "ar_at A i") auto
    then show ?thesis
    proof cases
      case 1
      then show ?thesis
        using free by (cases "register_entry c (rq i)") (blast intro: reject begin_tx)+
    next
      case 2
      show ?thesis
      proof (cases "ar_holder A")
        case None
        with 2 show ?thesis
          by (cases "en_fail (rr_env (rq i)) CallLockRegistration") (blast intro: lock lock_failed)+
      next
        case (Some j)
        from ex(2) [OF this] show ?thesis
        proof
          assume "locking (ar_at A j)"
          then have "\<And>r. ar_at A j \<noteq> Finished r" by auto
          with stage_progress [OF free, of j] \<open>locking (ar_at A j)\<close> show ?thesis by blast
        qed (blast intro: rollback)
      qed
    qed
  qed
qed

text \<open>The state that stops: the first request has the lock, the others of the pool wait for it.\<close>

definition queue :: "world \<Rightarrow> nat \<Rightarrow> (nat \<Rightarrow> string) \<Rightarrow> nat \<Rightarrow> arena" where
  "queue w n h k = \<lparr>ar_world = w, ar_free = n - k, ar_holder = None,
     ar_at = (\<lambda>i. if i < k then Waiting (h i) else Outside), ar_ops = []\<rparr>"

lemma queue_reached:
  assumes "\<And>i. register_entry c (rq i) = Inr (h i)" and "k \<le> n"
  shows "reg_reaches c u s rq (at_rest w n) (queue w n h k)"
  using assms(2)
proof (induction k)
  case 0
  have "queue w n h 0 = at_rest w n" by (simp add: queue_def at_rest_def)
  then show ?case by (simp add: reg_reaches.start)
next
  case (Suc k)
  have "reg_step c u s rq (queue w n h k) (By k)
      ((move (queue w n h k) k (Waiting (h k)))\<lparr>ar_free := ar_free (queue w n h k) - 1\<rparr>)"
    using Suc.prems by (intro begin_tx assms(1)) (auto simp: queue_def)
  moreover have "(move (queue w n h k) k (Waiting (h k)))\<lparr>ar_free := ar_free (queue w n h k) - 1\<rparr> = queue w n h (Suc k)"
    using Suc.prems by (auto simp: queue_def move_def fun_eq_iff)
  ultimately show ?case using Suc reg_reaches.step by fastforce
qed

text \<open>A request with the lock that is going to be refused gets to the audit event of its refusal.\<close>

lemma denial_verdict:
  assumes "fst (admit c u s q w) = Inl e" and "is_denial e"
  shows "\<not> en_fail (rr_env q) CallLockRegistration \<and>
    ((\<exists>reason. count_users u s q w = Deny reason e) \<or>
     (\<exists>code reason. count_users u s q w = Lookup code \<and> select_invite c q code w = Deny reason e))"
  using assms verdict_denials(3) [of u s q w e] verdict_denials(4) [of c q _ w e]
  by (auto simp: admit_split decided_def is_denial_def split: if_splits verdict.splits)

lemma denial_reached:
  assumes "ar_at A i = Locked hash" and "fst (admit c u s (rq i) (ar_world A)) = Inl e" and "is_denial e"
  obtains reason where "reg_reaches c u s rq A (move A i (Denying reason e))"
proof -
  have first: "reg_reaches c u s rq A (move A i (follow hash (count_users u s (rq i) (ar_world A))))"
    by (rule reg_reaches.step [OF reg_reaches.start reg_step.count [OF assms(1)]])
  from denial_verdict [OF assms(2,3)] consider reason where "count_users u s (rq i) (ar_world A) = Deny reason e"
    | code reason where "count_users u s (rq i) (ar_world A) = Lookup code" "select_invite c (rq i) code (ar_world A) = Deny reason e"
    by blast
  then show thesis
  proof cases
    case 1
    with first that [of reason] show thesis by (simp add: follow_def)
  next
    case 2
    let ?L = "move A i (Looking hash code)"
    have "reg_reaches c u s rq A ?L" using first 2(1) by (simp add: follow_def)
    moreover have "reg_step c u s rq ?L (By i) (move ?L i (follow hash (select_invite c (rq i) code (ar_world ?L))))"
      by (rule lookup) simp
    ultimately have "reg_reaches c u s rq A (move ?L i (Denying reason e))"
      using 2(2) reg_reaches.step by (fastforce simp: follow_def)
    moreover have "move ?L i (Denying reason e) = move A i (Denying reason e)" by (simp add: move_def)
    ultimately show thesis using that by simp
  qed
qed

lemma reaches_trans:
  assumes "reg_reaches c u s rq B C" and "reg_reaches c u s rq A B"
  shows "reg_reaches c u s rq A C"
  using assms by (induction rule: reg_reaches.induct) (auto intro: reg_reaches.step)

text \<open>
  C35 A spare connection is what keeps registration alive. While one is free, every unanswered request
  means that some request can go on. But for a pool of any size, as many clients that are going to be
  refused stop the service: the one with the lock waits for a connection to record its refusal, the
  others wait with all of them for the lock, and nothing can happen until a client gives up.
\<close>

theorem registration_needs_a_spare_connection:
  assumes "schema_ok (w_db w)"
  shows "(\<forall>A i. reg_reaches c u s rq (at_rest w n) A \<and> 0 < ar_free A \<and> ar_at A i \<noteq> Gone \<and>
       (\<forall>r. ar_at A i \<noteq> Finished r) \<longrightarrow> (\<exists>j B. reg_step c u s rq A (By j) B)) \<and>
    (0 < n \<and> (\<forall>i. \<exists>hash. register_entry c (rq i) = Inr hash) \<and>
       (\<exists>e. is_denial e \<and> fst (admit c u s (rq 0) w) = Inl e) \<longrightarrow>
     (\<exists>A. reg_reaches c u s rq (at_rest w n) A \<and> ar_world A = w \<and> (\<forall>i<n. \<forall>r. ar_at A i \<noteq> Finished r) \<and>
       (\<forall>l B. reg_step c u s rq A l B \<longrightarrow> (\<exists>i. l = Leaves i))))"
proof (intro conjI impI allI)
  show "\<exists>j B. reg_step c u s rq A (By j) B"
    if "reg_reaches c u s rq (at_rest w n) A \<and> 0 < ar_free A \<and> ar_at A i \<noteq> Gone \<and> (\<forall>r. ar_at A i \<noteq> Finished r)" for A i
    using registration_progress [OF _ assms] that by blast
next
  assume p: "0 < n \<and> (\<forall>i. \<exists>hash. register_entry c (rq i) = Inr hash) \<and>
       (\<exists>e. is_denial e \<and> fst (admit c u s (rq 0) w) = Inl e)"
  then obtain h where h: "\<And>i. register_entry c (rq i) = Inr (h i)" by metis
  from p obtain e where e: "is_denial e" "fst (admit c u s (rq 0) w) = Inl e" by blast
  define L where "L = (move (queue w n h n) 0 (Locked (h 0)))\<lparr>ar_holder := Some 0\<rparr>"
  have "reg_step c u s rq (queue w n h n) (By 0) L"
    unfolding L_def using p denial_verdict [OF e(2,1)] by (intro lock) (auto simp: queue_def)
  with queue_reached [where rq = rq, OF h order_refl] have L: "reg_reaches c u s rq (at_rest w n) L"
    by (rule reg_reaches.step)
  have at: "ar_at L 0 = Locked (h 0)" "ar_world L = w" by (simp_all add: L_def queue_def)
  obtain reason where "reg_reaches c u s rq L (move L 0 (Denying reason e))"
    by (rule denial_reached [OF at(1), of c u s rq e]) (use e in \<open>simp_all add: at(2)\<close>)
  from reaches_trans [OF this L] have A: "reg_reaches c u s rq (at_rest w n) (move L 0 (Denying reason e))" .
  define A where "A = move L 0 (Denying reason e)"
  have parts: "ar_world A = w" "ar_free A = 0" "ar_holder A = Some 0"
      "ar_at A = (\<lambda>i. if i = 0 then Denying reason e else if i < n then Waiting (h i) else Outside)"
    by (auto simp: A_def L_def queue_def)
  have "\<exists>i. l = Leaves i" if "reg_step c u s rq A l B" for l B
    using that by cases (use h in \<open>auto simp: parts split: if_splits\<close>)
  with A parts show "\<exists>A. reg_reaches c u s rq (at_rest w n) A \<and> ar_world A = w \<and> (\<forall>i<n. \<forall>r. ar_at A i \<noteq> Finished r) \<and>
       (\<forall>l B. reg_step c u s rq A l B \<longrightarrow> (\<exists>i. l = Leaves i))"
    by (intro exI [of _ A]) (auto simp: A_def)
qed

section \<open>Two registrations that overlap\<close>

text \<open>What a registration that succeeds did, statement by statement.\<close>

lemma register_one_Inr:
  assumes "register_one c u s q w = (Inr p, w')"
  obtains hash reason i where "register_entry c q = Inr hash" "fst (admit c u s q w) = Inr (reason, i)"
    "accountable q hash w" "i \<noteq> [] \<longrightarrow> \<not> en_fail (rr_env q) CallConsumeInvite"
    "commit_tx (rr_env q) (w_db w) (tx_writes q hash i (w_db w)) = (True, tx_writes q hash i (w_db w))"
    "p = new_account q"
    "w' = register_audit (rr_env q) p reason i (w\<lparr>w_db := tx_writes q hash i (w_db w)\<rparr>)"
proof -
  obtain hash x where e: "register_entry c q = Inr hash" "fst (admit c u s q w) = Inr x"
    using assms by (cases "register_entry c q"; cases "admit c u s q w"; cases "fst (admit c u s q w)")
      (auto simp: Register_split)
  obtain reason i where x: "x = (reason, i)" by fastforce
  have tx: "register_tx q hash reason i w = (Inr p, w')"
    using assms admitted_register [OF e [unfolded x]] by simp
  obtain d2 where ins: "exec (rr_env q) CallInsertUser
      (insert_user (new_user (rr_env q) (rr_uuid q) (rr_username q) hash) (w_db w)) = Inr d2"
    using tx by (cases "exec (rr_env q) CallInsertUser
      (insert_user (new_user (rr_env q) (rr_uuid q) (rr_username q) hash) (w_db w))")
      (auto simp: register_tx_writes split: pg_error.splits)
  then have acc: "accountable q hash w" by (auto simp: accountable_def exec_Inr)
  obtain ok d where com: "commit_tx (rr_env q) (w_db w) (tx_writes q hash i (w_db w)) = (ok, d)" by fastforce
  have con: "\<not> (i \<noteq> [] \<and> en_fail (rr_env q) CallConsumeInvite)"
  proof
    assume "i \<noteq> [] \<and> en_fail (rr_env q) CallConsumeInvite"
    then show False using tx by (simp add: register_tx_writes ins)
  qed
  have "register_tx q hash reason i w = (if ok
      then (Inr (new_account q), register_audit (rr_env q) (new_account q) reason i (w\<lparr>w_db := d\<rparr>))
      else (Inl (ErrAuthOther ''auth: commit registration''), w\<lparr>w_db := d\<rparr>))"
    by (simp only: register_tx_writes ins com con if_False sum.case prod.case) (cases ok; simp)
  note result = this [unfolded tx, symmetric]
  have ok: "ok" using result by (cases ok) simp_all
  have d: "d = tx_writes q hash i (w_db w)"
    by (rule commit_tx_True [of "rr_env q" "w_db w"]) (use com ok in simp)
  note pair = result [unfolded if_P [OF ok] prod.inject sum.inject]
  have p: "p = new_account q" "w' = register_audit (rr_env q) (new_account q) reason i (w\<lparr>w_db := d\<rparr>)"
    using pair by blast+
  show thesis
    by (rule that [OF e(1) e(2) [unfolded x] acc]) (use con com ok in \<open>auto simp: p d\<close>)
qed

text \<open>A request that is alone with the lock runs through, and its statements are \<^verbatim>\<open>Register\<close>, audit trail included.\<close>

lemma runs_through:
  assumes at: "ar_at A i = Waiting hash0" and free_lock: "ar_holder A = None"
    and entry: "register_entry c (rq i) = Inr hash0"
    and run: "register_one c u s (rq i) (ar_world A) = (Inr p, w')"
  obtains B where "reg_reaches c u s rq A B" "ar_world B = w'" "ar_at B = (ar_at A)(i := Finished (Inr p))"
    "ar_ops B = ar_ops A" "ar_free B = Suc (ar_free A)" "ar_holder B = None"
proof -
  let ?q = "rq i" and ?w = "ar_world A"
  obtain hash reason inv where r: "register_entry c ?q = Inr hash" "fst (admit c u s ?q ?w) = Inr (reason, inv)"
    "accountable ?q hash ?w" "inv \<noteq> [] \<longrightarrow> \<not> en_fail (rr_env ?q) CallConsumeInvite"
    "commit_tx (rr_env ?q) (w_db ?w) (tx_writes ?q hash inv (w_db ?w)) = (True, tx_writes ?q hash inv (w_db ?w))"
    "p = new_account ?q"
    "w' = register_audit (rr_env ?q) p reason inv (?w\<lparr>w_db := tx_writes ?q hash inv (w_db ?w)\<rparr>)"
    by (rule register_one_Inr [OF run])
  have hash: "hash0 = hash" using entry r(1) by simp
  note adm = admit_Inr [OF r(2)]
  define L where "L = (move A i (Locked hash))\<lparr>ar_holder := Some i\<rparr>"
  have "reg_step c u s rq A (By i) L"
    unfolding L_def using at free_lock adm by (intro lock) (simp_all add: hash)
  then have L: "reg_reaches c u s rq A L" by (rule reg_reaches.step [OF reg_reaches.start])
  have move2: "move (move X i x) i y = move X i y" for X x y by (simp add: move_def)
  have Lw: "ar_world L = ?w" "ar_at L i = Locked hash" by (simp_all add: L_def)
  have M: "reg_reaches c u s rq A (move L i (Admitted hash reason inv))"
    using adm
  proof (elim conjE disjE exE)
    assume v: "count_users u s ?q ?w = Admit reason inv"
    have "reg_step c u s rq L (By i) (move L i (follow hash (count_users u s ?q (ar_world L))))"
      by (rule reg_step.count [OF Lw(2)])
    with L v show ?thesis by (auto simp: Lw follow_def intro: reg_reaches.step)
  next
    fix code
    assume v: "count_users u s ?q ?w = Lookup code" "select_invite c ?q code ?w = Admit reason inv"
    have "reg_step c u s rq L (By i) (move L i (follow hash (count_users u s ?q (ar_world L))))"
      by (rule reg_step.count [OF Lw(2)])
    with L v have K: "reg_reaches c u s rq A (move L i (Looking hash code))"
      by (auto simp: Lw follow_def intro: reg_reaches.step)
    have "reg_step c u s rq (move L i (Looking hash code)) (By i)
        (move (move L i (Looking hash code)) i (follow hash (select_invite c ?q code (ar_world (move L i (Looking hash code))))))"
      by (rule lookup) simp
    with K v show ?thesis by (auto simp: Lw follow_def move2 intro: reg_reaches.step)
  qed
  obtain d2 where ins: "exec (rr_env ?q) CallInsertUser
      (insert_user (new_user (rr_env ?q) (rr_uuid ?q) (rr_username ?q) hash) (w_db ?w)) = Inr d2"
    by (rule accountable_insert [OF r(3)])
  have "reg_step c u s rq (move L i (Admitted hash reason inv)) (By i) (move (move L i (Admitted hash reason inv)) i
      (insert_account ?q hash reason inv (ar_world (move L i (Admitted hash reason inv)))))"
    by (rule reg_step.insert) simp
  with M have I: "reg_reaches c u s rq A (move L i (if inv \<noteq> [] then Inserted hash reason inv else Ready hash reason inv))"
    by (auto simp: Lw move2 insert_account_def ins intro: reg_reaches.step)
  have R: "reg_reaches c u s rq A (move L i (Ready hash reason inv))"
  proof (cases "inv = []")
    case True
    with I show ?thesis by simp
  next
    case False
    have "reg_step c u s rq (move L i (Inserted hash reason inv)) (By i) (move (move L i (Inserted hash reason inv)) i
        (if en_fail (rr_env ?q) CallConsumeInvite then Ending (ErrAuthOther ''auth: consume invite'') else Ready hash reason inv))"
      by (rule consume) simp
    with False I r(4) show ?thesis by (auto simp: move2 intro: reg_reaches.step)
  qed
  let ?w1 = "?w\<lparr>w_db := tx_writes ?q hash inv (w_db ?w)\<rparr>"
  define C where "C = release (move L i (Committed p reason inv)) i\<lparr>ar_world := ?w1\<rparr>"
  have "reg_step c u s rq (move L i (Ready hash reason inv)) (By i)
      (release (move (move L i (Ready hash reason inv)) i (if True then Committed (new_account ?q) reason inv
        else Finished (Inl (ErrAuthOther ''auth: commit registration'')))) i
        \<lparr>ar_world := (ar_world (move L i (Ready hash reason inv)))\<lparr>w_db := tx_writes ?q hash inv (w_db ?w)\<rparr>\<rparr>)"
    by (rule reg_step.commit) (simp, use r(5) in \<open>simp add: Lw\<close>)
  then have "reg_step c u s rq (move L i (Ready hash reason inv)) (By i) C" by (simp add: C_def move2 Lw r(6))
  with R have C: "reg_reaches c u s rq A C" by (rule reg_reaches.step)
  have Cp: "ar_at C = (ar_at A)(i := Committed p reason inv)" "ar_world C = ?w1" "ar_free C = Suc (ar_free A)"
      "ar_holder C = None" "ar_ops C = ar_ops A"
    by (simp_all add: C_def L_def)
  let ?w2 = "Record (rr_env ?q) (service_event (u_ID p) (u_Username p) ''auth.register'' (u_Username p) ResultOK reason) ?w1"
  define D where "D = (move C i (if inv \<noteq> [] then Redeeming p inv else Finished (Inr p)))\<lparr>ar_world := ?w2\<rparr>"
  have "reg_step c u s rq C (By i) ((move C i (if inv \<noteq> [] then Redeeming p inv else Finished (Inr p)))\<lparr>ar_world :=
      Record (rr_env ?q) (service_event (u_ID p) (u_Username p) ''auth.register'' (u_Username p) ResultOK reason) (ar_world C)\<rparr>)"
    by (rule audit) (simp_all add: Cp)
  then have "reg_step c u s rq C (By i) D" by (simp add: D_def Cp)
  with C have D: "reg_reaches c u s rq A D" by (rule reg_reaches.step)
  show thesis
  proof (cases "inv = []")
    case True
    then have "w' = ?w2" using r(7) by (simp add: register_audit_def Let_def)
    with True that [OF D] show thesis by (simp add: D_def Cp)
  next
    case False
    define E where "E = (move D i (Finished (Inr p)))\<lparr>ar_world :=
      Record (rr_env ?q) (service_event (u_ID p) (u_Username p) ''invite.redeem'' inv ResultOK []) (ar_world D)\<rparr>"
    have "reg_step c u s rq D (By i) E"
      unfolding E_def by (rule audit_invite) (simp_all add: D_def Cp False)
    with D have E: "reg_reaches c u s rq A E" by (rule reg_reaches.step)
    have "w' = ar_world E" using r(7) False by (simp add: register_audit_def Let_def E_def D_def)
    with that [OF E] show thesis by (simp add: E_def D_def Cp)
  qed
qed

text \<open>A registration that would succeed alone succeeds while another is in its transaction.\<close>

lemma overtakes:
  assumes h: "\<And>i. register_entry c (rq i) = Inr (h i)" and ok: "register_one c u s (rq 1) w = (Inr p, w')"
  obtains A where "reg_reaches c u s rq (at_rest w 2) A" "ar_world A = w'" "ar_at A 1 = Finished (Inr p)"
    "ar_at A 0 = Waiting (h 0)"
proof -
  have Q: "reg_reaches c u s rq (at_rest w 2) (queue w 2 h 2)" by (rule queue_reached [OF h order_refl])
  obtain B where B: "reg_reaches c u s rq (queue w 2 h 2) B" "ar_world B = w'"
      "ar_at B = (ar_at (queue w 2 h 2))(1 := Finished (Inr p))"
    by (rule runs_through [of "queue w 2 h 2" 1 "h 1" c rq u s p w']) (use ok h in \<open>simp_all add: queue_def\<close>)
  show thesis by (rule that [OF reaches_trans [OF B(1) Q]]) (simp_all add: B(2,3), simp add: queue_def)
qed

definition demo_reg :: reg_request where
  "demo_reg = \<lparr>rr_env = demo_env, rr_rnd = Some (\<lambda>_. 3), rr_uuid = demo_id ''07'', rr_username = ''carol'',
     rr_password = ''correct horse'', rr_code = []\<rparr>"

lemma demo_reg_one: "register_one demo_crypto demo_unicode (demo_service m) demo_reg w = demo_Register m [] w"
  by (simp add: register_one_def demo_reg_def demo_Register_def)

lemma demo_reg_entry: "\<exists>h. register_entry demo_crypto demo_reg = Inr h"
proof -
  obtain h where "HashPassword demo_crypto (Some (\<lambda>_. 3)) ''correct horse'' = Inr h"
    using demo_hash by blast
  with demo_request(1,3,4) show ?thesis by (simp add: register_entry_def demo_reg_def)
qed

text \<open>One registration overtakes another, and a failed login goes in after it.\<close>

theorem registrations_are_serial_witness:
  "\<exists>A p hs rs v. reg_reaches demo_crypto demo_unicode (demo_service ''open'') (\<lambda>_. demo_reg)
       (at_rest (demo_world\<lparr>w_db := demo_db\<rparr>) 2) A \<and> ar_at A 1 = Finished (Inr p) \<and> length (ar_ops A) = 1 \<and>
     replay demo_crypto demo_unicode (demo_service ''open'') (\<lambda>_. demo_reg) hs (demo_world\<lparr>w_db := demo_db\<rparr>) = (rs, v) \<and>
     length (operations hs) = 1 \<and> (1, Inr p) \<in> set rs \<and> core (w_db (ar_world A)) = core (w_db v)"
proof -
  obtain h where h: "register_entry demo_crypto demo_reg = Inr h" using demo_reg_entry by blast
  obtain p w' where "demo_Register ''open'' [] (demo_world\<lparr>w_db := demo_db\<rparr>) = (Inr p, w')"
    using demo_registers_open [of "demo_world\<lparr>w_db := demo_db\<rparr>"] by auto
  then have one: "register_one demo_crypto demo_unicode (demo_service ''open'') demo_reg (demo_world\<lparr>w_db := demo_db\<rparr>) = (Inr p, w')"
    by (simp add: demo_reg_one)
  let ?Q = "queue (demo_world\<lparr>w_db := demo_db\<rparr>) 2 (\<lambda>_. h) 2"
  have Q: "reg_reaches demo_crypto demo_unicode (demo_service ''open'') (\<lambda>_. demo_reg)
       (at_rest (demo_world\<lparr>w_db := demo_db\<rparr>) 2) ?Q" by (rule queue_reached) (simp_all add: h)
  obtain B where B: "reg_reaches demo_crypto demo_unicode (demo_service ''open'') (\<lambda>_. demo_reg) ?Q B"
      "ar_at B = (ar_at ?Q)(1 := Finished (Inr p))" "ar_ops B = []" "ar_free B = Suc (ar_free ?Q)"
    by (rule runs_through [of ?Q 1 h demo_crypto "\<lambda>_. demo_reg" demo_unicode "demo_service ''open''" p w'])
      (simp_all add: h queue_def one)
  define f where "f = (\<lambda>w. snd (Login demo_env demo_crypto (Some (\<lambda>_. 9)) [] (demo_service ''open'') ''bob'' ''wrong'' ''10.0.0.7'' w))"
  define A where "A = B\<lparr>ar_world := f (ar_world B), ar_ops := ar_ops B @ [f]\<rparr>"
  have "reg_step demo_crypto demo_unicode (demo_service ''open'') (\<lambda>_. demo_reg) B (Others f) A"
    unfolding A_def by (rule other) (simp_all add: B(4) f_def Login_outsider Login_blind)
  with reaches_trans [OF B(1) Q] have A: "reg_reaches demo_crypto demo_unicode (demo_service ''open'') (\<lambda>_. demo_reg)
       (at_rest (demo_world\<lparr>w_db := demo_db\<rparr>) 2) A" by (rule reg_reaches.step)
  have at: "ar_at A 1 = Finished (Inr p)" "length (ar_ops A) = 1" by (simp_all add: A_def B)
  have "schema_ok (w_db (demo_world\<lparr>w_db := demo_db\<rparr>))" using demo_schema_ok by simp
  from registrations_are_serial [OF A this] obtain hs rs v where
    "replay demo_crypto demo_unicode (demo_service ''open'') (\<lambda>_. demo_reg) hs (demo_world\<lparr>w_db := demo_db\<rparr>) = (rs, v)"
    "core (w_db (ar_world A)) = core (w_db v)" "operations hs = ar_ops A"
    "\<forall>i r. answer (ar_at A i) = Some r \<longleftrightarrow> (i, r) \<in> set rs" by blast
  moreover from this(4) at have "(1, Inr p) \<in> set rs" by (metis answer_simps(12))
  ultimately show ?thesis using A at by metis
qed

theorem account_limits_hold_witness:
  "\<exists>A p. reg_reaches demo_crypto demo_unicode (demo_service ''closed'') (\<lambda>_. demo_reg) (at_rest demo_world 2) A \<and>
     ar_at A 1 = Finished (Inr p) \<and> length (users (w_db (ar_world A))) \<le> 1"
proof -
  obtain h where h: "register_entry demo_crypto demo_reg = Inr h" using demo_reg_entry by blast
  obtain hash where hash: "HashPassword demo_crypto (Some (\<lambda>_. 3)) ''correct horse'' = Inr hash"
    using demo_hash by blast
  have w: "users (w_db demo_world) = []" "schema_ok (w_db demo_world)"
    by (simp_all add: demo_world_def empty_db_def schema_ok_empty [unfolded empty_db_def])
  obtain reason where adm: "admitRegistration demo_env demo_crypto demo_unicode (demo_service ''closed'') ''carol'' []
      demo_world = (Inr (reason, []), demo_world)"
    using admit_open [OF demo_request(1)] w(1) by blast
  have "fst (demo_Register ''closed'' [] demo_world) =
      Inr \<lparr>u_ID = demo_id ''07'', u_Username = ''carol'', u_Role = roleUser\<rparr>"
    unfolding demo_Register_def
    by (rule Register_admitted [OF demo_request(1-5) hash _ adm]) (simp add: w)
  then obtain p w' where "demo_Register ''closed'' [] demo_world = (Inr p, w')" by (metis prod.collapse)
  then obtain A where A: "reg_reaches demo_crypto demo_unicode (demo_service ''closed'') (\<lambda>_. demo_reg)
       (at_rest demo_world 2) A" "ar_at A 1 = Finished (Inr p)"
    using overtakes [of demo_crypto "\<lambda>_. demo_reg" "\<lambda>_. h"] h demo_reg_one by metis
  have "rp_Mode (sv_policy (demo_service ''closed'')) = RegistrationClosed"
    by (simp add: demo_request(8) mode_defs)
  with account_limits_hold [OF A(1) w(2)] w(1) A show ?thesis by auto
qed

text \<open>Four clients of a closed service and a pool of four connections.\<close>

theorem registration_needs_a_spare_connection_witness:
  "\<exists>A. reg_reaches demo_crypto demo_unicode (demo_service ''closed'') (\<lambda>_. demo_reg)
       (at_rest (demo_world\<lparr>w_db := demo_db\<rparr>) 4) A \<and>
     (\<forall>l B. reg_step demo_crypto demo_unicode (demo_service ''closed'') (\<lambda>_. demo_reg) A l B \<longrightarrow> (\<exists>i. l = Leaves i))"
proof -
  have "fst (admit demo_crypto demo_unicode (demo_service ''closed'') demo_reg (demo_world\<lparr>w_db := demo_db\<rparr>)) =
      Inl ErrRegistrationClosed"
    using demo_request(1,7,8,9) by (simp add: admit_def demo_reg_def admitRegistration_def exec_def mode_defs)
  then have "\<exists>e. is_denial e \<and> fst (admit demo_crypto demo_unicode (demo_service ''closed'') demo_reg
      (demo_world\<lparr>w_db := demo_db\<rparr>)) = Inl e"
    by (simp add: is_denial_def)
  with registration_needs_a_spare_connection [THEN conjunct2, of "demo_world\<lparr>w_db := demo_db\<rparr>" 4 demo_crypto
      "\<lambda>_. demo_reg" demo_unicode "demo_service ''closed''"] demo_schema_ok demo_reg_entry
  show ?thesis by auto
qed

end
