(* ===== verification/File_Races.thy ===== *)
theory File_Races
  imports Vault_Races
begin

text \<open>
  A download and the world around it: between the query that authorizes a download and the read of the object
  (\<^verbatim>\<open>Repo.Download\<close> in \<^verbatim>\<open>internal/files/files.go\<close>) other sessions go on. Whatever they do, no wrong content is
  released; but a deletion in between looks like tampering.
\<close>

text \<open>\<open>Download\<close> with a window after the authorization.\<close>

definition Download_during ::
  "(world \<Rightarrow> world) \<Rightarrow> env \<Rightarrow> fs_faults \<Rightarrow> crypto \<Rightarrow> repo \<Rightarrow> user \<Rightarrow> string \<Rightarrow> world
   \<Rightarrow> (files_error + node \<times> bytes) \<times> world" where
  "Download_during rv env flt c r p nodeID w =
     (case authorize env p nodeID ActionDownload w of
        (Inl e, w1) \<Rightarrow> (Inl e, w1)
      | (Inr st, w1) \<Rightarrow>
      let w2 = rv w1 in
      case Open c (re_store r) flt (w_fs w2) (ns_blobHash st) (ns_wrappedDEK st) of
        Inl e \<Rightarrow>
          let reason = (case e of SErrCorrupt _ \<Rightarrow> ''integrity_failure'' | SErrNotFound \<Rightarrow> ''integrity_failure''
                        | _ \<Rightarrow> ''storage_error'')
          in (Inl FErrIntegrity, Record env (user_event p ''file.download'' nodeID ResultError reason) w2)
      | Inr plain \<Rightarrow>
          (Inr (ns_node st, plain), Record env (user_event p ''file.download'' nodeID ResultOK []) w2))"

lemma Download_undisturbed: "Download_during (\<lambda>w. w) = Download"
  by (intro ext) (simp only: Download_during_def Download_def Let_def)

text \<open>Whatever happens in the window, what is released has the digest of the file that was authorized.\<close>

lemma download_is_honest:
  assumes v: "vault c (re_store r) w" and i: "pg_uuid i"
    and d: "Download_during rv env flt c r p i w = (Inr (nd, x), w')"
  shows "\<exists>f. view c (re_store r) w i = Some f \<and> permitted p f ActionDownload \<and> c_sha256 c x = c_sha256 c (fl_content f)"
proof -
  obtain ar w1 where a: "authorize env p i ActionDownload w = (ar, w1)" by fastforce
  show ?thesis
  proof (cases rule: authorize_cases [OF v a])
    case (4 n b ou)
    let ?f = "abs_node c (re_store r) (w_fs w) (w_db w) n"
    have "Open c (re_store r) flt (w_fs (rv w)) (n_blob n) (ns_wrappedDEK (with_role p (loaded (w_db w) n b ou))) = Inr x"
      using a d 4(1,2) by (auto simp: Download_during_def Let_def split: sum.splits)
    then have "c_sha256 c x = n_blob n" by (rule reads_sha [OF Open_Inr_reads])
    moreover have "c_sha256 c (fl_content ?f) = n_blob n"
      using reads_sha [OF served_reads [OF vault_served [OF v] 4(5)]] 4(6,7) by (simp add: abs_node_def blob_content_def)
    ultimately show ?thesis using 4(9,10) by simp
  qed (use a d in \<open>auto simp: Download_during_def\<close>)
qed

text \<open>
  C38 A deletion looks like tampering: when the last file of a content is deleted between the authorization of a
  download and the read of its object, the download is answered as an integrity failure and audited as one, although
  the deletion succeeds and the vault is consistent before and after. Whatever else happens in the window, a
  download that goes through has the digest of the file that was authorized.
\<close>

theorem deletion_looks_like_tampering:
  assumes q: "quiet env" "quiet env'" and v: "vault c (re_store r) w" and f: "view c (re_store r) w i = Some f"
    and i: "pg_uuid i" and n: "node_by_id i (w_db w) = Some n" and last: "node_count (n_blob n) (w_db w) = 1"
    and p: "permitted p f ActionDownload" and o: "permitted owner f ActionDelete"
    and del: "Delete env' no_faults r idle idle owner i w = (gone, w1)"
  shows "gone = Inr () \<and> vault c (re_store r) w1 \<and> view c (re_store r) w1 = (view c (re_store r) w)(i := None) \<and>
    Download_during (\<lambda>v. snd (Delete env' no_faults r idle idle owner i v)) env no_faults c r p i w =
      (Inl FErrIntegrity, Record env (user_event p ''file.download'' i ResultError ''integrity_failure'') w1) \<and>
    (\<forall>rv nd x w2. Download_during rv env no_faults c r p i w = (Inr (nd, x), w2) \<longrightarrow>
       c_sha256 c x = c_sha256 c (fl_content f))"
proof -
  obtain d where d: "delete_tx env' i (n_blob n) (w_db w) = Inr (0, d)"
    using delete_tx_counts [OF q(2) vault_meta [OF v] n] last by (auto simp: max_integer_def)
  have run: "gone = Inr ()" "fs_files (w_fs w1) (objectPath (re_store r) (n_blob n)) = None"
    using del Delete_runs [OF q(2) v f o i n, of no_faults idle idle] d
    by (auto simp: idle_def finish_delete_def Remove_def no_faults_def Let_def)
  have kept: "vault c (re_store r) w1" "view c (re_store r) w1 = (view c (re_store r) w)(i := None)"
    using Delete_step [OF v tame_idle no_republish_idle del] run(1) by auto
  obtain ar w0 where a: "authorize env p i ActionDownload w = (ar, w0)" by fastforce
  have alarm: "Download_during (\<lambda>v. snd (Delete env' no_faults r idle idle owner i v)) env no_faults c r p i w =
      (Inl FErrIntegrity, Record env (user_event p ''file.download'' i ResultError ''integrity_failure'') w1)"
  proof (cases rule: authorize_cases [OF v a])
    case (4 m b ou)
    have "n_blob m = n_blob n" using 4(3) n by simp
    moreover have "length (n_blob m) = HashSize"
      using reads_length [OF served_reads [OF vault_served [OF v] 4(5)]] 4(6) by simp
    ultimately show ?thesis
      using a 4(1,2) del run(2) by (simp add: Download_during_def Open_def no_faults_def)
  qed (use q(1) f p i in \<open>auto simp: quiet_def\<close>)
  with run kept download_is_honest [OF v i] f show ?thesis by fastforce
qed

theorem deletion_looks_like_tampering_witness:
  "\<exists>w w1. vault demo_crypto (re_store demo_repo) w \<and>
     Delete demo_env no_faults demo_repo idle idle demo_bob (demo_id ''11'') w = (Inr (), w1) \<and>
     Download_during (\<lambda>v. snd (Delete demo_env no_faults demo_repo idle idle demo_bob (demo_id ''11'') v)) demo_env
       no_faults demo_crypto demo_repo demo_bob (demo_id ''11'') w =
       (Inl FErrIntegrity, Record demo_env (user_event demo_bob ''file.download'' (demo_id ''11'') ResultError
          ''integrity_failure'') w1)"
proof -
  obtain nd w where v: "vault demo_crypto demo_store w" and f: "view demo_crypto demo_store w = [demo_id ''11'' \<mapsto> demo_file]"
    by (rule demo_uploaded)
  obtain n where n: "nodes (w_db w) = [n]" "node_by_id (demo_id ''11'') (w_db w) = Some n"
    by (rule demo_row [OF v f])
  obtain gone w1 where d: "Delete demo_env no_faults demo_repo idle idle demo_bob (demo_id ''11'') w = (gone, w1)" by fastforce
  have may: "permitted demo_bob demo_file ActionDelete" "permitted demo_bob demo_file ActionDownload"
    by (simp_all add: demo_owner acl_action_def)
  have "node_count (n_blob n) (w_db w) = 1" by (simp add: node_count_def count_where_def n(1))
  from deletion_looks_like_tampering [OF demo_quiet demo_quiet _ _ _ n(2) this may(2,1) d, of demo_crypto] v f d
  show ?thesis by auto
qed

end
