(* ===== verification/Upgrade.thy ===== *)
theory Upgrade
  imports Auth_Properties
begin

text \<open>
  Upgrading a database of the first version: what \<^verbatim>\<open>internal/database/migrations/0003_session_timeouts.sql\<close> does
  to the sessions that are in it. (For the migrations as such, scripts are parameters of \<open>Migrations\<close>.)
\<close>

text \<open>A session as \<^verbatim>\<open>0001_init.sql\<close> has it, with an absolute deadline only.\<close>

record old_session =
  os_user :: string
  os_token_hash :: bytes
  os_created :: time
  os_expires :: time

text \<open>The new column, and the update that fills it and clamps the deadline.\<close>

definition upgrade_session :: "old_session \<Rightarrow> session_row" where
  "upgrade_session y =
     \<lparr>se_user = os_user y, se_token_hash = os_token_hash y, se_created = os_created y,
      se_expires = min (os_expires y) (os_created y + 4 * hour), se_last_seen = os_created y\<rparr>"

definition upgrade :: "old_session list \<Rightarrow> db \<Rightarrow> db" where
  "upgrade old d = d\<lparr>sessions := map upgrade_session old\<rparr>"

text \<open>The constraints of the old table.\<close>

definition old_sessions_ok :: "old_session list \<Rightarrow> db \<Rightarrow> bool" where
  "old_sessions_ok old d \<longleftrightarrow> distinct (map os_token_hash old) \<and>
     (\<forall>y\<in>set old. \<exists>x\<in>set (users d). ur_id x = os_user y)"

lemma upgrade_schema:
  assumes "schema_ok d" and "old_sessions_ok old d"
  shows "schema_ok (upgrade old d)"
proof -
  have "sessions_ok (upgrade old d)"
    using assms(2) by (simp add: sessions_ok_def old_sessions_ok_def upgrade_def upgrade_session_def comp_def)
  with schema_parts [OF assms(1)] show ?thesis
    by (intro schema_okI) (simp_all add: upgrade_def)
qed

lemma validated_session:
  assumes "fst (ValidateSession env c s token w) = Inr p"
  obtains r where "r \<in> set (sessions (w_db w))" "session_live s (en_now env) (HashToken c token) r" "se_user r = u_ID p"
proof -
  let ?live = "\<lambda>r. session_live s (en_now env) (HashToken c token) r \<and> user_by_id (se_user r) (w_db w) \<noteq> None"
  obtain r x where r: "query_row ?live (sessions (w_db w)) = Some r" "user_by_id (se_user r) (w_db w) = Some x" "u_ID p = ur_id x"
    using assms by (auto simp: ValidateSession_def Let_def split: if_splits option.splits)
  from query_row_Some [OF r(1)] query_row_Some [OF r(2) [unfolded user_by_id_def]] r(3) show thesis
    by (intro that [of r]) simp_all
qed

text \<open>
  C31 Old sessions fail closed: the upgrade gives every session of the first version the limits of the new service, so
  that its invariant holds on the upgraded database, and a token of an old session is accepted only for the account it was
  issued to, before the deadline it had, and within the inactivity limit since it was issued: no session gains time.
\<close>

theorem old_sessions_fail_closed:
  assumes "schema_ok (w_db w)" and "old_sessions_ok old (w_db w)" and "\<forall>y\<in>set old. os_created y \<le> t"
  shows "schema_ok (upgrade old (w_db w)) \<and> sessions_bounded NewService t (upgrade old (w_db w)) \<and>
    (\<forall>env c token p. fst (ValidateSession env c NewService token (w\<lparr>w_db := upgrade old (w_db w)\<rparr>)) = Inr p \<longrightarrow>
       (\<exists>y\<in>set old. os_token_hash y = HashToken c token \<and> os_user y = u_ID p \<and> en_now env < os_expires y \<and>
          en_now env < os_created y + 30 * minute))"
proof (intro conjI allI impI)
  show "schema_ok (upgrade old (w_db w))" by (rule upgrade_schema [OF assms(1,2)])
  show "sessions_bounded NewService t (upgrade old (w_db w))"
    using assms(3) by (auto simp: sessions_bounded_def upgrade_def upgrade_session_def NewService_def sessionAbsoluteTTL_def)
  fix env c token p
  assume "fst (ValidateSession env c NewService token (w\<lparr>w_db := upgrade old (w_db w)\<rparr>)) = Inr p"
  then obtain r where "r \<in> set (map upgrade_session old)" "session_live NewService (en_now env) (HashToken c token) r"
      "se_user r = u_ID p"
    by (rule validated_session) (simp add: upgrade_def)
  then show "\<exists>y\<in>set old. os_token_hash y = HashToken c token \<and> os_user y = u_ID p \<and> en_now env < os_expires y \<and>
      en_now env < os_created y + 30 * minute"
    by (auto simp: upgrade_session_def session_live_def NewService_def sessionIdleTTL_def)
qed

theorem old_sessions_fail_closed_witness:
  "\<exists>y. y = \<lparr>os_user = demo_id ''02'', os_token_hash = replicate 32 7, os_created = 0, os_expires = 24 * hour\<rparr> \<and>
     sessions_bounded NewService 0 (upgrade [y] demo_db) \<and> map se_expires (sessions (upgrade [y] demo_db)) = [4 * hour]"
proof -
  define y where "y = \<lparr>os_user = demo_id ''02'', os_token_hash = replicate 32 (7::byte), os_created = 0, os_expires = 24 * hour\<rparr>"
  have "old_sessions_ok [y] (w_db (demo_world\<lparr>w_db := demo_db\<rparr>))"
    by (simp add: old_sessions_ok_def y_def demo_db_def demo_user_row_def)
  from old_sessions_fail_closed [OF _ this, of 0] demo_schema_ok
  have "sessions_bounded NewService 0 (upgrade [y] demo_db)" by (simp add: y_def)
  then show ?thesis
    by (intro exI [of _ y]) (simp add: y_def upgrade_def upgrade_session_def)
qed

end
