(* ===== verification/Spec2Isabelle.thy ===== *)
theory Spec2Isabelle
  imports Api_Flows Startup Auth_Races Registration_Lock File_Races Upgrade
begin

text \<open>
  A verification development for SecureVault, a file vault written in Go: a single binary with a JSON API over HTTP,
  PostgreSQL for metadata and an encrypted, content-addressed object store on disk. It models the Go code under
  \<^verbatim>\<open>internal/\<close> and \<^verbatim>\<open>cmd/server\<close> and proves what makes each part, and the parts together, correct.

  \<^bold>\<open>The program.\<close> A request passes the chain of \<^verbatim>\<open>internal/api\<close> (request id, recovery, logging, security headers),
  the route table and its guards (session, CSRF token, administrator) and reaches a handler, which calls one operation
  of a service: \<^verbatim>\<open>internal/auth\<close> (accounts, login, sessions, invites) or \<^verbatim>\<open>internal/files\<close> (upload, download, rename,
  delete, sharing). The file service asks \<^verbatim>\<open>internal/authz\<close> for every decision, keeps metadata in the database and
  contents in \<^verbatim>\<open>internal/storage\<close>, and both services record events through \<^verbatim>\<open>internal/audit\<close>. \<^verbatim>\<open>cmd/server\<close> reads
  the configuration (\<^verbatim>\<open>internal/config\<close>), migrates the database (\<^verbatim>\<open>internal/database\<close>) and wires the services.

  \<^bold>\<open>The world.\<close> An operation is a function of the world (\<open>world\<close>: the tables \<open>db\<close>, the file system \<open>fsys\<close>, the process log)
  that returns a result, an error (\<open>Inl\<close>) or a value (\<open>Inr\<close>), and the world it leaves. Everything the program does not
  decide is an argument: the clock, which database calls fail and how a commit ends (\<open>env\<close>; a commit is done,
  refused, or done although its reply is lost), which system calls fail (\<open>fs_faults\<close>), the random sources, identifiers
  drawn by the database, and what other sessions commit in the windows between two steps of one operation
  (\<open>rival\<close>). For an HTTP request all of these form an \<open>ambience\<close>.

  \<^bold>\<open>Theories.\<close>

  \<^item> \<open>SV_Prelude\<close>: Go types, readers, random sources, SQL statements on row lists (collection \<open>table_simps\<close>), lists.
  \<^item> \<open>Go_Text\<close>, \<open>Go_Encoding\<close>, \<open>Go_Mime\<close>, \<open>Go_Http\<close>: what the program uses of the standard library, written out: UTF-8,
    \<^verbatim>\<open>strings\<close>, \<^verbatim>\<open>path/filepath\<close>, hex, base64, base32, \<^verbatim>\<open>strconv\<close>, \<^verbatim>\<open>mime\<close>, JSON decoding on the level of values, \<^verbatim>\<open>net\<close>.
  \<^item> \<open>Schema\<close>: the tables of \<^verbatim>\<open>internal/database/migrations\<close> with their constraints (\<open>schema_ok\<close>), which every statement
    keeps; the locale \<open>unique_index\<close> is the contract of a unique column, interpreted for six tables.
  \<^item> \<open>Audit_Log\<close>: \<^verbatim>\<open>audit.go\<close>, transactions, the world. \<open>Authz\<close>: \<^verbatim>\<open>authz.go\<close>, the locale \<open>choke_point\<close>, access levels.
  \<^item> \<open>Object_Store\<close>: \<^verbatim>\<open>storage/crypto.go\<close> and \<^verbatim>\<open>store.go\<close>; the locale \<open>content_store\<close> is what the file service relies on
    (staging, publishing, aborting and removing keep what other addresses hold), interpreted on the model (\<open>os\<close>).
  \<^item> \<open>Passwords\<close>: \<^verbatim>\<open>password.go\<close>, \<^verbatim>\<open>token.go\<close>. \<open>Registration\<close>: \<^verbatim>\<open>registration.go\<close>. \<open>Auth_Service\<close>: \<^verbatim>\<open>service.go\<close> with a case
    rule for each operation. \<open>Auth_Properties\<close>: the invariant \<open>auth_inv\<close> (schema, at most the permitted number of recent
    failures, session time stamps within their bounds) and what login, sessions and registration guarantee.
    \<open>Auth_Races\<close>: what the throttle is worth against guesses one after the other (counted by the comparisons of the
    password, not by the answers), and against guesses at once; and a login that is overtaken by a password change.
    \<open>Registration_Lock\<close>: registrations with one step for each statement, the advisory lock, the row lock on the invite, the
    connections of the pool, and the audit events outside the transaction (\<open>reg_step\<close>); every interleaving is simulated by
    the function \<open>replay\<close> that runs whole registrations and the other operations in a row; the state in which all stop.
  \<^item> \<open>Files_Validate\<close>: \<^verbatim>\<open>validate.go\<close>. \<open>Files_Repo\<close>: \<^verbatim>\<open>files.go\<close>, every operation whole, with its windows.
  \<^item> \<open>Vault\<close>: the invariant \<open>vault\<close> over tables and object files (every blob row is served with its recorded size and counted
    by as many files) and the abstract view, a map from identifiers to files (owner, name, type, content, grants).
    \<open>Vault_Ops\<close>, \<open>Vault_Properties\<close>: each operation keeps the invariant under every fault and acts on the view as it
    should. \<open>Vault_Races\<close>: when uploads succeed, and what two sessions do to each other; \<open>File_Races\<close>: downloads and
    deletions at the same time.
  \<^item> \<open>Api_Server\<close>, \<open>Api_Handlers\<close>, \<open>Api_Routes\<close>: \<^verbatim>\<open>server.go\<close>, \<^verbatim>\<open>middleware.go\<close>, the three \<^verbatim>\<open>handlers\<close> files. \<open>Api_Guards\<close>,
    \<open>Api_Properties\<close>: what holds for every request. \<open>Api_Contract\<close>: the locale \<open>service_contract\<close>, in which every handler,
    guard and the whole chain are shown to keep a property of the world that the operations keep. \<open>Api_System\<close>: two
    instances of it, the joint invariant over all reachable states (\<open>serves\<close>, \<open>reachable\<close>) and the roster of accounts.
    \<open>Api_Paging\<close>: the review of the audit trail page by page. \<open>Api_Flows\<close>: signing in, oversized uploads, invites.
  \<^item> \<open>Config\<close>, \<open>Migrations\<close>, \<open>Startup\<close>: \<^verbatim>\<open>config.go\<close>, \<^verbatim>\<open>database.go\<close>, \<^verbatim>\<open>cmd/server/main.go\<close>, the package \<^verbatim>\<open>web\<close>.
    \<open>Upgrade\<close>: what the third migration does to the sessions of an old database.

  \<^bold>\<open>What is proved\<close>, in the order of the claims: the invariant of the whole service and the refinement of the file
  map by upload, delete and download (C1 to C5); the guards of the API (C6, C7); the object store (C8, C9); login,
  throttling, sessions, passwords, invites, overlapping registrations (C10 to C17, C26 to C28); hidden administration,
  migrations, audit review, controlled replies and reads (C18 to C22); sharing and listing (C23, C24); limits (C25);
  racing uploads, the start and the upgrade (C29 to C31); formats (C32 to C34); and behaviours the code has but should
  not have (C35 to C40), each with a concrete run. Where a theorem has hypotheses a witness applies it.

  \<^bold>\<open>Parameters and hypotheses.\<close> SHA-256, AES-GCM and Argon2id are the fields of \<open>crypto\<close>; \<open>crypto_ok\<close> states lengths and
  that opening what was sealed gives it back, nothing about secrecy. Where deduplication needs that one content has no
  second one with its digest, \<open>collision_free\<close> says so of that content only. \<open>tame\<close> and \<open>peaceful\<close> confine what other sessions do
  in a window to what keeps the invariant and staged objects; \<open>Vault_Races\<close> shows that the operations of the code are
  of this kind, and which are not in the window of a deletion. \<^verbatim>\<open>http.DetectContentType\<close>, non-ASCII Unicode tables, the
  collation of user names, the built web interface and the effect of a SQL script are parameters.

  \<^bold>\<open>Bounds.\<close> \<open>int64\<close> is a 64-bit word where the code can overflow it (upload limits, invite lifetimes); times are
  nanoseconds as integers. All loops of the program are recursions with a proof that they end; the one loop without a bound of its
  own, the client that pages through the audit trail, is a partial function that is proved to return. No fuel is used.

  \<^bold>\<open>Not modelled.\<close> Concurrency inside a statement or a transaction: operations interleave only in the named windows,
  and in \<open>Registration_Lock\<close> statement by statement, with each other and with what keeps the rule \<open>outsider\<close>. The joint invariant serves one request after the other; its limit on recent failures does not survive logins that overlap, as
  \<open>Auth_Races\<close> shows. Durability
  across a crash (\<^verbatim>\<open>fsync\<close> is a call that may fail), wall-clock timing of \<^verbatim>\<open>EqualizeTiming\<close> beyond its cost parameters, the
  text of log lines and wrapped errors, the lexing of JSON, multipart and HTTP by the standard library, TLS and
  the effect of the time-outs of \<^verbatim>\<open>net/http\<close>, the built web interface and the TypeScript front end, the deployment files and the tests.
\<close>

end
